(* ===== verification/Prelude.thy ===== *)
theory Prelude
  imports Main "HOL-Library.Word"
begin

text \<open>
  Prelude of the goIGMP development: the vocabulary every component shares.

  \<^item> Machine bytes, and the default that a Go map read returns for a missing key.
  \<^item> Effects. A Go function that touches shared state or may end the process is a function
    from the state to a result and the new state; the result is \<open>Inl\<close> of the way the
    process ended (\<open>log.Fatal\<close> or a run-time panic) or \<open>Inr\<close> of the value returned.
    Effects made before the end of the process stay in the state.
  \<^item> Two relations on such functions that carry most component proofs: \<open>preserves I m\<close>
    (the invariant survives, whichever way \<open>m\<close> ends) and \<open>keeps f m\<close> (the field \<open>f\<close>
    is untouched), each with introduction rules in the collection \<open>pres\<close>.
  \<^item> Decimal and hexadecimal printing as \<open>fmt\<close> and \<open>netip\<close> do it.
\<close>

named_theorems pres \<open>introduction rules for preservation of invariants and frames\<close>
named_theorems eff \<open>unfolding of the effect combinators\<close>

subsection \<open>Bytes and map reads\<close>

type_synonym u8 = "8 word"
type_synonym bytes = "8 word list"

definition get0 :: "'v \<Rightarrow> ('k \<rightharpoonup> 'v) \<Rightarrow> 'k \<Rightarrow> 'v" where
  "get0 zero m k = (case m k of None \<Rightarrow> zero | Some v \<Rightarrow> v)"

lemma get0_Some [simp]: "m k = Some v \<Longrightarrow> get0 z m k = v"
  by (simp add: get0_def)

lemma get0_None [simp]: "m k = None \<Longrightarrow> get0 z m k = z"
  by (simp add: get0_def)

lemma get0_upd [simp]: "get0 z (m(k \<mapsto> v)) k' = (if k' = k then v else get0 z m k')"
  by (simp add: get0_def)

subsection \<open>State, results and the end of the process\<close>

datatype fatal = LogFatal string | Panic string

type_synonym ('s, 'a) eff = "'s \<Rightarrow> (fatal + 'a) \<times> 's"

definition ret :: "'a \<Rightarrow> ('s, 'a) eff" where
  "ret x = (\<lambda>s. (Inr x, s))"

definition die :: "fatal \<Rightarrow> ('s, 'a) eff" where
  "die e = (\<lambda>s. (Inl e, s))"

definition bind :: "('s, 'a) eff \<Rightarrow> ('a \<Rightarrow> ('s, 'b) eff) \<Rightarrow> ('s, 'b) eff" where
  "bind m f = (\<lambda>s. case m s of (Inl e, s') \<Rightarrow> (Inl e, s') | (Inr x, s') \<Rightarrow> f x s')"

definition upd :: "('s \<Rightarrow> 's) \<Rightarrow> ('s, unit) eff" where
  "upd f = (\<lambda>s. (Inr (), f s))"

definition reads :: "('s \<Rightarrow> 'a) \<Rightarrow> ('s, 'a) eff" where
  "reads f = (\<lambda>s. (Inr (f s), s))"

definition lift :: "fatal + 'a \<Rightarrow> ('s, 'a) eff" where
  "lift r = (\<lambda>s. (r, s))"

primrec seqs :: "('s, unit) eff list \<Rightarrow> ('s, unit) eff" where
  "seqs [] = ret ()"
| "seqs (m # ms) = bind m (\<lambda>_. seqs ms)"

primrec foldM :: "('x \<Rightarrow> 'a \<Rightarrow> ('s, 'a) eff) \<Rightarrow> 'x list \<Rightarrow> 'a \<Rightarrow> ('s, 'a) eff" where
  "foldM f [] a = ret a"
| "foldM f (x # xs) a = bind (f x a) (foldM f xs)"

lemma ret_apply [simp, eff]: "ret x s = (Inr x, s)"
  by (simp add: ret_def)

lemma die_apply [simp, eff]: "die e s = (Inl e, s)"
  by (simp add: die_def)

lemma upd_apply [simp, eff]: "upd f s = (Inr (), f s)"
  by (simp add: upd_def)

lemma reads_apply [simp, eff]: "reads f s = (Inr (f s), s)"
  by (simp add: reads_def)

lemma lift_apply [simp, eff]: "lift r s = (r, s)"
  by (simp add: lift_def)

lemma bind_apply [eff]:
  "bind m f s = (case m s of (Inl e, s') \<Rightarrow> (Inl e, s') | (Inr x, s') \<Rightarrow> f x s')"
  by (simp add: bind_def)

lemma bind_Inr [simp]: "m s = (Inr x, s') \<Longrightarrow> bind m f s = f x s'"
  by (simp add: bind_def)

lemma bind_Inl [simp]: "m s = (Inl e, s') \<Longrightarrow> bind m f s = (Inl e, s')"
  by (simp add: bind_def)

lemma bind_ret [simp]: "bind (ret x) f = f x"
  by (simp add: bind_def ret_def)

lemma bind_upd [simp]: "bind (upd g) f s = f () (g s)"
  by (simp add: bind_def)

lemma bind_reads [simp]: "bind (reads g) f s = f (g s) s"
  by (simp add: bind_def)

lemma bind_lift: "bind (lift r) f s = (case r of Inl e \<Rightarrow> (Inl e, s) | Inr x \<Rightarrow> f x s)"
  by (simp add: bind_def split: sum.splits)

lemma seqs_Inr: "m s = (Inr (), t) \<Longrightarrow> seqs (m # ms) s = seqs ms t"
  by simp

lemma seqs_Inl: "m s = (Inl e, t) \<Longrightarrow> seqs (m # ms) s = (Inl e, t)"
  by simp

lemma bind_die [simp]: "bind (die e) f = die e"
  by (simp add: bind_def die_def fun_eq_iff)

lemma bind_assoc: "bind (bind m f) g = bind m (\<lambda>x. bind (f x) g)"
  by (auto simp: bind_def fun_eq_iff split: prod.splits sum.splits)

lemma bind_eq_Inr:
  "bind m f s = (Inr y, t) \<longleftrightarrow> (\<exists>x s'. m s = (Inr x, s') \<and> f x s' = (Inr y, t))"
  by (auto simp: bind_def split: prod.splits sum.splits)

subsection \<open>A fallible function over a list\<close>

primrec mapE :: "('a \<Rightarrow> 'e + 'b) \<Rightarrow> 'a list \<Rightarrow> 'e + 'b list" where
  "mapE f [] = Inr []"
| "mapE f (x # xs) =
     (case f x of Inl e \<Rightarrow> Inl e
      | Inr y \<Rightarrow> (case mapE f xs of Inl e \<Rightarrow> Inl e | Inr ys \<Rightarrow> Inr (y # ys)))"

lemma mapE_Inr_iff: "mapE f xs = Inr ys \<longleftrightarrow> map f xs = map Inr ys"
proof (induction xs arbitrary: ys)
  case (Cons x xs)
  show ?case
  proof (cases "mapE f xs")
    case (Inl e)
    with Cons.IH have "map f xs \<noteq> map Inr zs" for zs by (metis sum.distinct(1))
    with Inl show ?thesis by (cases ys) (auto split: sum.splits)
  next
    case (Inr zs)
    with Cons.IH have "map f xs = map Inr zs" by blast
    with Inr show ?thesis by (cases ys) (auto split: sum.splits)
  qed
qed auto

lemma mapE_length: "mapE f xs = Inr ys \<Longrightarrow> length ys = length xs"
  by (auto simp: mapE_Inr_iff dest: arg_cong [of _ _ length])

lemma mapE_total: "(\<And>x. x \<in> set xs \<Longrightarrow> f x = Inr (g x)) \<Longrightarrow> mapE f xs = Inr (map g xs)"
  by (induction xs) auto

subsection \<open>Preservation and frames\<close>

definition preserves :: "('s \<Rightarrow> bool) \<Rightarrow> ('s, 'a) eff \<Rightarrow> bool" where
  "preserves I m \<longleftrightarrow> (\<forall>s. I s \<longrightarrow> I (snd (m s)))"

definition keeps :: "('s \<Rightarrow> 'b) \<Rightarrow> ('s, 'a) eff \<Rightarrow> bool" where
  "keeps f m \<longleftrightarrow> (\<forall>s. f (snd (m s)) = f s)"

lemma preservesD: "preserves I m \<Longrightarrow> I s \<Longrightarrow> m s = (r, t) \<Longrightarrow> I t"
  by (metis preserves_def snd_conv)

lemma keepsD: "keeps f m \<Longrightarrow> m s = (r, t) \<Longrightarrow> f t = f s"
  by (metis keeps_def snd_conv)

lemma keeps_snd [simp]: "keeps f m \<Longrightarrow> f (snd (m s)) = f s"
  by (simp add: keeps_def)

lemma preserves_bind [pres]:
  "preserves I m \<Longrightarrow> (\<And>x. preserves I (f x)) \<Longrightarrow> preserves I (bind m f)"
  by (fastforce simp: preserves_def bind_def split: prod.splits sum.splits)

lemma keeps_bind [pres]:
  assumes "keeps g m" and "\<And>x. keeps g (f x)"
  shows "keeps g (bind m f)"
  unfolding keeps_def
proof
  fix s
  obtain r t where m: "m s = (r, t)" by (cases "m s")
  with assms(1) have "g t = g s" by (rule keepsD)
  with m assms(2) show "g (snd (bind m f s)) = g s" by (cases r) simp_all
qed

lemma preserves_simple [pres]:
  "preserves I (ret x)" "preserves I (die e)" "preserves I (reads h)" "preserves I (lift r)"
  by (simp_all add: preserves_def)

lemma keeps_simple [pres]: "keeps g (ret x)" "keeps g (die e)" "keeps g (reads h)" "keeps g (lift r)"
  by (simp_all add: keeps_def)

lemma keeps_upd [pres]: "(\<And>s. g (f s) = g s) \<Longrightarrow> keeps g (upd f)"
  by (simp add: keeps_def)

lemma preserves_if [pres]:
  "(b \<Longrightarrow> preserves I m) \<Longrightarrow> (\<not> b \<Longrightarrow> preserves I n) \<Longrightarrow> preserves I (if b then m else n)"
  by simp

lemma keeps_if [pres]:
  "(b \<Longrightarrow> keeps g m) \<Longrightarrow> (\<not> b \<Longrightarrow> keeps g n) \<Longrightarrow> keeps g (if b then m else n)"
  by simp

lemma keeps_option [pres]:
  "(x = None \<Longrightarrow> keeps g m) \<Longrightarrow> (\<And>y. x = Some y \<Longrightarrow> keeps g (n y)) \<Longrightarrow>
   keeps g (case x of None \<Rightarrow> m | Some y \<Rightarrow> n y)"
  by (cases x) auto

lemma preserves_option [pres]:
  "(x = None \<Longrightarrow> preserves I m) \<Longrightarrow> (\<And>y. x = Some y \<Longrightarrow> preserves I (n y)) \<Longrightarrow>
   preserves I (case x of None \<Rightarrow> m | Some y \<Rightarrow> n y)"
  by (cases x) auto

lemma keeps_seqs [pres]: "list_all (keeps g) ms \<Longrightarrow> keeps g (seqs ms)"
  by (induction ms) (auto intro!: pres)

lemma preserves_seqs [pres]: "list_all (preserves I) ms \<Longrightarrow> preserves I (seqs ms)"
  by (induction ms) (auto intro!: pres)

subsection \<open>Triples: what holds when a function returns\<close>

definition triple :: "('s \<Rightarrow> bool) \<Rightarrow> ('s, 'a) eff \<Rightarrow> ('a \<Rightarrow> 's \<Rightarrow> bool) \<Rightarrow> bool" where
  "triple P m Q \<longleftrightarrow> (\<forall>s x t. P s \<longrightarrow> m s = (Inr x, t) \<longrightarrow> Q x t)"

named_theorems hoare \<open>introduction rules for triples\<close>

lemma tripleD: "triple P m Q \<Longrightarrow> P s \<Longrightarrow> m s = (Inr x, t) \<Longrightarrow> Q x t"
  by (simp add: triple_def)

lemma triple_bind:
  "triple P m Q \<Longrightarrow> (\<And>x. triple (Q x) (f x) R) \<Longrightarrow> triple P (bind m f) R"
  by (fastforce simp: triple_def bind_eq_Inr)

lemma triple_conseq:
  "triple P m Q \<Longrightarrow> (\<And>s. P' s \<Longrightarrow> P s) \<Longrightarrow> (\<And>x s. Q x s \<Longrightarrow> Q' x s) \<Longrightarrow> triple P' m Q'"
  unfolding triple_def by blast

lemma triple_ret: "(\<And>s. P s \<Longrightarrow> Q x s) \<Longrightarrow> triple P (ret x) Q"
  by (simp add: triple_def)

lemma triple_die: "triple P (die e) Q"
  by (simp add: triple_def)

lemma triple_lift: "(\<And>x s. r = Inr x \<Longrightarrow> P s \<Longrightarrow> Q x s) \<Longrightarrow> triple P (lift r) Q"
  by (simp add: triple_def)

lemma triple_upd: "(\<And>s. P s \<Longrightarrow> Q () (f s)) \<Longrightarrow> triple P (upd f) Q"
  by (simp add: triple_def)

lemma triple_if:
  "(b \<Longrightarrow> triple P m Q) \<Longrightarrow> (\<not> b \<Longrightarrow> triple P n Q) \<Longrightarrow> triple P (if b then m else n) Q"
  by simp

lemma triple_option:
  "(x = None \<Longrightarrow> triple P m Q) \<Longrightarrow> (\<And>y. x = Some y \<Longrightarrow> triple P (n y) Q) \<Longrightarrow>
   triple P (case x of None \<Rightarrow> m | Some y \<Rightarrow> n y) Q"
  by (cases x) auto

lemma triple_sum:
  "(\<And>e. x = Inl e \<Longrightarrow> triple P (m e) Q) \<Longrightarrow> (\<And>y. x = Inr y \<Longrightarrow> triple P (n y) Q) \<Longrightarrow>
   triple P (case x of Inl e \<Rightarrow> m e | Inr y \<Rightarrow> n y) Q"
  by (cases x) auto

lemma triple_preserves: "preserves I m \<Longrightarrow> triple I m (\<lambda>_. I)"
  by (auto simp: triple_def dest: preservesD)

lemma preserves_sum [pres]:
  "(\<And>e. x = Inl e \<Longrightarrow> preserves I (m e)) \<Longrightarrow> (\<And>y. x = Inr y \<Longrightarrow> preserves I (n y)) \<Longrightarrow>
   preserves I (case x of Inl e \<Rightarrow> m e | Inr y \<Rightarrow> n y)"
  by (cases x) auto

lemma keeps_sum [pres]:
  "(\<And>e. x = Inl e \<Longrightarrow> keeps g (m e)) \<Longrightarrow> (\<And>y. x = Inr y \<Longrightarrow> keeps g (n y)) \<Longrightarrow>
   keeps g (case x of Inl e \<Rightarrow> m e | Inr y \<Rightarrow> n y)"
  by (cases x) auto

lemma keeps_let [pres]: "(\<And>x. keeps g (f x)) \<Longrightarrow> keeps g (let x = v in f x)"
  by simp

lemma preserves_let [pres]: "(\<And>x. preserves I (f x)) \<Longrightarrow> preserves I (let x = v in f x)"
  by simp

subsection \<open>Printing numbers\<close>

fun dec :: "nat \<Rightarrow> string" where
  "dec n = (if n < 10 then [char_of (48 + n)] else dec (n div 10) @ [char_of (48 + n mod 10)])"

declare dec.simps [simp del]

definition dec_int :: "int \<Rightarrow> string" where
  "dec_int i = (if i < 0 then ''-'' @ dec (nat (- i)) else dec (nat i))"

definition show_bool :: "bool \<Rightarrow> string" where
  "show_bool b = (if b then ''true'' else ''false'')"

definition hex_digit :: "nat \<Rightarrow> char" where
  "hex_digit n = (if n < 10 then char_of (48 + n) else char_of (87 + n))"

fun hex :: "nat \<Rightarrow> string" where
  "hex n = (if n < 16 then [hex_digit n] else hex (n div 16) @ [hex_digit (n mod 16)])"

declare hex.simps [simp del]

lemma dec_1: "n < 10 \<Longrightarrow> dec n = [char_of (48 + n)]"
  by (simp add: dec.simps)

lemma dec_2: "10 \<le> n \<Longrightarrow> n < 100 \<Longrightarrow> dec n = [char_of (48 + n div 10), char_of (48 + n mod 10)]"
  by (simp add: dec.simps [of n] dec_1)

lemma dec_3:
  "100 \<le> n \<Longrightarrow> n < 1000 \<Longrightarrow>
   dec n = [char_of (48 + n div 100), char_of (48 + n div 10 mod 10), char_of (48 + n mod 10)]"
  by (simp add: dec.simps [of n] dec_2 div_mult2_eq [symmetric])

end
