(* ===== verification/NetAddr.thy ===== *)
theory NetAddr
  imports Prelude
begin

text \<open>
  IP addresses as goIGMP uses them: \<open>net.IP\<close> (a byte slice), \<open>netip.Addr\<close> (a comparable
  value, invalid when zero), their parsers and printers from the standard library (Go 1.22),
  the two conversions \<open>netip2Addr\<close> and \<open>addr2NetIP\<close> of goIGMP.go, the dynamic values
  compared by \<open>reflect.DeepEqual\<close>, and the translation tables built by \<open>makeIPMaps\<close>.
  The locale \<open>addr_codec\<close> states the contract of the two conversions.
\<close>

unbundle bit_operations_syntax

subsection \<open>net.IP and netip.Addr\<close>

type_synonym net_ip = bytes

datatype Addr = AddrZero | Addr4 u8 u8 u8 u8 | Addr6 bytes string

definition Addr_IsValid :: "Addr \<Rightarrow> bool" where
  "Addr_IsValid a = (a \<noteq> AddrZero)"

fun Addr_IsMulticast :: "Addr \<Rightarrow> bool" where
  "Addr_IsMulticast AddrZero = False"
| "Addr_IsMulticast (Addr4 a b c d) = (a AND 0xf0 = 0xe0)"
| "Addr_IsMulticast (Addr6 bs z) = (hd (bs @ [0]) = 0xff)"

fun Addr_AsSlice :: "Addr \<Rightarrow> net_ip" where
  "Addr_AsSlice AddrZero = []"
| "Addr_AsSlice (Addr4 a b c d) = [a, b, c, d]"
| "Addr_AsSlice (Addr6 bs z) = bs"

definition AddrFromSlice :: "net_ip \<Rightarrow> Addr option" where
  "AddrFromSlice ip =
     (case ip of [a, b, c, d] \<Rightarrow> Some (Addr4 a b c d)
      | _ \<Rightarrow> if length ip = 16 then Some (Addr6 ip []) else None)"

definition v4InV6Prefix :: bytes where
  "v4InV6Prefix = replicate 10 0 @ [0xff, 0xff]"

definition IP_To4 :: "net_ip \<Rightarrow> net_ip" where
  "IP_To4 ip =
     (if length ip = 4 then ip
      else if length ip = 16 \<and> take 12 ip = v4InV6Prefix then drop 12 ip
      else [])"

definition net_IPv4 :: "u8 \<Rightarrow> u8 \<Rightarrow> u8 \<Rightarrow> u8 \<Rightarrow> net_ip" where
  "net_IPv4 a b c d = v4InV6Prefix @ [a, b, c, d]"

text \<open>\<open>net.IPv4allrouter\<close>: the 16-byte form of 224.0.0.2.\<close>

definition IPv4allrouter :: net_ip where
  "IPv4allrouter = net_IPv4 224 0 0 2"

definition Addr_wf :: "Addr \<Rightarrow> bool" where
  "Addr_wf a = (case a of Addr6 bs z \<Rightarrow> length bs = 16 | _ \<Rightarrow> True)"

definition Addr_zoneless :: "Addr \<Rightarrow> bool" where
  "Addr_zoneless a = (case a of Addr6 bs z \<Rightarrow> z = [] | _ \<Rightarrow> True)"

subsection \<open>Parsing addresses\<close>

definition is_digit :: "char \<Rightarrow> bool" where
  "is_digit c = (48 \<le> (of_char c :: nat) \<and> (of_char c :: nat) \<le> 57)"

definition digit_val :: "char \<Rightarrow> nat" where
  "digit_val c = of_char c - 48"

text \<open>\<open>parseIPv4Fields\<close>: the octet being read, its number of digits, the octets done.\<close>

fun parseIPv4Fields :: "string \<Rightarrow> nat \<Rightarrow> nat \<Rightarrow> bytes \<Rightarrow> bytes option" where
  "parseIPv4Fields [] val digLen fields =
     (if length fields < 3 then None else Some (fields @ [of_nat val]))"
| "parseIPv4Fields (c # s) val digLen fields =
     (if is_digit c then
        (if digLen = 1 \<and> val = 0 then None
         else if 255 < val * 10 + digit_val c then None
         else parseIPv4Fields s (val * 10 + digit_val c) (Suc digLen) fields)
      else if c = CHR ''.'' then
        (if digLen = 0 \<or> s = [] then None
         else if length fields = 3 then None
         else parseIPv4Fields s 0 0 (fields @ [of_nat val]))
      else None)"

definition parseIPv4 :: "string \<Rightarrow> Addr option" where
  "parseIPv4 s =
     (case parseIPv4Fields s 0 0 [] of
        Some [a, b, c, d] \<Rightarrow> Some (Addr4 a b c d)
      | _ \<Rightarrow> None)"

definition hex_val :: "char \<Rightarrow> nat option" where
  "hex_val c =
     (let n = of_char c :: nat in
      if 48 \<le> n \<and> n \<le> 57 then Some (n - 48)
      else if 97 \<le> n \<and> n \<le> 102 then Some (n - 87)
      else if 65 \<le> n \<and> n \<le> 70 then Some (n - 55)
      else None)"

fun hex_group :: "string \<Rightarrow> nat \<Rightarrow> nat \<Rightarrow> (nat \<times> nat \<times> string) option" where
  "hex_group [] off acc = Some (acc, off, [])"
| "hex_group (c # s) off acc =
     (case hex_val c of
        None \<Rightarrow> Some (acc, off, c # s)
      | Some d \<Rightarrow>
          if 3 < off then None
          else if 65535 < acc * 16 + d then None
          else hex_group s (Suc off) (acc * 16 + d))"

text \<open>The loop of \<open>parseIPv6\<close>: text left, bytes so far, position of the ellipsis.\<close>

function parse6_loop :: "string \<Rightarrow> bytes \<Rightarrow> nat option \<Rightarrow> (string \<times> bytes \<times> nat option) option" where
  "parse6_loop s ip ell =
     (if 16 \<le> length ip then Some (s, ip, ell)
      else case hex_group s 0 0 of
        None \<Rightarrow> None
      | Some (acc, off, rest) \<Rightarrow>
          if off = 0 then None
          else if take 1 rest = ''.'' then
            (if ell = None \<and> length ip \<noteq> 12 then None
             else if 16 < length ip + 4 then None
             else map_option (\<lambda>f. ([], ip @ f, ell)) (parseIPv4Fields s 0 0 []))
          else if rest = [] then Some ([], ip @ [of_nat (acc div 256), of_nat acc], ell)
          else if take 1 rest \<noteq> '':'' then None
          else if length rest = 1 then None
          else if take 1 (drop 1 rest) = '':'' then
            (if ell \<noteq> None then None
             else if length rest = 2
               then Some ([], ip @ [of_nat (acc div 256), of_nat acc], Some (length ip + 2))
             else parse6_loop (drop 2 rest) (ip @ [of_nat (acc div 256), of_nat acc])
                    (Some (length ip + 2)))
          else parse6_loop (drop 1 rest) (ip @ [of_nat (acc div 256), of_nat acc]) ell)"
  by pat_completeness auto
termination
  by (relation "measure (\<lambda>(s, ip, ell). 16 - length ip)") auto

declare parse6_loop.simps [simp del]

definition parse6_finish :: "string \<Rightarrow> bytes \<Rightarrow> nat option \<Rightarrow> bytes option" where
  "parse6_finish s ip ell =
     (if s \<noteq> [] then None
      else if length ip < 16 then
        map_option (\<lambda>e. take e ip @ replicate (16 - length ip) 0 @ drop e ip) ell
      else if ell \<noteq> None then None else Some ip)"

definition parseIPv6 :: "string \<Rightarrow> Addr option" where
  "parseIPv6 inp =
     (let s = takeWhile (\<lambda>c. c \<noteq> CHR ''%'') inp;
          zone = drop (Suc (length s)) inp in
      if length s < length inp \<and> zone = [] then None
      else if s = ''::'' then Some (Addr6 (replicate 16 0) zone)
      else
        let (s', ell) = (if take 2 s = ''::'' then (drop 2 s, Some 0) else (s, None)) in
        case parse6_loop s' [] ell of
          None \<Rightarrow> None
        | Some (rest, ip, e) \<Rightarrow> map_option (\<lambda>b. Addr6 b zone) (parse6_finish rest ip e))"

fun first_sep :: "string \<Rightarrow> char option" where
  "first_sep [] = None"
| "first_sep (c # s) = (if c \<in> set ''.:%'' then Some c else first_sep s)"

definition ParseAddr :: "string \<Rightarrow> Addr option" where
  "ParseAddr s =
     (case first_sep s of
        None \<Rightarrow> None
      | Some c \<Rightarrow> if c = CHR ''.'' then parseIPv4 s
                  else if c = CHR '':'' then parseIPv6 s else None)"

definition MustParseAddr :: "string \<Rightarrow> fatal + Addr" where
  "MustParseAddr s = (case ParseAddr s of None \<Rightarrow> Inl (Panic ''ParseAddr'') | Some a \<Rightarrow> Inr a)"

text \<open>\<open>net.ParseIP\<close> answers with 16 bytes, also for an IPv4 address, and nil on error.\<close>

definition net_ParseIP :: "string \<Rightarrow> net_ip" where
  "net_ParseIP s =
     (case ParseAddr s of
        None \<Rightarrow> []
      | Some a \<Rightarrow> (if Addr_zoneless a then
          (case a of Addr4 p q r t \<Rightarrow> net_IPv4 p q r t | _ \<Rightarrow> Addr_AsSlice a) else []))"

subsection \<open>Printing addresses\<close>

fun join :: "string \<Rightarrow> string list \<Rightarrow> string" where
  "join sep [] = []"
| "join sep [x] = x"
| "join sep (x # y # ys) = x @ sep @ join sep (y # ys)"

fun pairs16 :: "bytes \<Rightarrow> nat list" where
  "pairs16 (a # b # bs) = (unat a * 256 + unat b) # pairs16 bs"
| "pairs16 _ = []"

definition zero_run :: "nat list \<Rightarrow> nat \<times> nat" where
  "zero_run gs = fold (\<lambda>i (zs, ze). let l = length (takeWhile ((=) 0) (drop i gs)) in
       if 2 \<le> l \<and> ze - zs < l then (i, i + l) else (zs, ze)) [0..<8] (255, 255)"

definition string4 :: "bytes \<Rightarrow> string" where
  "string4 bs = join ''.'' (map (\<lambda>b. dec (unat b)) bs)"

definition string6 :: "bytes \<Rightarrow> string" where
  "string6 bs =
     (let gs = pairs16 bs; (zs, ze) = zero_run gs; p = (\<lambda>l. join '':'' (map hex l)) in
      if zs = 255 then p gs else p (take zs gs) @ ''::'' @ p (drop ze gs))"

definition zone_suffix :: "string \<Rightarrow> string" where
  "zone_suffix z = (if z = [] then [] else ''%'' @ z)"

fun Addr_String :: "Addr \<Rightarrow> string" where
  "Addr_String AddrZero = ''invalid IP''"
| "Addr_String (Addr4 a b c d) = string4 [a, b, c, d]"
| "Addr_String (Addr6 bs z) =
     (if take 12 bs = v4InV6Prefix then ''::ffff:'' @ string4 (drop 12 bs) else string6 bs)
     @ zone_suffix z"

subsection \<open>The conversions of goIGMP\<close>

definition netip2Addr :: "net_ip \<Rightarrow> string + Addr" where
  "netip2Addr ip =
     (case AddrFromSlice ip of Some addr \<Rightarrow> Inr addr | None \<Rightarrow> Inl ''invalid IP'')"

definition reporter_addr2NetIP :: "Addr \<Rightarrow> string + net_ip" where
  "reporter_addr2NetIP addr =
     (if Addr_IsValid addr then Inr (Addr_AsSlice addr) else Inl ''invalid ip'')"

definition addr2NetIP :: "Addr \<Rightarrow> string + net_ip" where
  "addr2NetIP addr =
     (if Addr_IsValid addr then Inr (Addr_AsSlice addr) else Inl ''invalid ip'')"

subsection \<open>Dynamic values and reflect.DeepEqual\<close>

text \<open>
  The dynamic types behind \<open>net.Addr\<close> that the program meets, and \<open>net.IP\<close>. Values of
  distinct types are never deeply equal; within one of these types deep equality is
  structural.
\<close>

datatype net_addr = IPAddrP net_ip string | IPNetP net_ip bytes | OtherAddr string string

datatype goval = GNil | GAddr net_addr | GIP net_ip

fun dyn_type :: "goval \<Rightarrow> string" where
  "dyn_type GNil = ''nil''"
| "dyn_type (GAddr (IPAddrP ip z)) = ''*net.IPAddr''"
| "dyn_type (GAddr (IPNetP ip m)) = ''*net.IPNet''"
| "dyn_type (GAddr (OtherAddr t s)) = ''other '' @ t"
| "dyn_type (GIP ip) = ''net.IP''"

definition DeepEqual :: "goval \<Rightarrow> goval \<Rightarrow> bool" where
  "DeepEqual x y = (dyn_type x = dyn_type y \<and> x = y)"

subsection \<open>Lemmas: conversions\<close>

lemma AddrFromSlice_cases:
  "AddrFromSlice ip = Some a \<longleftrightarrow>
     (\<exists>p q r t. ip = [p, q, r, t] \<and> a = Addr4 p q r t) \<or> (length ip = 16 \<and> a = Addr6 ip [])"
  by (auto simp: AddrFromSlice_def split: list.splits)

lemma netip2Addr_Inr:
  "netip2Addr ip = Inr a \<longleftrightarrow>
     (\<exists>p q r t. ip = [p, q, r, t] \<and> a = Addr4 p q r t) \<or> (length ip = 16 \<and> a = Addr6 ip [])"
  by (auto simp: netip2Addr_def AddrFromSlice_cases [symmetric] split: option.splits)

lemma netip2Addr_4 [simp]: "netip2Addr [p, q, r, t] = Inr (Addr4 p q r t)"
  by (simp add: netip2Addr_Inr)

lemma netip2Addr_Inl: "netip2Addr ip = Inl e \<longleftrightarrow> e = ''invalid IP'' \<and> length ip \<notin> {4, 16}"
proof (cases "AddrFromSlice ip")
  case None
  then have "length ip \<noteq> 16" and "\<not> (\<exists>p q r t. ip = [p, q, r, t])"
    by (auto simp: AddrFromSlice_def split: list.splits)
  then have "length ip \<notin> {4, 16}" by (auto simp: numeral_eq_Suc length_Suc_conv)
  with None show ?thesis by (auto simp: netip2Addr_def)
next
  case (Some a)
  then have "netip2Addr ip = Inr a" by (simp add: netip2Addr_def)
  moreover from Some have "length ip \<in> {4, 16}" by (auto simp: AddrFromSlice_cases)
  ultimately show ?thesis by simp
qed

lemma netip2Addr_valid: "netip2Addr ip = Inr a \<Longrightarrow> Addr_IsValid a"
  by (auto simp: netip2Addr_Inr Addr_IsValid_def)

lemma reporter_addr2NetIP_eq: "reporter_addr2NetIP = addr2NetIP"
  by (simp add: fun_eq_iff reporter_addr2NetIP_def addr2NetIP_def)

lemma addr2NetIP_4 [simp]: "addr2NetIP (Addr4 p q r t) = Inr [p, q, r, t]"
  by (simp add: addr2NetIP_def Addr_IsValid_def)

lemma addr2NetIP_zero [simp]: "addr2NetIP AddrZero = Inl ''invalid ip''"
  by (simp add: addr2NetIP_def Addr_IsValid_def)

lemma DeepEqual_type: "DeepEqual x y \<Longrightarrow> dyn_type x = dyn_type y"
  by (simp add: DeepEqual_def)

lemma DeepEqual_addr_ip [simp]: "\<not> DeepEqual (GAddr a) (GIP ip)"
  by (simp add: DeepEqual_def)

subsection \<open>The contract of a pair of conversions\<close>

locale addr_codec =
  fixes from_ip :: "'ip \<Rightarrow> string + 'addr"
    and to_ip :: "'addr \<Rightarrow> string + 'ip"
    and good :: "'addr \<Rightarrow> bool"
  assumes to_from: "from_ip ip = Inr a \<Longrightarrow> to_ip a = Inr ip"
    and from_good: "from_ip ip = Inr a \<Longrightarrow> good a"
    and good_to: "good a \<Longrightarrow> \<exists>ip. to_ip a = Inr ip \<and> from_ip ip = Inr a"
begin

lemma from_inj: "from_ip ip = Inr a \<Longrightarrow> from_ip jp = Inr a \<Longrightarrow> ip = jp"
  by (metis to_from sum.inject(2))

lemma to_inj: "good a \<Longrightarrow> good b \<Longrightarrow> to_ip a = to_ip b \<Longrightarrow> a = b"
  by (metis good_to sum.inject(2))

lemma list_to_from: "mapE from_ip ips = Inr as \<Longrightarrow> mapE to_ip as = Inr ips"
proof (induction ips arbitrary: as)
  case (Cons ip ips)
  then show ?case by (auto split: sum.splits dest: to_from)
qed auto

lemma list_from_good: "mapE from_ip ips = Inr as \<Longrightarrow> list_all good as"
proof (induction ips arbitrary: as)
  case (Cons ip ips)
  then show ?case by (auto split: sum.splits dest: from_good)
qed auto

end

definition Addr_codable :: "Addr \<Rightarrow> bool" where
  "Addr_codable a = (Addr_IsValid a \<and> Addr_wf a \<and> Addr_zoneless a)"

interpretation codec: addr_codec netip2Addr addr2NetIP Addr_codable
proof unfold_locales
  fix ip a
  assume "netip2Addr ip = Inr a"
  then show "addr2NetIP a = Inr ip" and "Addr_codable a"
    by (auto simp: netip2Addr_Inr addr2NetIP_def Addr_IsValid_def Addr_codable_def Addr_wf_def
        Addr_zoneless_def)
next
  fix a
  assume "Addr_codable a"
  then show "\<exists>ip. addr2NetIP a = Inr ip \<and> netip2Addr ip = Inr a"
    by (cases a) (auto simp: netip2Addr_Inr addr2NetIP_def Addr_IsValid_def Addr_codable_def
        Addr_wf_def Addr_zoneless_def)
qed

subsection \<open>Lemmas: printing and parsing an IPv4 address\<close>

lemma digit_char [simp]:
  "n < 10 \<Longrightarrow> is_digit (char_of (48 + n)) \<and> digit_val (char_of (48 + n)) = n"
  by (simp add: is_digit_def digit_val_def)

lemma digit_char_mod [simp]:
  "is_digit (char_of (48 + n mod 10))" "digit_val (char_of (48 + n mod 10)) = n mod 10"
  using digit_char [of "n mod 10"] by simp_all

lemma dot_not_digit [simp]: "\<not> is_digit CHR ''.''"
  by (simp add: is_digit_def)

lemma dec_digits: "c \<in> set (dec n) \<Longrightarrow> is_digit c"
proof (induction n rule: dec.induct)
  case (1 n)
  then show ?case by (cases "n < 10") (auto simp: dec.simps [of n])
qed

lemma dec_nonempty [simp]: "dec n \<noteq> []"
  by (subst dec.simps) simp

lemma parse_digit:
  "n < 10 \<Longrightarrow> \<not> (dl = 1 \<and> v = 0) \<Longrightarrow> v * 10 + n = v' \<Longrightarrow> v' \<le> 255 \<Longrightarrow>
   parseIPv4Fields (char_of (48 + n) # s) v dl fs = parseIPv4Fields s v' (Suc dl) fs"
  by auto

lemma parse_octet:
  assumes "n < 256"
  shows "parseIPv4Fields (dec n @ s) 0 0 fs = parseIPv4Fields s n (length (dec n)) fs"
proof -
  consider "n < 10" | "10 \<le> n" "n < 100" | "100 \<le> n" "n < 1000"
    using assms by linarith
  then show ?thesis
  proof cases
    case 1
    have "parseIPv4Fields (char_of (48 + n) # s) 0 0 fs = parseIPv4Fields s n (Suc 0) fs"
      by (rule parse_digit) (use 1 in simp_all)
    then show ?thesis
      by (simp only: dec_1 [OF 1] append.simps list.size add_0 add_Suc_right add_0_right)
  next
    case 2
    have "parseIPv4Fields (char_of (48 + n div 10) # char_of (48 + n mod 10) # s) 0 0 fs
        = parseIPv4Fields (char_of (48 + n mod 10) # s) (n div 10) (Suc 0) fs"
      by (rule parse_digit) (use 2 in simp_all)
    also have "\<dots> = parseIPv4Fields s n (Suc (Suc 0)) fs"
      by (rule parse_digit) (use 2 in simp_all)
    finally show ?thesis
      by (simp only: dec_2 [OF 2] append.simps list.size add_0 add_Suc_right add_0_right)
  next
    case 3
    have "n div 100 = n div 10 div 10" by (simp add: div_mult2_eq [symmetric])
    then have e: "n div 100 * 10 + n div 10 mod 10 = n div 10"
      by (simp only: div_mult_mod_eq)
    have "parseIPv4Fields (char_of (48 + n div 100) # char_of (48 + n div 10 mod 10)
            # char_of (48 + n mod 10) # s) 0 0 fs
        = parseIPv4Fields (char_of (48 + n div 10 mod 10) # char_of (48 + n mod 10) # s)
            (n div 100) (Suc 0) fs"
      by (rule parse_digit) (use 3 in simp_all)
    also have "\<dots> = parseIPv4Fields (char_of (48 + n mod 10) # s) (n div 10) (Suc (Suc 0)) fs"
      by (rule parse_digit) (use assms 3 e in simp_all)
    also have "\<dots> = parseIPv4Fields s n (Suc (Suc (Suc 0))) fs"
      by (rule parse_digit) (use assms 3 in simp_all)
    finally show ?thesis
      by (simp only: dec_3 [OF 3] append.simps list.size add_0 add_Suc_right add_0_right)
  qed
qed

lemma parse_dot:
  "parseIPv4Fields (CHR ''.'' # s) v dl fs =
     (if dl = 0 \<or> s = [] \<or> length fs = 3 then None
      else parseIPv4Fields s 0 0 (fs @ [of_nat v]))"
  by simp

lemma first_sep_digits: "list_all is_digit ds \<Longrightarrow> first_sep (ds @ s) = first_sep s"
  by (induction ds) (auto simp: is_digit_def)

lemma list_all_dec [simp]: "list_all is_digit (dec n)"
  using dec_digits by (auto simp: list_all_iff)

lemma unat_u8 [simp]: "unat (a :: u8) < 256"
  using unsigned_less [of a] by simp

lemma parse_string4: "parseIPv4 (string4 [a, b, c, d]) = Some (Addr4 a b c d)"
proof -
  note [simp del] = parseIPv4Fields.simps(2)
  have "parseIPv4Fields (string4 [a, b, c, d]) 0 0 [] = Some [a, b, c, d]"
    using parse_octet [of "unat d" "[]"] by (simp add: string4_def parse_octet parse_dot)
  then show ?thesis by (simp add: parseIPv4_def)
qed

lemma ParseAddr_string4: "ParseAddr (string4 [a, b, c, d]) = Some (Addr4 a b c d)"
proof -
  have "first_sep (string4 [a, b, c, d]) = Some CHR ''.''"
    by (simp add: string4_def first_sep_digits)
  then show ?thesis by (simp add: ParseAddr_def parse_string4)
qed

lemma ParseAddr_print_roundtrip:
  "ParseAddr (Addr_String (Addr4 a b c d)) = Some (Addr4 a b c d)"
  by (simp add: ParseAddr_string4)

end
