(* ===== verification/IPMaps.thy ===== *)
theory IPMaps
  imports NetAddr
begin

text \<open>
  The well-known destinations of goIGMP.go (\<open>destIP\<close>) and the three translation tables
  between a \<open>destIP\<close>, its \<open>net.IP\<close> and its \<open>netip.Addr\<close> that \<open>makeIPMaps\<close> builds once.
\<close>

type_synonym destIP = int

definition allZerosQuad :: string where "allZerosQuad = ''0.0.0.0''"
definition allHostsQuad :: string where "allHostsQuad = ''224.0.0.1''"
definition allRoutersQuad :: string where "allRoutersQuad = ''224.0.0.2''"
definition IGMPHostsQuad :: string where "IGMPHostsQuad = ''224.0.0.22''"

definition allZerosHosts :: destIP where "allZerosHosts = 0"
definition allHosts :: destIP where "allHosts = 1"
definition allRouters :: destIP where "allRouters = 2"
definition IGMPHosts :: destIP where "IGMPHosts = 22"
definition QueryHost :: destIP where "QueryHost = 666"

lemmas dest_defs = allZerosHosts_def allHosts_def allRouters_def IGMPHosts_def QueryHost_def
lemmas quad_defs = allZerosQuad_def allHostsQuad_def allRoutersQuad_def IGMPHostsQuad_def

definition makeIPMaps ::
    "fatal + ((destIP \<rightharpoonup> net_ip) \<times> (destIP \<rightharpoonup> Addr) \<times> (Addr \<rightharpoonup> destIP))" where
  "makeIPMaps =
     (let mapIPtoNetIP = [allZerosHosts \<mapsto> IP_To4 (net_ParseIP allZerosQuad),
                          allHosts \<mapsto> IP_To4 (net_ParseIP allHostsQuad),
                          allRouters \<mapsto> IP_To4 (net_ParseIP allRoutersQuad),
                          IGMPHosts \<mapsto> IP_To4 (net_ParseIP IGMPHostsQuad)] in
      case netip2Addr (get0 [] mapIPtoNetIP allZerosHosts) of
        Inl e \<Rightarrow> Inl (LogFatal ''makeIPMaps() netip2Addr allZerosHosts err:'')
      | Inr az \<Rightarrow>
      case netip2Addr (get0 [] mapIPtoNetIP allHosts) of
        Inl e \<Rightarrow> Inl (LogFatal ''makeIPMaps() netip2Addr allHosts err:'')
      | Inr ah \<Rightarrow>
      case netip2Addr (get0 [] mapIPtoNetIP allRouters) of
        Inl e \<Rightarrow> Inl (LogFatal ''makeIPMaps() netip2Addr allRouters err:'')
      | Inr ar \<Rightarrow>
      case netip2Addr (get0 [] mapIPtoNetIP IGMPHosts) of
        Inl e \<Rightarrow> Inl (LogFatal ''makeIPMaps() netip2Addr IGMPHosts err:'')
      | Inr ih \<Rightarrow>
          Inr (mapIPtoNetIP,
               [allZerosHosts \<mapsto> az, allHosts \<mapsto> ah, allRouters \<mapsto> ar, IGMPHosts \<mapsto> ih],
               [az \<mapsto> allZerosHosts, ah \<mapsto> allHosts, ar \<mapsto> allRouters, ih \<mapsto> IGMPHosts]))"

text \<open>The multicast groups every receiving side joins (\<open>r.multicastGroups\<close>).\<close>

definition the_multicastGroups :: "destIP list" where
  "the_multicastGroups = [allHosts, allRouters, IGMPHosts]"

subsection \<open>Lemmas\<close>

lemma dest_neq [simp]:
  "allHosts \<noteq> allZerosHosts" "allRouters \<noteq> allZerosHosts" "IGMPHosts \<noteq> allZerosHosts"
  "allHosts \<noteq> allRouters" "allHosts \<noteq> IGMPHosts" "allRouters \<noteq> IGMPHosts"
  "allZerosHosts \<noteq> allHosts" "allZerosHosts \<noteq> allRouters" "allZerosHosts \<noteq> IGMPHosts"
  "allRouters \<noteq> allHosts" "IGMPHosts \<noteq> allHosts" "IGMPHosts \<noteq> allRouters"
  "QueryHost \<noteq> allZerosHosts" "QueryHost \<noteq> allHosts" "QueryHost \<noteq> allRouters" "QueryHost \<noteq> IGMPHosts"
  "allZerosHosts \<noteq> QueryHost" "allHosts \<noteq> QueryHost" "allRouters \<noteq> QueryHost" "IGMPHosts \<noteq> QueryHost"
  by (simp_all add: dest_defs)

lemma parse_quads:
  "IP_To4 (net_ParseIP allZerosQuad) = [0, 0, 0, 0]"
  "IP_To4 (net_ParseIP allHostsQuad) = [224, 0, 0, 1]"
  "IP_To4 (net_ParseIP allRoutersQuad) = [224, 0, 0, 2]"
  "IP_To4 (net_ParseIP IGMPHostsQuad) = [224, 0, 0, 22]"
  by (code_simp)+

lemma makeIPMaps_eq:
  "makeIPMaps = Inr
     ([allZerosHosts \<mapsto> [0, 0, 0, 0], allHosts \<mapsto> [224, 0, 0, 1],
       allRouters \<mapsto> [224, 0, 0, 2], IGMPHosts \<mapsto> [224, 0, 0, 22]],
      [allZerosHosts \<mapsto> Addr4 0 0 0 0, allHosts \<mapsto> Addr4 224 0 0 1,
       allRouters \<mapsto> Addr4 224 0 0 2, IGMPHosts \<mapsto> Addr4 224 0 0 22],
      [Addr4 0 0 0 0 \<mapsto> allZerosHosts, Addr4 224 0 0 1 \<mapsto> allHosts,
       Addr4 224 0 0 2 \<mapsto> allRouters, Addr4 224 0 0 22 \<mapsto> IGMPHosts])"
  by (simp add: makeIPMaps_def parse_quads)

text \<open>
  \<open>makeIPMaps\<close> never ends the process, and the three tables it returns agree: they know
  the same four destinations, the \<open>netip.Addr\<close> of a destination is the conversion of its
  \<open>net.IP\<close>, and looking the \<open>netip.Addr\<close> up again gives the destination back.
\<close>
theorem makeIPMaps_agree:
  "\<exists>toIP toAddr toDest. makeIPMaps = Inr (toIP, toAddr, toDest) \<and>
     dom toIP = {allZerosHosts, allHosts, allRouters, IGMPHosts} \<and> dom toAddr = dom toIP \<and>
     ran toAddr = dom toDest \<and>
     (\<forall>d ip. toIP d = Some ip \<longleftrightarrow> (\<exists>a. toAddr d = Some a \<and> netip2Addr ip = Inr a)) \<and>
     (\<forall>d a. toAddr d = Some a \<longleftrightarrow> toDest a = Some d)"
proof (intro exI conjI allI, rule makeIPMaps_eq)
qed (auto simp: netip2Addr_Inr)

end
