(* ===== verification/Channel.thy ===== *)
theory Channel
  imports Prelude
begin

text \<open>
  Go channels, as the reporter and its clients use them: \<open>make(chan T, n)\<close>, the
  non-blocking send of a \<open>select\<close> with \<open>default\<close>, and the blocking receive of a
  \<open>select\<close> over a channel and \<open>ctx.Done()\<close>.

  \<open>chQueue\<close> holds the values sent and not yet received, in the order they were sent;
  \<open>chWaiting\<close> counts the goroutines blocked in a receive. A send hands its value to a
  blocked receiver if there is one and uses the buffer otherwise, so there is room as long
  as fewer than \<open>chCap + chWaiting\<close> values are outstanding; the first \<open>chWaiting\<close> of them
  belong to the blocked receivers. An unbuffered channel is the case \<open>chCap = 0\<close>. A nil
  channel is \<open>None\<close>: a send or receive on it blocks for ever.
\<close>

record 'a chan =
  chCap :: nat
  chQueue :: "'a list"
  chWaiting :: nat

text \<open>
  \<open>make(chan T, n)\<close> panics for a negative size and for one above \<open>most\<close>, the number of elements
  of \<open>T\<close> for which the runtime can allocate a buffer.
\<close>

definition makechan :: "nat \<Rightarrow> int \<Rightarrow> fatal + 'a chan" where
  "makechan most n =
     (if n < 0 \<or> int most < n then Inl (Panic ''makechan: size out of range'')
      else Inr \<lparr>chCap = nat n, chQueue = [], chWaiting = 0\<rparr>)"

definition chan_ok :: "'a chan \<Rightarrow> bool" where
  "chan_ok c = (length (chQueue c) \<le> chCap c + chWaiting c)"

definition chan_room :: "'a chan \<Rightarrow> nat" where
  "chan_room c = chCap c + chWaiting c - length (chQueue c)"

text \<open>\<open>select { case ch <- x: ... default: ... }\<close>\<close>

definition try_send :: "'a \<Rightarrow> 'a chan \<Rightarrow> bool \<times> 'a chan" where
  "try_send x c =
     (if length (chQueue c) < chCap c + chWaiting c
      then (True, c\<lparr>chQueue := chQueue c @ [x]\<rparr>) else (False, c))"

definition try_send_ref :: "'a \<Rightarrow> 'a chan option \<Rightarrow> bool \<times> 'a chan option" where
  "try_send_ref x r =
     (case r of None \<Rightarrow> (False, None)
      | Some c \<Rightarrow> (let (sent, c') = try_send x c in (sent, Some c')))"

text \<open>A receive that finds a buffered value no blocked receiver is owed.\<close>

definition recv_now :: "'a chan \<Rightarrow> ('a \<times> 'a chan) option" where
  "recv_now c =
     (if chWaiting c < length (chQueue c)
      then Some (chQueue c ! chWaiting c,
                 c\<lparr>chQueue := take (chWaiting c) (chQueue c) @ drop (Suc (chWaiting c)) (chQueue c)\<rparr>)
      else None)"

text \<open>Block in a receive; wake up with a value; give the receive up for another case.\<close>

definition park :: "'a chan \<Rightarrow> 'a chan option" where
  "park c = (if chWaiting c < length (chQueue c) then None
             else Some (c\<lparr>chWaiting := Suc (chWaiting c)\<rparr>))"

definition recv_parked :: "'a chan \<Rightarrow> ('a \<times> 'a chan) option" where
  "recv_parked c =
     (case chQueue c of [] \<Rightarrow> None
      | x # q \<Rightarrow> if chWaiting c = 0 then None
                 else Some (x, c\<lparr>chQueue := q, chWaiting := chWaiting c - 1\<rparr>))"

definition unpark :: "'a chan \<Rightarrow> 'a chan option" where
  "unpark c = (if length (chQueue c) < chWaiting c
               then Some (c\<lparr>chWaiting := chWaiting c - 1\<rparr>) else None)"

primrec offer_all :: "('a \<Rightarrow> 'c \<Rightarrow> bool \<times> 'c) \<Rightarrow> 'a list \<Rightarrow> 'c \<Rightarrow> bool list \<times> 'c" where
  "offer_all send [] c = ([], c)"
| "offer_all send (x # xs) c =
     (let (b, c') = send x c; (bs, c'') = offer_all send xs c' in (b # bs, c''))"

subsection \<open>The contract of a bounded, lossy notification channel\<close>

locale lossy_queue =
  fixes send :: "'a \<Rightarrow> 'c \<Rightarrow> bool \<times> 'c"
    and items :: "'c \<Rightarrow> 'a list"
    and room :: "'c \<Rightarrow> nat"
    and ok :: "'c \<Rightarrow> bool"
  assumes send_full: "ok c \<Longrightarrow> room c = 0 \<Longrightarrow> send x c = (False, c)"
    and send_flag: "ok c \<Longrightarrow> 0 < room c \<Longrightarrow> fst (send x c)"
    and send_items: "ok c \<Longrightarrow> 0 < room c \<Longrightarrow> items (snd (send x c)) = items c @ [x]"
    and send_room: "ok c \<Longrightarrow> 0 < room c \<Longrightarrow> room (snd (send x c)) = room c - 1"
    and send_ok: "ok c \<Longrightarrow> ok (snd (send x c))"
begin

lemma send_prefix: "ok c \<Longrightarrow> \<exists>ys. items (snd (send x c)) = items c @ ys"
  by (cases "room c") (auto simp: send_full send_items)

lemma offer_all_spec:
  "ok c \<Longrightarrow>
     fst (offer_all send xs c) = replicate (min (room c) (length xs)) True
                                 @ replicate (length xs - room c) False \<and>
     items (snd (offer_all send xs c)) = items c @ take (room c) xs \<and>
     room (snd (offer_all send xs c)) = room c - length xs \<and>
     ok (snd (offer_all send xs c))"
proof (induction xs arbitrary: c)
  case (Cons x xs)
  obtain b c' where s: "send x c = (b, c')" by (cases "send x c")
  show ?case
  proof (cases "room c")
    case 0
    with Cons.prems s have "b = False" "c' = c" by (auto simp: send_full)
    with 0 s Cons.prems Cons.IH [of c] show ?thesis by (auto simp: Let_def split: prod.splits)
  next
    case (Suc n)
    with Cons.prems s send_flag [of c x] send_items [of c x] send_room [of c x] send_ok [of c x]
    have "b" "items c' = items c @ [x]" "room c' = n" "ok c'" by auto
    with Suc s Cons.IH [of c'] show ?thesis by (auto simp: Let_def split: prod.splits)
  qed
qed simp

lemma offer_all_lossless:
  "ok c \<Longrightarrow> length xs \<le> room c \<Longrightarrow> items (snd (offer_all send xs c)) = items c @ xs"
  using offer_all_spec [of c xs] by simp

end

interpretation notify: lossy_queue try_send chQueue chan_room chan_ok
  by unfold_locales (auto simp: try_send_def chan_room_def chan_ok_def)

subsection \<open>Every channel operation keeps the channel's invariant\<close>

lemma makechan_ok: "makechan most n = Inr c \<Longrightarrow> chan_ok c"
  by (auto simp: makechan_def chan_ok_def split: if_splits)

lemma recv_now_ok: "chan_ok c \<Longrightarrow> recv_now c = Some (x, c') \<Longrightarrow> chan_ok c'"
  by (auto simp: recv_now_def chan_ok_def split: if_splits)

lemma park_ok: "chan_ok c \<Longrightarrow> park c = Some c' \<Longrightarrow> chan_ok c'"
  by (auto simp: park_def chan_ok_def split: if_splits)

lemma recv_parked_ok: "chan_ok c \<Longrightarrow> recv_parked c = Some (x, c') \<Longrightarrow> chan_ok c'"
  by (auto simp: recv_parked_def chan_ok_def split: list.splits if_splits)

lemma unpark_ok: "chan_ok c \<Longrightarrow> unpark c = Some c' \<Longrightarrow> chan_ok c'"
  by (auto simp: unpark_def chan_ok_def split: if_splits)

lemmas chan_ok_intros = makechan_ok notify.send_ok recv_now_ok park_ok recv_parked_ok unpark_ok

text \<open>Receiving from an uncontended channel takes the oldest value.\<close>

lemma recv_now_fifo:
  "chWaiting c = 0 \<Longrightarrow> recv_now c = Some (x, c') \<longleftrightarrow>
     (\<exists>q. chQueue c = x # q \<and> c' = c\<lparr>chQueue := q\<rparr>)"
  by (cases "chQueue c") (auto simp: recv_now_def)

lemma recv_parked_fifo:
  "recv_parked c = Some (x, c') \<longleftrightarrow>
     (\<exists>q. chQueue c = x # q \<and> 0 < chWaiting c \<and> c' = c\<lparr>chQueue := q, chWaiting := chWaiting c - 1\<rparr>)"
  by (auto simp: recv_parked_def split: list.splits)

text \<open>A goroutine is never stuck between the two ways to wait: it can receive at once or block.\<close>

lemma recv_or_park: "recv_now c = None \<longleftrightarrow> park c \<noteq> None"
  by (simp add: recv_now_def park_def)

end
