(* ===== verification/Types.thy ===== *)
theory Types
  imports IPMaps Channel
begin

text \<open>
  The data of the reporter: its configuration, the values exchanged with the network and
  with the client, the reporter itself (what a method's receiver \<open>r IGMPReporter\<close> carries:
  every method of the hot path has a value receiver, so each goroutine works on its own copy
  of the scalar fields), and the state that all copies share through maps, channels,
  pointers and sockets (\<open>world\<close>).

  What is not under src/ is the record \<open>externals\<close>: the outcome of each system call, the
  interfaces of the host, gopacket's decoder and serializer, the Prometheus registry. Every definition that uses it
  takes it as an argument.
\<close>

subsection \<open>Constants\<close>

type_synonym side = int
type_synonym ttlType = int
type_synonym duration = int

definition OUT :: side where "OUT = 1"
definition IN :: side where "IN = 2"
definition ALTOUT :: side where "ALTOUT = 3"

definition OUTSTR :: string where "OUTSTR = ''outside''"
definition ALTOUTSTR :: string where "ALTOUTSTR = ''altOutside''"
definition INSTR :: string where "INSTR = ''inside''"

definition TTL :: ttlType where "TTL = 1"
definition GRATUITOUS :: ttlType where "GRATUITOUS = 2"
definition QUERY :: ttlType where "QUERY = 3"

definition Second :: duration where "Second = 1000000000"

definition igmpTTLCst :: int where "igmpTTLCst = 1"
definition maxIGMPPacketRecieveBytesCst :: nat where "maxIGMPPacketRecieveBytesCst = 200"

lemma side_neq [simp]:
  "OUT \<noteq> IN" "IN \<noteq> OUT" "OUT \<noteq> ALTOUT" "ALTOUT \<noteq> OUT" "IN \<noteq> ALTOUT" "ALTOUT \<noteq> IN"
  by (simp_all add: OUT_def IN_def ALTOUT_def)

lemma side_nonzero [simp]: "OUT \<noteq> 0" "IN \<noteq> 0" "ALTOUT \<noteq> 0" "0 \<noteq> OUT" "0 \<noteq> IN" "0 \<noteq> ALTOUT"
  by (simp_all add: OUT_def IN_def ALTOUT_def)

definition side_String :: "side \<Rightarrow> string" where
  "side_String s =
     (if s = OUT then OUTSTR else if s = IN then INSTR else if s = ALTOUT then ALTOUTSTR else [])"

subsection \<open>Configuration\<close>

record TestingOptions =
  MulticastLoopback :: bool
  ConnectQueryToReport :: bool
  MembershipReportsReader :: bool

record Config =
  InIntName :: string
  OutIntName :: string
  AltOutIntName :: string
  UnicastDst :: string
  ProxyOutToIn :: bool
  ProxyInToOut :: bool
  UnicastProxyInToOut :: bool
  QueryNotify :: bool
  MembershipReportsFromNetwork :: bool
  MembershipReportsToNetwork :: bool
  UnicastMembershipReports :: bool
  LeaveToNetwork :: bool
  SocketReadDeadLine :: duration
  ChannelSize :: int
  Gratuitous :: duration
  QueryTime :: duration
  DebugLevel :: int
  Testing :: TestingOptions

definition Config_String :: "Config \<Rightarrow> string" where
  "Config_String c =
     ''IGMPReporter Config '' @ [CHR 0x0A] @
     ''InIntName:'' @ InIntName c @ '', '' @ [CHR 0x0A] @
     ''OutIntName:'' @ OutIntName c @ '', '' @ [CHR 0x0A] @
     ''AltOutIntName:'' @ AltOutIntName c @ '', '' @ [CHR 0x0A] @
     ''UnicastDst:'' @ UnicastDst c @ '', '' @ [CHR 0x0A] @
     ''ProxyOutToIn:'' @ show_bool (ProxyOutToIn c) @ '', '' @ [CHR 0x0A] @
     ''ProxyInToOut:'' @ show_bool (ProxyInToOut c) @ '', '' @ [CHR 0x0A] @
     ''UnicastProxyInToOut:'' @ show_bool (UnicastProxyInToOut c) @ '', '' @ [CHR 0x0A] @
     ''QueryNotify:'' @ show_bool (QueryNotify c) @ '', '' @ [CHR 0x0A] @
     ''MembershipReportsFromNetwork:'' @ show_bool (MembershipReportsFromNetwork c) @ '', '' @ [CHR 0x0A] @
     ''MembershipReportsToNetwork:'' @ show_bool (MembershipReportsToNetwork c) @ '', '' @ [CHR 0x0A] @
     ''UnicastMembershipReports:'' @ show_bool (UnicastMembershipReports c) @ '', '' @ [CHR 0x0A] @
     ''Testing.MulticastLoopback:'' @ show_bool (MulticastLoopback (Testing c)) @ '', '' @ [CHR 0x0A] @
     ''Testing.ConnectQueryToReport:'' @ show_bool (ConnectQueryToReport (Testing c)) @ '', '' @ [CHR 0x0A] @
     ''Testing.MembershipReportsReader:'' @ show_bool (MembershipReportsReader (Testing c)) @ '', '' @ [CHR 0x0A] @
     ''ChannelSize:'' @ dec_int (ChannelSize c) @ '','' @ [CHR 0x0A]"

subsection \<open>Values exchanged with the network and the client\<close>

record MembershipItem =
  Sources :: "Addr list"
  Group :: Addr

text \<open>\<open>net.Interface\<close>, \<open>ipv4.ControlMessage\<close>, \<open>ipv4.Header\<close>: the fields the program uses.\<close>

record net_interface =
  if_Index :: int
  if_Name :: string

record ControlMessage =
  cm_Src :: net_ip
  cm_Dst :: net_ip
  cm_IfIndex :: int

record Header =
  h_Version :: nat
  h_Len :: nat
  h_TOS :: nat
  h_TotalLen :: nat
  h_TTL :: nat
  h_Protocol :: nat
  h_Dst :: net_ip
  h_Options :: bytes

text \<open>\<open>layers.IGMPv1or2\<close>, \<open>layers.IGMPv3GroupRecord\<close> and the layer types of gopacket.\<close>

record IGMPv1or2 =
  ig_Type :: u8
  ig_MaxResponseTime :: duration
  ig_GroupAddress :: net_ip
  ig_Version :: nat

record IGMPv3GroupRecord =
  gr_SourceAddresses :: "net_ip list"
  gr_MulticastAddress :: net_ip

datatype gopacket_layer =
    LayerV1or2 IGMPv1or2
  | LayerIGMP "IGMPv3GroupRecord list"
  | LayerOther

definition IGMPMembershipQuery :: u8 where "IGMPMembershipQuery = 0x11"
definition IGMPMembershipReportV1 :: u8 where "IGMPMembershipReportV1 = 0x12"
definition IGMPMembershipReportV2 :: u8 where "IGMPMembershipReportV2 = 0x16"
definition IGMPLeaveGroup :: u8 where "IGMPLeaveGroup = 0x17"
definition IGMPMembershipReportV3 :: u8 where "IGMPMembershipReportV3 = 0x22"

lemmas igmp_type_defs =
  IGMPMembershipQuery_def IGMPMembershipReportV1_def IGMPMembershipReportV2_def
  IGMPLeaveGroup_def IGMPMembershipReportV3_def

text \<open>
  Sockets: a raw connection for sending, with the options set on it; a multicast
  \<open>ipv4.PacketConn\<close> with its control-message flags and the group it joined; the unicast
  \<open>net.PacketConn\<close> with the address it listens on.
\<close>

record RawConn =
  raw_MulticastInterface :: net_interface
  raw_MulticastTTL :: int
  raw_Loopback :: bool

record MConn =
  mc_FlagSrc :: bool
  mc_FlagDst :: bool
  mc_FlagInterface :: bool
  mc_Interface :: net_interface
  mc_Group :: net_ip

subsection \<open>The reporter\<close>

record IGMPReporter =
  conf :: Config
  IntName :: "side \<rightharpoonup> string"
  Interfaces :: "side list"
  AltOutExists :: bool
  OutsideInterfaces :: "side \<rightharpoonup> bool"
  TimerDuration :: "ttlType \<rightharpoonup> duration"
  NetIF :: "side \<rightharpoonup> net_interface"
  NetIFIndex :: "int \<rightharpoonup> side"
  NetIP :: "side \<rightharpoonup> net_ip"
  NetAddr :: "side \<rightharpoonup> Addr"
  multicastGroups :: "destIP list"
  uCon :: "side \<rightharpoonup> string"
  anyCon :: "side \<rightharpoonup> (Addr \<rightharpoonup> string)"
  mConIGMP :: "side \<rightharpoonup> (Addr \<rightharpoonup> MConn)"
  conRaw :: "side \<rightharpoonup> RawConn"
  ContMsg :: "side \<rightharpoonup> ControlMessage"
  mapIPtoNetIP :: "destIP \<rightharpoonup> net_ip"
  mapIPtoNetAddr :: "destIP \<rightharpoonup> Addr"
  mapNetAddrtoIP :: "Addr \<rightharpoonup> destIP"
  querierSourceIP :: Addr
  unicastDst :: Addr
  debugLevel :: int

text \<open>\<open>r.mapIPtoNetAddr[g]\<close> and \<open>r.mConIGMP[interf][addr]\<close> with Go's zero values.\<close>

definition groupAddr :: "IGMPReporter \<Rightarrow> destIP \<Rightarrow> Addr" where
  "groupAddr r g = get0 AddrZero (mapIPtoNetAddr r) g"

abbreviation groupString :: "IGMPReporter \<Rightarrow> destIP \<Rightarrow> string" where
  "groupString r g \<equiv> Addr_String (groupAddr r g)"

definition mConn :: "IGMPReporter \<Rightarrow> side \<Rightarrow> destIP \<Rightarrow> MConn option" where
  "mConn r interf g = (case mConIGMP r interf of None \<Rightarrow> None | Some m \<Rightarrow> m (groupAddr r g))"

subsection \<open>The state the goroutines share\<close>

record datagram =
  dg_via :: side
  dg_hdr :: Header
  dg_payload :: bytes
  dg_cm :: "ControlMessage option"

type_synonym labels = "string list"

text \<open>
  What is registered with the process-wide Prometheus registry: a collector and its options
  (quantiles and their errors in thousandths, as the source writes them: 0.1, 0.05).
\<close>

datatype metric_kind = CounterVec | SummaryVec | Gauge

record metric =
  mt_Kind :: metric_kind
  mt_Subsystem :: string
  mt_Name :: string
  mt_Help :: string
  mt_Objectives :: "(int \<times> int) list"
  mt_MaxAge :: duration
  mt_Labels :: "string list"

record world =
  IntOutName :: "side \<rightharpoonup> side"
  QueryNotifyCh :: "unit chan option"
  MembershipReportFromNetworkCh :: "MembershipItem list chan option"
  MembershipReportToNetworkCh :: "MembershipItem list chan option"
  LeaveToNetworkCh :: "MembershipItem list chan option"
  OutInterfaceSelectorCh :: "side chan option"
  pC :: "labels \<Rightarrow> nat"
  pH :: "labels \<Rightarrow> nat"
  pCrecvIGMP :: "labels \<Rightarrow> nat"
  pHrecvIGMP :: "labels \<Rightarrow> nat"
  pG :: int
  wire :: "datagram list"
  heap :: "nat \<Rightarrow> bytes"
  nextBuf :: nat
  bytePool :: "nat list"
  ioCount :: nat
  registered :: "metric list"

record externals =
  ioFails :: "nat \<Rightarrow> bool"
  InterfaceByName :: "string \<Rightarrow> net_interface option"
  ifaceAddrs :: "net_interface \<Rightarrow> net_addr list option"
  igmpTypeString :: "u8 \<Rightarrow> string"
  decodeIGMP :: "bytes \<Rightarrow> gopacket_layer option"
  serializeV1or2 :: "IGMPv1or2 \<Rightarrow> bytes option"
  ipv4_Version :: nat
  ipv4_HeaderLen :: nat
  registryAccepts :: "metric list \<Rightarrow> metric \<Rightarrow> bool"
  chanMax :: "nat \<Rightarrow> nat"

text \<open>
  \<open>chanMax X k\<close>: the largest buffer the Go runtime makes for a channel whose elements take \<open>k\<close>
  machine words: 0 for \<open>struct{}\<close>, 1 for \<open>side\<close>, 3 for a slice.
\<close>

text \<open>
  What one \<open>ReadFrom(b)\<close> did to \<open>b\<close>: the bytes it copied to its front, whose number it returns,
  and what it left in the rest of \<open>b\<close>, which its documentation does not say and which may depend
  on the old content. The result of one \<open>ReadFrom\<close>: the deadline passed, another error, or a
  packet with its control message and source (\<open>net.Addr\<close>, here with its dynamic type).
\<close>

record packet_read =
  copied :: bytes
  behind :: "bytes \<Rightarrow> nat \<Rightarrow> u8"

datatype read_result =
    ReadTimeout
  | ReadError
  | ReadOk packet_read "ControlMessage option" goval

subsection \<open>Primitive effects\<close>

type_synonym 'a act = "(world, 'a) eff"

text \<open>Prometheus counters, the count of histogram observations, the gauge.\<close>

definition bump :: "labels \<Rightarrow> nat \<Rightarrow> (labels \<Rightarrow> nat) \<Rightarrow> (labels \<Rightarrow> nat)" where
  "bump l n c = c(l := c l + n)"

definition incC :: "labels \<Rightarrow> unit act" where
  "incC l = upd (\<lambda>w. w\<lparr>pC := bump l 1 (pC w)\<rparr>)"

definition addC :: "labels \<Rightarrow> nat \<Rightarrow> unit act" where
  "addC l n = upd (\<lambda>w. w\<lparr>pC := bump l n (pC w)\<rparr>)"

definition observeH :: "labels \<Rightarrow> unit act" where
  "observeH l = upd (\<lambda>w. w\<lparr>pH := bump l 1 (pH w)\<rparr>)"

definition incR :: "labels \<Rightarrow> unit act" where
  "incR l = upd (\<lambda>w. w\<lparr>pCrecvIGMP := bump l 1 (pCrecvIGMP w)\<rparr>)"

definition addR :: "labels \<Rightarrow> nat \<Rightarrow> unit act" where
  "addR l n = upd (\<lambda>w. w\<lparr>pCrecvIGMP := bump l n (pCrecvIGMP w)\<rparr>)"

definition observeR :: "labels \<Rightarrow> unit act" where
  "observeR l = upd (\<lambda>w. w\<lparr>pHrecvIGMP := bump l 1 (pHrecvIGMP w)\<rparr>)"

text \<open>A system call: whether it fails is the environment's choice.\<close>

definition ioCall :: "externals \<Rightarrow> bool act" where
  "ioCall X = (\<lambda>w. (Inr (ioFails X (ioCount w)), w\<lparr>ioCount := Suc (ioCount w)\<rparr>))"

definition ioOrFatal :: "externals \<Rightarrow> string \<Rightarrow> unit act" where
  "ioOrFatal X msg = bind (ioCall X) (\<lambda>err. if err then die (LogFatal msg) else ret ())"

text \<open>
  \<open>bytePool\<close>: \<open>Get\<close> answers any buffer that was put back (the choice \<open>pick\<close> is the
  runtime's) or a new one of 200 zero bytes; \<open>Put\<close> hands a buffer over. Buffers are
  addresses into \<open>heap\<close>, since a pooled buffer keeps its old bytes.
\<close>

definition poolGet :: "nat \<Rightarrow> nat act" where
  "poolGet pick = (\<lambda>w.
     if pick < length (bytePool w)
     then (Inr (bytePool w ! pick),
           w\<lparr>bytePool := take pick (bytePool w) @ drop (Suc pick) (bytePool w)\<rparr>)
     else (Inr (nextBuf w),
           w\<lparr>nextBuf := Suc (nextBuf w),
             heap := (heap w)(nextBuf w := replicate maxIGMPPacketRecieveBytesCst 0)\<rparr>))"

definition poolPut :: "nat \<Rightarrow> unit act" where
  "poolPut b = upd (\<lambda>w. w\<lparr>bytePool := b # bytePool w\<rparr>)"

text \<open>\<open>ReadFrom(*buf)\<close>: a slice keeps its length, so a payload that is too long is cut.\<close>

definition overlay :: "packet_read \<Rightarrow> bytes \<Rightarrow> bytes" where
  "overlay pkt old = take (length old) (copied pkt) @ map (behind pkt old) [length (copied pkt)..<length old]"

definition readInto :: "nat \<Rightarrow> packet_read \<Rightarrow> nat act" where
  "readInto b pkt = (\<lambda>w.
     (Inr (min (length (copied pkt)) (length (heap w b))),
      w\<lparr>heap := (heap w)(b := overlay pkt (heap w b))\<rparr>))"

end
