(* ===== verification/Effects.thy ===== *)
theory Effects
  imports Types
begin

text \<open>
  Lemmas on the primitive effects: which field each one touches, and the ownership discipline
  of the pooled receive buffers (\<open>bufs_ok\<close>): a buffer is in the pool or held by exactly one
  goroutine, never both, and every buffer has the size \<open>maxIGMPPacketRecieveBytesCst\<close>.
\<close>

subsection \<open>Frames of the primitive effects\<close>

lemma keeps_incC [pres]: "(\<And>w x. f (w\<lparr>pC := x\<rparr>) = f w) \<Longrightarrow> keeps f (incC l)"
  by (simp add: incC_def keeps_def)

lemma keeps_addC [pres]: "(\<And>w x. f (w\<lparr>pC := x\<rparr>) = f w) \<Longrightarrow> keeps f (addC l n)"
  by (simp add: addC_def keeps_def)

lemma keeps_observeH [pres]: "(\<And>w x. f (w\<lparr>pH := x\<rparr>) = f w) \<Longrightarrow> keeps f (observeH l)"
  by (simp add: observeH_def keeps_def)

lemma keeps_incR [pres]: "(\<And>w x. f (w\<lparr>pCrecvIGMP := x\<rparr>) = f w) \<Longrightarrow> keeps f (incR l)"
  by (simp add: incR_def keeps_def)

lemma keeps_addR [pres]: "(\<And>w x. f (w\<lparr>pCrecvIGMP := x\<rparr>) = f w) \<Longrightarrow> keeps f (addR l n)"
  by (simp add: addR_def keeps_def)

lemma keeps_observeR [pres]: "(\<And>w x. f (w\<lparr>pHrecvIGMP := x\<rparr>) = f w) \<Longrightarrow> keeps f (observeR l)"
  by (simp add: observeR_def keeps_def)

lemma keeps_ioCall [pres]: "(\<And>w x. f (w\<lparr>ioCount := x\<rparr>) = f w) \<Longrightarrow> keeps f (ioCall X)"
  by (simp add: ioCall_def keeps_def)

lemma keeps_ioOrFatal [pres]: "(\<And>w x. f (w\<lparr>ioCount := x\<rparr>) = f w) \<Longrightarrow> keeps f (ioOrFatal X m)"
  by (auto simp: ioOrFatal_def intro!: pres)

lemma keeps_poolPut [pres]: "(\<And>w x. f (w\<lparr>bytePool := x\<rparr>) = f w) \<Longrightarrow> keeps f (poolPut b)"
  by (simp add: poolPut_def keeps_def)

lemma keeps_poolGet [pres]:
  "(\<And>w x. f (w\<lparr>bytePool := x\<rparr>) = f w) \<Longrightarrow> (\<And>w x y. f (w\<lparr>nextBuf := x, heap := y\<rparr>) = f w) \<Longrightarrow>
   keeps f (poolGet p)"
  by (simp add: poolGet_def keeps_def)

lemma keeps_readInto [pres]: "(\<And>w x. f (w\<lparr>heap := x\<rparr>) = f w) \<Longrightarrow> keeps f (readInto b d)"
  by (simp add: readInto_def keeps_def)

lemma preserves_keeps:
  "keeps f m \<Longrightarrow> (\<And>s t. f t = f s \<Longrightarrow> I s \<Longrightarrow> I t) \<Longrightarrow> preserves I m"
  unfolding preserves_def keeps_def by blast

lemma bind_incC: "bind (incC l) f w = f () (w\<lparr>pC := bump l 1 (pC w)\<rparr>)"
  by (simp add: incC_def)

subsection \<open>Always returning\<close>

definition returns :: "('s, 'a) eff \<Rightarrow> bool" where
  "returns m \<longleftrightarrow> (\<forall>s. \<exists>x t. m s = (Inr x, t))"

lemma returns_bind: "returns m \<Longrightarrow> (\<And>x. returns (f x)) \<Longrightarrow> returns (bind m f)"
  unfolding returns_def by (metis bind_Inr)

lemma returns_simple [simp]:
  "returns (ret x)" "returns (upd f)" "returns (reads h)" "returns (incC l)" "returns (addC l n)"
  "returns (observeH l)" "returns (incR l)" "returns (addR l n)"
  "returns (observeR l)" "returns (poolPut b)" "returns (poolGet p)" "returns (readInto b d)"
  "returns (ioCall X)"
  by (simp_all add: returns_def incC_def addC_def observeH_def incR_def addR_def observeR_def
      poolPut_def poolGet_def readInto_def ioCall_def)

lemma returns_seqs: "list_all returns ms \<Longrightarrow> returns (seqs ms)"
  by (induction ms) (auto intro: returns_bind)

lemma returnsE:
  assumes "returns (m :: ('s, unit) eff)" "m s = (res, t)"
  shows "res = Inr ()"
  using assms unfolding returns_def by (metis (full_types) Pair_inject old.unit.exhaust)

lemma ioOrFatal_apply:
  "ioOrFatal X msg w =
     (if ioFails X (ioCount w) then Inl (LogFatal msg) else Inr (), w\<lparr>ioCount := Suc (ioCount w)\<rparr>)"
  by (simp add: ioOrFatal_def bind_apply ioCall_def)

subsection \<open>Ownership of the receive buffers\<close>

definition bufs_ok :: "nat list \<Rightarrow> world \<Rightarrow> bool" where
  "bufs_ok held w \<longleftrightarrow>
     distinct (held @ bytePool w) \<and>
     (\<forall>b \<in> set (held @ bytePool w). b < nextBuf w) \<and>
     (\<forall>b < nextBuf w. length (heap w b) = maxIGMPPacketRecieveBytesCst)"

definition bufstate :: "world \<Rightarrow> nat list \<times> nat \<times> (nat \<Rightarrow> bytes)" where
  "bufstate w = (bytePool w, nextBuf w, heap w)"

lemma bufs_ok_frame: "bufstate t = bufstate s \<Longrightarrow> bufs_ok H s \<Longrightarrow> bufs_ok H t"
  by (simp add: bufs_ok_def bufstate_def)

lemma preserves_bufs_ok: "keeps bufstate m \<Longrightarrow> preserves (bufs_ok H) m"
  by (rule preserves_keeps, assumption) (rule bufs_ok_frame)

lemma length_overlay [simp]: "length (overlay pkt old) = length old"
  by (auto simp: overlay_def min_def)

lemma overlay_short:
  "length (copied pkt) \<le> length old \<Longrightarrow>
   overlay pkt old = copied pkt @ map (behind pkt old) [length (copied pkt)..<length old]"
  by (simp add: overlay_def)

lemma bufs_ok_release: "bufs_ok (b # H) w \<Longrightarrow> bufs_ok H w"
  by (auto simp: bufs_ok_def)

lemma bufs_ok_length: "bufs_ok (b # H) w \<Longrightarrow> length (heap w b) = maxIGMPPacketRecieveBytesCst"
  by (auto simp: bufs_ok_def)

lemma poolGet_bufs_ok: "triple (bufs_ok H) (poolGet p) (\<lambda>b. bufs_ok (b # H))"
proof (unfold triple_def, intro allI impI)
  fix w b w'
  assume ok: "bufs_ok H w" and get: "poolGet p w = (Inr b, w')"
  show "bufs_ok (b # H) w'"
  proof (cases "p < length (bytePool w)")
    case True
    with get have b: "b = bytePool w ! p"
      and w': "w' = w\<lparr>bytePool := take p (bytePool w) @ drop (Suc p) (bytePool w)\<rparr>"
      by (auto simp: poolGet_def)
    have split: "bytePool w = take p (bytePool w) @ b # drop (Suc p) (bytePool w)"
      using True b by (simp add: id_take_nth_drop)
    from ok have "distinct (H @ take p (bytePool w) @ b # drop (Suc p) (bytePool w))"
      and "\<forall>x \<in> set (H @ take p (bytePool w) @ b # drop (Suc p) (bytePool w)). x < nextBuf w"
      by (simp_all add: bufs_ok_def flip: split)
    with ok w' show ?thesis by (auto simp: bufs_ok_def)
  next
    case False
    with get ok show ?thesis by (auto simp: poolGet_def bufs_ok_def less_Suc_eq)
  qed
qed

lemma poolPut_bufs_ok: "triple (bufs_ok (b # H)) (poolPut b) (\<lambda>_. bufs_ok H)"
  by (auto simp: triple_def poolPut_def bufs_ok_def)

lemma readInto_bufs_ok: "preserves (bufs_ok H) (readInto b d)"
  by (simp add: preserves_def readInto_def bufs_ok_def)

lemma keeps_bufstate_readInto_other: "x \<noteq> b \<Longrightarrow> keeps (\<lambda>w. heap w x) (readInto b d)"
  by (simp add: keeps_def readInto_def)

end
