(* ===== verification/Sending.thy ===== *)
theory Sending
  imports Effects
begin

text \<open>
  Everything that writes a datagram: the IPv4 headers of goIGMP_ipv4Header.go, the proxying
  writers of goIGMP_proxy.go, the membership reports, the leaves and the self query. A write
  goes through the raw connection of a side, which is nil unless the constructor opened it;
  a method call on a nil connection ends the process.
\<close>

subsection \<open>Headers (goIGMP_ipv4Header.go)\<close>

definition dscpCst :: nat where "dscpCst = 0xc0"
definition ttlCst :: nat where "ttlCst = 1"
definition igmpIPProtocolNumber :: nat where "igmpIPProtocolNumber = 2"

definition routerAlert :: bytes where "routerAlert = [0x94, 0x04, 0x0, 0x0]"

definition destinationNetIP :: "IGMPReporter \<Rightarrow> destIP \<Rightarrow> fatal + net_ip" where
  "destinationNetIP r dest =
     (if dest = QueryHost then
        (if \<not> Addr_IsValid (querierSourceIP r) then
           (case reporter_addr2NetIP (unicastDst r) of
              Inl e \<Rightarrow> Inl (LogFatal ''destinationNetIP err'')
            | Inr netIP \<Rightarrow> Inr netIP)
         else
           (case reporter_addr2NetIP (querierSourceIP r) of
              Inl e \<Rightarrow> Inl (LogFatal ''destinationNetIP err'')
            | Inr netIP \<Rightarrow> Inr netIP))
      else Inr (get0 [] (mapIPtoNetIP r) dest))"

definition ipv4HeaderNetIP :: "externals \<Rightarrow> nat \<Rightarrow> net_ip \<Rightarrow> Header" where
  "ipv4HeaderNetIP X payloadLength dest =
     \<lparr>h_Version = ipv4_Version X, h_Len = ipv4_HeaderLen X, h_TOS = dscpCst,
      h_TotalLen = ipv4_HeaderLen X + payloadLength, h_TTL = ttlCst,
      h_Protocol = igmpIPProtocolNumber, h_Dst = dest, h_Options = routerAlert\<rparr>"

definition ipv4Header :: "externals \<Rightarrow> IGMPReporter \<Rightarrow> nat \<Rightarrow> destIP \<Rightarrow> fatal + Header" where
  "ipv4Header X r payloadLength dest =
     (case destinationNetIP r dest of
        Inl e \<Rightarrow> Inl e
      | Inr dst \<Rightarrow> Inr
          \<lparr>h_Version = ipv4_Version X, h_Len = ipv4_HeaderLen X, h_TOS = dscpCst,
           h_TotalLen = ipv4_HeaderLen X + payloadLength, h_TTL = ttlCst,
           h_Protocol = igmpIPProtocolNumber, h_Dst = dst, h_Options = routerAlert\<rparr>)"

subsection \<open>Writing through a raw connection\<close>

definition setWriteDeadline :: "externals \<Rightarrow> IGMPReporter \<Rightarrow> side \<Rightarrow> string \<Rightarrow> unit act" where
  "setWriteDeadline X r interf msg =
     (case conRaw r interf of
        None \<Rightarrow> die (Panic ''nil *ipv4.RawConn'')
      | Some c \<Rightarrow> ioOrFatal X msg)"

definition writeTo ::
    "externals \<Rightarrow> IGMPReporter \<Rightarrow> side \<Rightarrow> Header \<Rightarrow> bytes \<Rightarrow> string \<Rightarrow> unit act" where
  "writeTo X r interf iph p msg =
     (case conRaw r interf of
        None \<Rightarrow> die (Panic ''nil *ipv4.RawConn'')
      | Some c \<Rightarrow> bind (ioOrFatal X msg) (\<lambda>_.
          upd (\<lambda>w. w\<lparr>wire := wire w @
            [\<lparr>dg_via = interf, dg_hdr = iph, dg_payload = p, dg_cm = ContMsg r interf\<rparr>]\<rparr>)))"

subsection \<open>Proxying (goIGMP_proxy.go)\<close>

definition proxy :: "externals \<Rightarrow> IGMPReporter \<Rightarrow> side \<Rightarrow> destIP \<Rightarrow> nat \<Rightarrow> unit act" where
  "proxy X r interf dest buf =
     bind (incC [''proxy'', ''start'', ''count'']) (\<lambda>_.
     bind (reads (\<lambda>w. heap w buf)) (\<lambda>p.
     bind (lift (ipv4Header X r (length p) dest)) (\<lambda>iph.
     seqs [setWriteDeadline X r interf ''proxy SetWriteDeadline err:'',
           writeTo X r interf iph p ''proxy WriteTo errW:'',
           incC [''proxy'', ''WriteTo'', ''count''],
           addC [''proxy'', ''WriteToBytes'', ''count''] (length p),
           observeH [''proxy'', ''start'', ''complete'']])))"

definition proxyUniToMultiv1or2 ::
    "externals \<Rightarrow> IGMPReporter \<Rightarrow> side \<Rightarrow> net_ip \<Rightarrow> nat \<Rightarrow> unit act" where
  "proxyUniToMultiv1or2 X r interf dest buf =
     bind (incC [''proxyUniToMultiv1or2'', ''start'', ''count'']) (\<lambda>_.
     bind (reads (\<lambda>w. heap w buf)) (\<lambda>p.
     seqs [setWriteDeadline X r interf ''proxyUniToMultiv1or2 SetWriteDeadline err:'',
           writeTo X r interf (ipv4HeaderNetIP X (length p) dest) p ''proxyUniToMultiv1or2 WriteTo errW:'',
           incC [''proxyUniToMultiv1or2'', ''WriteTo'', ''count''],
           addC [''proxyUniToMultiv1or2'', ''WriteToBytes'', ''count''] (length p),
           observeH [''proxyUniToMultiv1or2'', ''start'', ''complete'']]))"

subsection \<open>Membership reports (goIGMP_send_membership_report.go)\<close>

definition MaxResponseTimeCst :: duration where "MaxResponseTimeCst = 10 * Second"

definition reportDest :: "IGMPReporter \<Rightarrow> destIP" where
  "reportDest r = (if UnicastMembershipReports (conf r) then QueryHost else IGMPHosts)"

definition sendReport_item :: "externals \<Rightarrow> IGMPReporter \<Rightarrow> side \<Rightarrow> MembershipItem \<Rightarrow> unit act" where
  "sendReport_item X r interf m =
     (case addr2NetIP (Group m) of
        Inl e \<Rightarrow> die (LogFatal ''sendMembershipReport addr2NetIP err:'')
      | Inr g \<Rightarrow>
     (case serializeV1or2 X \<lparr>ig_Type = IGMPMembershipReportV2,
              ig_MaxResponseTime = MaxResponseTimeCst, ig_GroupAddress = g, ig_Version = 2\<rparr> of
        None \<Rightarrow> die (LogFatal ''sendMembershipReport SerializeLayers err:'')
      | Some igmpPayload \<Rightarrow>
     bind (lift (ipv4Header X r (length igmpPayload) (reportDest r))) (\<lambda>iph.
     seqs [setWriteDeadline X r interf ''sendMembershipReport SetWriteDeadline errSWD:'',
           writeTo X r interf iph igmpPayload ''sendMembershipReport WriteTo errW:'',
           incC [''sendMembershipReport'', ''WriteTo'', ''count''],
           addC [''sendMembershipReport'', ''WriteToBytes'', ''count''] (length igmpPayload)])))"

definition sendMembershipReport ::
    "externals \<Rightarrow> IGMPReporter \<Rightarrow> side \<Rightarrow> MembershipItem list \<Rightarrow> unit act" where
  "sendMembershipReport X r interf membershipItems =
     seqs [incC [''sendMembershipReport'', ''start'', ''count''],
           seqs (map (sendReport_item X r interf) membershipItems),
           observeH [''sendMembershipReport'', ''start'', ''complete'']]"

subsection \<open>Leaves (goIGMP_leave.go)\<close>

definition leaveDest :: "IGMPReporter \<Rightarrow> destIP" where
  "leaveDest r = (if UnicastMembershipReports (conf r) then QueryHost else allRouters)"

definition sendLeave_item :: "externals \<Rightarrow> IGMPReporter \<Rightarrow> side \<Rightarrow> MembershipItem \<Rightarrow> unit act" where
  "sendLeave_item X r interf m =
     (case addr2NetIP (Group m) of
        Inl e \<Rightarrow> die (LogFatal ''sendLeave addr2NetIP err:'')
      | Inr g \<Rightarrow>
     (case serializeV1or2 X \<lparr>ig_Type = IGMPLeaveGroup,
              ig_MaxResponseTime = MaxResponseTimeCst, ig_GroupAddress = g, ig_Version = 2\<rparr> of
        None \<Rightarrow> die (LogFatal ''sendLeave SerializeLayers err:'')
      | Some igmpPayload \<Rightarrow>
     bind (lift (ipv4Header X r (length igmpPayload) (leaveDest r))) (\<lambda>iph.
     seqs [setWriteDeadline X r interf ''sendLeave SetWriteDeadline errSWD:'',
           writeTo X r interf iph igmpPayload ''sendLeave WriteTo errW:'',
           incC [''sendLeave'', ''WriteTo'', ''count''],
           addC [''sendLeave'', ''WriteToBytes'', ''count''] (length igmpPayload)])))"

definition sendLeave :: "externals \<Rightarrow> IGMPReporter \<Rightarrow> side \<Rightarrow> MembershipItem list \<Rightarrow> unit act" where
  "sendLeave X r interf membershipItems =
     seqs [incC [''sendLeave'', ''start'', ''count''],
           seqs (map (sendLeave_item X r interf) membershipItems),
           observeH [''sendLeave'', ''start'', ''complete'']]"

subsection \<open>The self query (goIGMP_send_self_query.go)\<close>

definition minQueryDurationCst :: duration where "minQueryDurationCst = 1 * Second"
definition igmpQueryMaxResponseTimeCst :: duration where "igmpQueryMaxResponseTimeCst = 10 * Second"

text \<open>Up to the ticker: \<open>None\<close> is the early return, otherwise the header and the payload.\<close>

definition selfQuery_setup :: "externals \<Rightarrow> IGMPReporter \<Rightarrow> side \<Rightarrow> (Header \<times> bytes) option act" where
  "selfQuery_setup X r interf =
     bind (incC [''selfQuery'', ''start'', ''count'']) (\<lambda>_.
     if get0 0 (TimerDuration r) QUERY < minQueryDurationCst then
       bind (observeH [''selfQuery'', ''start'', ''complete'']) (\<lambda>_. ret None)
     else
       (case serializeV1or2 X \<lparr>ig_Type = IGMPMembershipQuery,
               ig_MaxResponseTime = igmpQueryMaxResponseTimeCst,
               ig_GroupAddress = get0 [] (mapIPtoNetIP r) allZerosHosts, ig_Version = 2\<rparr> of
          None \<Rightarrow> die (LogFatal ''selfQuery SerializeLayers err:'')
        | Some igmpPayload \<Rightarrow>
            bind (lift (ipv4Header X r (length igmpPayload) IGMPHosts)) (\<lambda>iph.
            ret (Some (iph, igmpPayload)))))"

text \<open>One turn of its endless loop, the tick having arrived.\<close>

definition selfQuery_tick ::
    "externals \<Rightarrow> IGMPReporter \<Rightarrow> side \<Rightarrow> Header \<Rightarrow> bytes \<Rightarrow> unit act" where
  "selfQuery_tick X r interf iph igmpPayload =
     seqs [incC [''selfQuery'', ''loops'', ''count''],
           setWriteDeadline X r interf ''selfQuery SetWriteDeadline err:'',
           writeTo X r interf iph igmpPayload ''selfQuery WriteTo err:'',
           incC [''selfQuery'', ''WriteTo'', ''count''],
           addC [''selfQuery'', ''WriteToBytes'', ''count''] (length igmpPayload),
           observeH [''selfQuery'', ''loopStartTime'', ''complete'']]"

subsection \<open>Frames\<close>

lemma keeps_setWriteDeadline [pres]:
  "(\<And>w x. f (w\<lparr>ioCount := x\<rparr>) = f w) \<Longrightarrow> keeps f (setWriteDeadline X r i m)"
  by (auto simp: setWriteDeadline_def intro!: pres)

lemma keeps_writeTo [pres]:
  "(\<And>w x. f (w\<lparr>ioCount := x\<rparr>) = f w) \<Longrightarrow> (\<And>w x. f (w\<lparr>wire := x\<rparr>) = f w) \<Longrightarrow>
   keeps f (writeTo X r i h p m)"
  by (auto simp: writeTo_def intro!: pres)

text \<open>A field that sending never touches.\<close>

definition send_frame :: "(world \<Rightarrow> 'b) \<Rightarrow> bool" where
  "send_frame f \<longleftrightarrow>
     (\<forall>w x. f (w\<lparr>ioCount := x\<rparr>) = f w) \<and> (\<forall>w x. f (w\<lparr>wire := x\<rparr>) = f w) \<and>
     (\<forall>w x. f (w\<lparr>pC := x\<rparr>) = f w) \<and> (\<forall>w x. f (w\<lparr>pH := x\<rparr>) = f w)"

lemma keeps_proxy [pres]: "send_frame f \<Longrightarrow> keeps f (proxy X r i d b)"
  by (auto simp: proxy_def send_frame_def intro!: pres)

lemma keeps_proxyUni [pres]: "send_frame f \<Longrightarrow> keeps f (proxyUniToMultiv1or2 X r i d b)"
  by (auto simp: proxyUniToMultiv1or2_def send_frame_def intro!: pres)

lemma keeps_sendReport_item [pres]: "send_frame f \<Longrightarrow> keeps f (sendReport_item X r i m)"
  by (auto simp: sendReport_item_def send_frame_def intro!: pres)

lemma keeps_sendLeave_item [pres]: "send_frame f \<Longrightarrow> keeps f (sendLeave_item X r i m)"
  by (auto simp: sendLeave_item_def send_frame_def intro!: pres)

lemma keeps_sendMembershipReport [pres]: "send_frame f \<Longrightarrow> keeps f (sendMembershipReport X r i ms)"
  by (auto simp: sendMembershipReport_def list_all_iff intro!: pres) (auto simp: send_frame_def)

lemma keeps_sendLeave [pres]: "send_frame f \<Longrightarrow> keeps f (sendLeave X r i ms)"
  by (auto simp: sendLeave_def list_all_iff intro!: pres) (auto simp: send_frame_def)

subsection \<open>What a write puts on the wire\<close>

definition dgram :: "IGMPReporter \<Rightarrow> side \<Rightarrow> Header \<Rightarrow> bytes \<Rightarrow> datagram" where
  "dgram r i h p = \<lparr>dg_via = i, dg_hdr = h, dg_payload = p, dg_cm = ContMsg r i\<rparr>"

lemma setWriteDeadline_open:
  "conRaw r i = Some c \<Longrightarrow> setWriteDeadline X r i m w =
     (if ioFails X (ioCount w) then Inl (LogFatal m) else Inr (), w\<lparr>ioCount := Suc (ioCount w)\<rparr>)"
  by (simp add: setWriteDeadline_def ioOrFatal_apply)

lemma writeTo_fails:
  "conRaw r i = Some c \<Longrightarrow> ioFails X (ioCount w) \<Longrightarrow>
   writeTo X r i h p m w = (Inl (LogFatal m), w\<lparr>ioCount := Suc (ioCount w)\<rparr>)"
  by (simp add: writeTo_def bind_apply ioOrFatal_apply)

lemma writeTo_works:
  "conRaw r i = Some c \<Longrightarrow> \<not> ioFails X (ioCount w) \<Longrightarrow>
   writeTo X r i h p m w =
     (Inr (), w\<lparr>ioCount := Suc (ioCount w), wire := wire w @ [dgram r i h p]\<rparr>)"
  by (simp add: writeTo_def bind_apply ioOrFatal_apply dgram_def)

lemma emit_cases:
  assumes run: "seqs (setWriteDeadline X r i m1 # writeTo X r i h p m2 # ms) w = (res, w')"
    and tail: "list_all returns ms" "list_all (keeps wire) ms"
  shows "(res = Inr () \<and> conRaw r i \<noteq> None \<and> wire w' = wire w @ [dgram r i h p]) \<or>
         (\<exists>e. res = Inl e \<and> wire w' = wire w)"
proof (cases "conRaw r i")
  case None
  with run show ?thesis by (auto simp: setWriteDeadline_def)
next
  case (Some c)
  define w1 where "w1 = w\<lparr>ioCount := Suc (ioCount w)\<rparr>"
  have w1: "wire w1 = wire w" by (simp add: w1_def)
  note deadline = setWriteDeadline_open [OF Some, of X m1 w, folded w1_def]
  show ?thesis
  proof (cases "ioFails X (ioCount w)")
    case True
    with deadline have "setWriteDeadline X r i m1 w = (Inl (LogFatal m1), w1)" by simp
    from run [unfolded seqs_Inl [where m = "setWriteDeadline X r i m1", OF this]] w1 show ?thesis
      by auto
  next
    case False
    with deadline have "setWriteDeadline X r i m1 w = (Inr (), w1)" by simp
    note run1 = run [unfolded seqs_Inr [where m = "setWriteDeadline X r i m1", OF this]]
    show ?thesis
    proof (cases "ioFails X (ioCount w1)")
      case True
      from run1 [unfolded seqs_Inl [where m = "writeTo X r i h p m2", OF writeTo_fails [OF Some True]]]
      show ?thesis by (auto simp: w1)
    next
      case False
      define w2 where "w2 = w1\<lparr>ioCount := Suc (ioCount w1), wire := wire w1 @ [dgram r i h p]\<rparr>"
      have "writeTo X r i h p m2 w1 = (Inr (), w2)"
        unfolding w2_def by (rule writeTo_works [OF Some False])
      with run1 have run2: "seqs ms w2 = (res, w')" by simp
      have "res = Inr ()" using returns_seqs [OF tail(1)] run2 by (rule returnsE)
      moreover have "wire w' = wire w2" using keeps_seqs [OF tail(2)] run2 by (rule keepsD)
      ultimately show ?thesis using Some w1 by (simp add: w2_def)
    qed
  qed
qed

lemma seqs_metrics:
  "list_all returns [incC a, addC b n, observeH c]" "list_all (keeps wire) [incC a, addC b n, observeH c]"
  "list_all returns [incC a, addC b n]" "list_all (keeps wire) [incC a, addC b n]"
  by (auto intro!: pres)

lemma proxy_cases:
  assumes "proxy X r i dest buf w = (res, w')"
  shows "(\<exists>h. res = Inr () \<and> conRaw r i \<noteq> None \<and> ipv4Header X r (length (heap w buf)) dest = Inr h \<and>
            wire w' = wire w @ [dgram r i h (heap w buf)]) \<or>
         (\<exists>e. res = Inl e \<and> wire w' = wire w)"
proof (cases "ipv4Header X r (length (heap w buf)) dest")
  case (Inl e)
  with assms show ?thesis by (auto simp: proxy_def bind_apply incC_def)
next
  case (Inr h)
  let ?w1 = "w\<lparr>pC := bump [''proxy'', ''start'', ''count''] 1 (pC w)\<rparr>"
  have heap1: "heap ?w1 = heap w" and wire1: "wire ?w1 = wire w" by simp_all
  from assms Inr have "seqs (setWriteDeadline X r i ''proxy SetWriteDeadline err:''
      # writeTo X r i h (heap w buf) ''proxy WriteTo errW:''
      # [incC [''proxy'', ''WriteTo'', ''count''],
         addC [''proxy'', ''WriteToBytes'', ''count''] (length (heap w buf)),
         observeH [''proxy'', ''start'', ''complete'']]) ?w1 = (res, w')"
    by (simp only: proxy_def bind_incC bind_reads heap1 bind_lift sum.case)
  from emit_cases [OF this seqs_metrics(1,2)] Inr show ?thesis by (auto simp: wire1)
qed

lemma proxyUni_cases:
  assumes "proxyUniToMultiv1or2 X r i dest buf w = (res, w')"
  shows "(res = Inr () \<and> conRaw r i \<noteq> None \<and>
            wire w' = wire w @ [dgram r i (ipv4HeaderNetIP X (length (heap w buf)) dest) (heap w buf)]) \<or>
         (\<exists>e. res = Inl e \<and> wire w' = wire w)"
proof -
  let ?w1 = "w\<lparr>pC := bump [''proxyUniToMultiv1or2'', ''start'', ''count''] 1 (pC w)\<rparr>"
  let ?h = "ipv4HeaderNetIP X (length (heap w buf)) dest"
  have heap1: "heap ?w1 = heap w" and wire1: "wire ?w1 = wire w" by simp_all
  from assms have "seqs (setWriteDeadline X r i ''proxyUniToMultiv1or2 SetWriteDeadline err:''
      # writeTo X r i ?h (heap w buf) ''proxyUniToMultiv1or2 WriteTo errW:''
      # [incC [''proxyUniToMultiv1or2'', ''WriteTo'', ''count''],
         addC [''proxyUniToMultiv1or2'', ''WriteToBytes'', ''count''] (length (heap w buf)),
         observeH [''proxyUniToMultiv1or2'', ''start'', ''complete'']]) ?w1 = (res, w')"
    by (simp only: proxyUniToMultiv1or2_def bind_incC bind_reads heap1)
  from emit_cases [OF this seqs_metrics(1,2)] show ?thesis by (auto simp: wire1)
qed

subsection \<open>Batches: one datagram per membership item\<close>

text \<open>
  The contract of a routine that handles one item of a batch: when it returns it has put
  exactly one datagram out, one that \<open>means\<close> the item; when it ends the process it has put
  out none. Both batch senders satisfy it, and the loops over the items inherit its
  consequences.
\<close>

locale item_emitter =
  fixes item :: "'i \<Rightarrow> ('s, unit) eff"
    and out :: "'s \<Rightarrow> 'd list"
    and means :: "'i \<Rightarrow> 'd \<Rightarrow> bool"
  assumes emits: "item i s = (Inr (), t) \<Longrightarrow> \<exists>d. means i d \<and> out t = out s @ [d]"
    and silent: "item i s = (Inl e, t) \<Longrightarrow> out t = out s"
begin

lemma batch_returns:
  "seqs (map item is) s = (Inr (), t) \<Longrightarrow> \<exists>ds. list_all2 means is ds \<and> out t = out s @ ds"
proof (induction "is" arbitrary: s)
  case (Cons i js)
  from Cons.prems obtain u where u: "item i s = (Inr (), u)" "seqs (map item js) u = (Inr (), t)"
    by (auto simp: bind_eq_Inr)
  from emits [OF u(1)] obtain d where "means i d" "out u = out s @ [d]" by blast
  moreover from Cons.IH [OF u(2)] obtain ds where "list_all2 means js ds" "out t = out u @ ds"
    by blast
  ultimately show ?case by (intro exI [of _ "d # ds"]) simp
qed simp

lemma batch_dies:
  "seqs (map item is) s = (Inl e, t) \<Longrightarrow>
     \<exists>k ds. k < length is \<and> list_all2 means (take k is) ds \<and> out t = out s @ ds"
proof (induction "is" arbitrary: s)
  case (Cons i js)
  obtain r u where u: "item i s = (r, u)" by (cases "item i s")
  show ?case
  proof (cases r)
    case (Inl e')
    with u Cons.prems have "t = u" by simp
    with silent u Inl show ?thesis by (intro exI [of _ 0] exI [of _ "[]"]) simp
  next
    case (Inr x)
    with u have i: "item i s = (Inr (), u)" by simp
    with Cons.prems have "seqs (map item js) u = (Inl e, t)" by simp
    from Cons.IH [OF this] obtain k ds
      where k: "k < length js" "list_all2 means (take k js) ds" "out t = out u @ ds" by blast
    from emits [OF i] obtain d where "means i d" "out u = out s @ [d]" by blast
    with k show ?thesis by (intro exI [of _ "Suc k"] exI [of _ "d # ds"]) simp
  qed
qed simp

lemma batch_count: "seqs (map item is) s = (Inr (), t) \<Longrightarrow> length (out t) = length (out s) + length is"
  by (auto dest!: batch_returns list_all2_lengthD)

end

text \<open>What a datagram of a batch says: an IGMPv1or2 message of the given type for the group.\<close>

definition announces ::
    "externals \<Rightarrow> IGMPReporter \<Rightarrow> side \<Rightarrow> u8 \<Rightarrow> destIP \<Rightarrow> MembershipItem \<Rightarrow> datagram \<Rightarrow> bool" where
  "announces X r i typ dest m d =
     (\<exists>g p h. addr2NetIP (Group m) = Inr g \<and>
        serializeV1or2 X \<lparr>ig_Type = typ, ig_MaxResponseTime = MaxResponseTimeCst,
          ig_GroupAddress = g, ig_Version = 2\<rparr> = Some p \<and>
        ipv4Header X r (length p) dest = Inr h \<and> d = dgram r i h p)"

lemma sendReport_item_cases:
  assumes "sendReport_item X r i m w = (res, w')"
  shows "(res = Inr () \<and> (\<exists>d. announces X r i IGMPMembershipReportV2 (reportDest r) m d \<and>
            wire w' = wire w @ [d])) \<or>
         (\<exists>e. res = Inl e \<and> wire w' = wire w)"
proof -
  let ?ig = "\<lambda>g. \<lparr>ig_Type = IGMPMembershipReportV2, ig_MaxResponseTime = MaxResponseTimeCst,
                 ig_GroupAddress = g, ig_Version = 2\<rparr>"
  consider e where "res = Inl e" "wire w' = wire w"
    | g p h where "addr2NetIP (Group m) = Inr g" "serializeV1or2 X (?ig g) = Some p"
        "ipv4Header X r (length p) (reportDest r) = Inr h"
        "seqs [setWriteDeadline X r i ''sendMembershipReport SetWriteDeadline errSWD:'',
           writeTo X r i h p ''sendMembershipReport WriteTo errW:'',
           incC [''sendMembershipReport'', ''WriteTo'', ''count''],
           addC [''sendMembershipReport'', ''WriteToBytes'', ''count''] (length p)] w = (res, w')"
    using assms
    by (auto simp: sendReport_item_def bind_lift simp del: seqs.simps split: sum.splits option.splits)
  then show ?thesis
  proof cases
    case 2
    from emit_cases [OF 2(4) seqs_metrics(3,4)] 2(1-3) show ?thesis
      by (auto simp: announces_def)
  qed simp
qed

lemma sendLeave_item_cases:
  assumes "sendLeave_item X r i m w = (res, w')"
  shows "(res = Inr () \<and> (\<exists>d. announces X r i IGMPLeaveGroup (leaveDest r) m d \<and>
            wire w' = wire w @ [d])) \<or>
         (\<exists>e. res = Inl e \<and> wire w' = wire w)"
proof -
  let ?ig = "\<lambda>g. \<lparr>ig_Type = IGMPLeaveGroup, ig_MaxResponseTime = MaxResponseTimeCst,
                 ig_GroupAddress = g, ig_Version = 2\<rparr>"
  consider e where "res = Inl e" "wire w' = wire w"
    | g p h where "addr2NetIP (Group m) = Inr g" "serializeV1or2 X (?ig g) = Some p"
        "ipv4Header X r (length p) (leaveDest r) = Inr h"
        "seqs [setWriteDeadline X r i ''sendLeave SetWriteDeadline errSWD:'',
           writeTo X r i h p ''sendLeave WriteTo errW:'',
           incC [''sendLeave'', ''WriteTo'', ''count''],
           addC [''sendLeave'', ''WriteToBytes'', ''count''] (length p)] w = (res, w')"
    using assms
    by (auto simp: sendLeave_item_def bind_lift simp del: seqs.simps split: sum.splits option.splits)
  then show ?thesis
  proof cases
    case 2
    from emit_cases [OF 2(4) seqs_metrics(3,4)] 2(1-3) show ?thesis
      by (auto simp: announces_def)
  qed simp
qed

interpretation report: item_emitter "sendReport_item X r i" wire
    "announces X r i IGMPMembershipReportV2 (reportDest r)" for X r i
  by unfold_locales (auto dest!: sendReport_item_cases)

interpretation leave: item_emitter "sendLeave_item X r i" wire
    "announces X r i IGMPLeaveGroup (leaveDest r)" for X r i
  by unfold_locales (auto dest!: sendLeave_item_cases)

lemma batch_run:
  "seqs [incC a, m, observeH c] w =
     (case m (w\<lparr>pC := bump a 1 (pC w)\<rparr>) of
        (Inl e, t) \<Rightarrow> (Inl e, t) | (Inr x, t) \<Rightarrow> (Inr (), t\<lparr>pH := bump c 1 (pH t)\<rparr>))"
  by (simp add: incC_def observeH_def bind_apply split: prod.splits sum.splits)

lemma batch_frame:
  assumes "seqs [incC a, m, observeH c] w = (res, w')"
  obtains t x where "res = Inr ()" "m (w\<lparr>pC := bump a 1 (pC w)\<rparr>) = (Inr x, t)" "wire w' = wire t"
    | e where "res = Inl e" "m (w\<lparr>pC := bump a 1 (pC w)\<rparr>) = (Inl e, w')"
  using assms unfolding batch_run by (auto split: prod.splits sum.splits)

text \<open>
  C14: \<open>sendMembershipReport\<close> answers a batch faithfully. If it returns, the wire has gained
  exactly one datagram for each item, in the order of the items, each an IGMPv2 membership
  report for that item's group, sent through the given side to the querier in unicast mode and to
  224.0.0.22 otherwise; if the process ends inside it,
  only the reports of a proper prefix of the items went out.
\<close>
theorem sendMembershipReport_spec:
  "case sendMembershipReport X r i items w of
     (Inr _, w') \<Rightarrow> \<exists>ds. wire w' = wire w @ ds \<and>
        list_all2 (announces X r i IGMPMembershipReportV2
          (if UnicastMembershipReports (conf r) then QueryHost else IGMPHosts)) items ds
   | (Inl _, w') \<Rightarrow> \<exists>k ds. k < length items \<and> wire w' = wire w @ ds \<and>
        list_all2 (announces X r i IGMPMembershipReportV2
          (if UnicastMembershipReports (conf r) then QueryHost else IGMPHosts)) (take k items) ds"
proof -
  obtain res w' where run: "sendMembershipReport X r i items w = (res, w')"
    by (cases "sendMembershipReport X r i items w")
  from run [unfolded sendMembershipReport_def] show ?thesis
    unfolding reportDest_def [symmetric]
    by (cases rule: batch_frame)
      (fastforce simp: run dest: report.batch_returns report.batch_dies)+
qed

text \<open>
  C15: \<open>sendLeave\<close> answers a batch faithfully, in the same sense, with IGMP leave messages,
  to the querier in unicast mode and to all routers otherwise.
\<close>
theorem sendLeave_spec:
  "case sendLeave X r i items w of
     (Inr _, w') \<Rightarrow> \<exists>ds. wire w' = wire w @ ds \<and>
        list_all2 (announces X r i IGMPLeaveGroup
          (if UnicastMembershipReports (conf r) then QueryHost else allRouters)) items ds
   | (Inl _, w') \<Rightarrow> \<exists>k ds. k < length items \<and> wire w' = wire w @ ds \<and>
        list_all2 (announces X r i IGMPLeaveGroup
          (if UnicastMembershipReports (conf r) then QueryHost else allRouters)) (take k items) ds"
proof -
  obtain res w' where run: "sendLeave X r i items w = (res, w')"
    by (cases "sendLeave X r i items w")
  from run [unfolded sendLeave_def] show ?thesis
    unfolding leaveDest_def [symmetric]
    by (cases rule: batch_frame)
      (fastforce simp: run dest: leave.batch_returns leave.batch_dies)+
qed

end
