(* ===== verification/Sockets.thy ===== *)
theory Sockets
  imports Sending
begin

text \<open>
  goIGMP_socket.go: looking an interface up, and opening the unicast, multicast and raw
  sockets of a side. The operating system's answers come from \<open>externals\<close>; every error ends
  the process. A socket is the record of what was set on it, so the lemmas can say what the
  open sockets are: which group each one joined, on which interface, with which flags.
\<close>

definition protocolIGMP :: string where "protocolIGMP = ''ip4:2''"

subsection \<open>Definitions\<close>

fun first_ip :: "net_addr list \<Rightarrow> net_ip" where
  "first_ip [] = []"
| "first_ip (IPAddrP ip z # _) = ip"
| "first_ip (IPNetP ip m # _) = ip"
| "first_ip (OtherAddr n s # addrs) = first_ip addrs"

definition getInterfaceHandle ::
    "externals \<Rightarrow> IGMPReporter \<Rightarrow> side \<Rightarrow> fatal + (net_interface \<times> net_ip \<times> Addr)" where
  "getInterfaceHandle X r interf =
     (case InterfaceByName X (get0 [] (IntName r) interf) of
        None \<Rightarrow> Inl (LogFatal ''getInterfaceHandle InterfaceByName err:'')
      | Some netIF \<Rightarrow>
     (case ifaceAddrs X netIF of
        None \<Rightarrow> Inl (LogFatal ''getInterfaceHandle Addrs err:'')
      | Some addrs \<Rightarrow>
          let netIP = first_ip addrs in
     (case netip2Addr netIP of
        Inl e \<Rightarrow> Inl (LogFatal ''getInterfaceHandle mapNetAddrtoIP err:'')
      | Inr netaddr \<Rightarrow> Inr (netIF, netIP, netaddr))))"

definition openUnicastPacketConn :: "externals \<Rightarrow> IGMPReporter \<Rightarrow> side \<Rightarrow> string act" where
  "openUnicastPacketConn X r interf =
     (case NetAddr r interf of
        None \<Rightarrow> die (LogFatal ''openUnicastPacketConn interface IP lookup error'')
      | Some localIP \<Rightarrow>
          bind (ioOrFatal X ''openUnicastPacketConn ListenPacket err:'') (\<lambda>_.
          ret (Addr_String localIP)))"

definition openPacketMulticastPacketConn ::
    "externals \<Rightarrow> IGMPReporter \<Rightarrow> side \<Rightarrow> Addr \<Rightarrow> (string \<times> MConn \<times> IGMPReporter) act" where
  "openPacketMulticastPacketConn X r interf destinationIP =
     (if \<not> Addr_IsMulticast destinationIP
      then die (LogFatal ''openPacketMulticastPacketConn !destinationIP.IsMulticast()'')
      else
        bind (ioOrFatal X ''openPacketMulticastPacketConn ListenPacket err:'') (\<lambda>_.
        bind (case NetIF r interf of
                Some netIF \<Rightarrow> ret (netIF, r)
              | None \<Rightarrow> bind (lift (getInterfaceHandle X r interf)) (\<lambda>(netIF, netIP, netaddr).
                  ret (netIF, r\<lparr>NetIF := (NetIF r)(interf \<mapsto> netIF),
                                NetIP := (NetIP r)(interf \<mapsto> netIP),
                                NetAddr := (NetAddr r)(interf \<mapsto> netaddr)\<rparr>))) (\<lambda>(netIF, r').
        bind (seqs [ioOrFatal X ''openPacketMulticastPacketConn SetControlMessage err:'',
                    ioOrFatal X ''openPacketMulticastPacketConn SetControlMessage err:'',
                    ioOrFatal X ''openPacketMulticastPacketConn SetControlMessage err:'']) (\<lambda>_.
        let joinIP = get0 [] (mapIPtoNetIP r') (get0 0 (mapNetAddrtoIP r') destinationIP) in
        bind (ioOrFatal X ''openPacketMulticastPacketConn JoinGroup err:'') (\<lambda>_.
        ret (''0.0.0.0'',
             \<lparr>mc_FlagSrc = True, mc_FlagDst = True, mc_FlagInterface = True,
              mc_Interface = netIF, mc_Group = joinIP\<rparr>, r'))))))"

definition createPacketConns_group ::
    "externals \<Rightarrow> side \<Rightarrow> destIP \<Rightarrow> IGMPReporter \<Rightarrow> IGMPReporter act" where
  "createPacketConns_group X interf g r =
     (if get0 Map.empty (anyCon r) interf (groupAddr r g) = None then
        bind (openPacketMulticastPacketConn X r interf (groupAddr r g)) (\<lambda>(c, p, r').
        ret (r'\<lparr>anyCon := (anyCon r')
                  (interf \<mapsto> (get0 Map.empty (anyCon r') interf)(groupAddr r g \<mapsto> c)),
                mConIGMP := (mConIGMP r')
                  (interf \<mapsto> (get0 Map.empty (mConIGMP r') interf)(groupAddr r g \<mapsto> p))\<rparr>))
      else ret r)"

definition createPacketConns :: "externals \<Rightarrow> IGMPReporter \<Rightarrow> side \<Rightarrow> IGMPReporter act" where
  "createPacketConns X r interf =
     foldM (createPacketConns_group X interf) (multicastGroups r)
       (r\<lparr>anyCon := (if anyCon r interf = None then (anyCon r)(interf \<mapsto> Map.empty) else anyCon r),
          mConIGMP := (if mConIGMP r interf = None
                       then (mConIGMP r)(interf \<mapsto> Map.empty) else mConIGMP r)\<rparr>)"

definition openRawConnection ::
    "externals \<Rightarrow> IGMPReporter \<Rightarrow> side \<Rightarrow> (RawConn \<times> IGMPReporter) act" where
  "openRawConnection X r interf =
     bind (ioOrFatal X ''openRawConnection ListenPacket err:'') (\<lambda>_.
     bind (case NetIF r interf of
             Some netIF \<Rightarrow> ret (netIF, r)
           | None \<Rightarrow> bind (lift (getInterfaceHandle X r interf)) (\<lambda>(netIF, _, _).
               ret (netIF, r\<lparr>NetIF := (NetIF r)(interf \<mapsto> netIF)\<rparr>))) (\<lambda>(netIF, r').
     bind (seqs [ioOrFatal X ''openRawConnection NewRawConn err:'',
                 ioOrFatal X ''SetMulticastInterface err'',
                 ioOrFatal X ''openRawConnection SetMulticastTTL err:'']) (\<lambda>_.
     bind (if MulticastLoopback (Testing (conf r))
           then ioOrFatal X ''openRawConnection SetMulticastLoopback err:'' else ret ()) (\<lambda>_.
     ret (\<lparr>raw_MulticastInterface = netIF, raw_MulticastTTL = igmpTTLCst,
           raw_Loopback = MulticastLoopback (Testing (conf r))\<rparr>, r')))))"

subsection \<open>What is open\<close>

definition joined :: "IGMPReporter \<Rightarrow> side \<Rightarrow> Addr \<Rightarrow> MConn option" where
  "joined r s a = get0 Map.empty (mConIGMP r) s a"

lemma mConn_joined: "mConn r s g = joined r s (groupAddr r g)"
  by (simp add: mConn_def joined_def get0_def split: option.splits)

text \<open>The two maps of sockets are filled together.\<close>

definition in_step :: "IGMPReporter \<Rightarrow> bool" where
  "in_step r \<longleftrightarrow> (\<forall>s a. get0 Map.empty (anyCon r) s a = None \<longleftrightarrow> joined r s a = None)"

text \<open>
  What opening sockets leaves alone: the configuration, the tables, the list of groups, the
  timers, the names, the unicast destination and the raw connections.
\<close>

definition core where
  "core r = (conf r, IntName r, Interfaces r, AltOutExists r, OutsideInterfaces r, TimerDuration r,
     NetIFIndex r, multicastGroups r, uCon r, conRaw r, ContMsg r, mapIPtoNetIP r,
     mapIPtoNetAddr r, mapNetAddrtoIP r, querierSourceIP r, unicastDst r, debugLevel r)"

lemma core_fields:
  assumes "core r' = core r"
  shows "conf r' = conf r" "IntName r' = IntName r" "Interfaces r' = Interfaces r"
    "AltOutExists r' = AltOutExists r" "OutsideInterfaces r' = OutsideInterfaces r"
    "TimerDuration r' = TimerDuration r" "NetIFIndex r' = NetIFIndex r"
    "multicastGroups r' = multicastGroups r" "uCon r' = uCon r" "conRaw r' = conRaw r"
    "ContMsg r' = ContMsg r" "mapIPtoNetIP r' = mapIPtoNetIP r"
    "mapIPtoNetAddr r' = mapIPtoNetAddr r" "mapNetAddrtoIP r' = mapNetAddrtoIP r"
    "querierSourceIP r' = querierSourceIP r" "unicastDst r' = unicastDst r"
  using assms by (simp_all add: core_def)

lemma core_upd [simp]:
  "core (r\<lparr>NetIF := a\<rparr>) = core r" "core (r\<lparr>NetIP := b\<rparr>) = core r"
  "core (r\<lparr>NetAddr := d\<rparr>) = core r" "core (r\<lparr>anyCon := e\<rparr>) = core r"
  "core (r\<lparr>mConIGMP := h\<rparr>) = core r"
  by (simp_all add: core_def)

text \<open>A proper multicast socket for group \<open>a\<close>: all control-message flags, the group joined.\<close>

definition mconn_good :: "Addr \<Rightarrow> MConn \<Rightarrow> bool" where
  "mconn_good a c \<longleftrightarrow>
     mc_FlagSrc c \<and> mc_FlagDst c \<and> mc_FlagInterface c \<and>
     netip2Addr (mc_Group c) = Inr a \<and> Addr_IsMulticast a"

definition mconns_good :: "IGMPReporter \<Rightarrow> bool" where
  "mconns_good r \<longleftrightarrow> (\<forall>s a c. joined r s a = Some c \<longrightarrow> mconn_good a c)"

text \<open>The tables a reporter carries are those of \<open>makeIPMaps\<close>.\<close>

definition tables_ok :: "IGMPReporter \<Rightarrow> bool" where
  "tables_ok r \<longleftrightarrow> makeIPMaps = Inr (mapIPtoNetIP r, mapIPtoNetAddr r, mapNetAddrtoIP r)"

lemma tables_ok_core: "core r' = core r \<Longrightarrow> tables_ok r' = tables_ok r"
  by (simp add: tables_ok_def core_fields [of r' r])

lemma groupAddr_core: "core r' = core r \<Longrightarrow> groupAddr r' g = groupAddr r g"
  by (simp add: groupAddr_def core_fields [of r' r])

lemma tables_maps:
  assumes "tables_ok r"
  shows "mapIPtoNetIP r = [allZerosHosts \<mapsto> [0, 0, 0, 0], allHosts \<mapsto> [224, 0, 0, 1],
           allRouters \<mapsto> [224, 0, 0, 2], IGMPHosts \<mapsto> [224, 0, 0, 22]]"
    and "mapIPtoNetAddr r = [allZerosHosts \<mapsto> Addr4 0 0 0 0, allHosts \<mapsto> Addr4 224 0 0 1,
           allRouters \<mapsto> Addr4 224 0 0 2, IGMPHosts \<mapsto> Addr4 224 0 0 22]"
    and "mapNetAddrtoIP r = [Addr4 0 0 0 0 \<mapsto> allZerosHosts, Addr4 224 0 0 1 \<mapsto> allHosts,
           Addr4 224 0 0 2 \<mapsto> allRouters, Addr4 224 0 0 22 \<mapsto> IGMPHosts]"
  using assms by (simp_all add: tables_ok_def makeIPMaps_eq)

lemma tables_eq:
  assumes "tables_ok r"
  shows "groupAddr r allHosts = Addr4 224 0 0 1" "groupAddr r allRouters = Addr4 224 0 0 2"
    "groupAddr r IGMPHosts = Addr4 224 0 0 22" "groupAddr r QueryHost = AddrZero"
    "get0 [] (mapIPtoNetIP r) allHosts = [224, 0, 0, 1]"
    "get0 [] (mapIPtoNetIP r) allRouters = [224, 0, 0, 2]"
    "get0 [] (mapIPtoNetIP r) IGMPHosts = [224, 0, 0, 22]"
    "get0 [] (mapIPtoNetIP r) allZerosHosts = [0, 0, 0, 0]"
  by (simp_all add: groupAddr_def tables_maps [OF assms])

subsection \<open>Opening sockets\<close>

lemma ioOrFatal_Inr: "ioOrFatal X m w = (Inr x, w') \<Longrightarrow> w' = w\<lparr>ioCount := Suc (ioCount w)\<rparr>"
  by (auto simp: ioOrFatal_apply split: if_splits)

text \<open>Sockets are filed under the destinations of the tables, which are multicast groups.\<close>

lemma join_group:
  assumes "tables_ok r" "a \<in> groupAddr r ` set the_multicastGroups"
  shows "netip2Addr (get0 [] (mapIPtoNetIP r) (get0 0 (mapNetAddrtoIP r) a)) = Inr a"
  using assms(2) by (auto simp: the_multicastGroups_def groupAddr_def tables_maps [OF assms(1)])

lemma openMulticast_spec:
  assumes run: "openPacketMulticastPacketConn X r s a w = (Inr (c, p, r'), w')"
    and ok: "tables_ok r" "a \<in> groupAddr r ` set the_multicastGroups"
  shows "core r' = core r" "anyCon r' = anyCon r" "mConIGMP r' = mConIGMP r" "mconn_good a p"
proof -
  from run have mc: "Addr_IsMulticast a"
    by (auto simp: openPacketMulticastPacketConn_def split: if_splits)
  with run obtain netIF u where
    r': "(netIF, r') \<in> {(i, r) | i. True} \<union> {(i, r\<lparr>NetIF := x, NetIP := y, NetAddr := z\<rparr>) | i x y z. True}"
    and p: "p = \<lparr>mc_FlagSrc = True, mc_FlagDst = True, mc_FlagInterface = True, mc_Interface = netIF,
        mc_Group = get0 [] (mapIPtoNetIP r') (get0 0 (mapNetAddrtoIP r') a)\<rparr>"
    by (auto simp: openPacketMulticastPacketConn_def bind_eq_Inr Let_def split: option.splits
        simp del: seqs.simps)
  from r' show core: "core r' = core r" and "anyCon r' = anyCon r" "mConIGMP r' = mConIGMP r"
    by auto
  with p mc join_group [OF ok] show "mconn_good a p"
    by (simp add: mconn_good_def core_fields [OF core])
qed

definition sock_inv :: "IGMPReporter \<Rightarrow> bool" where
  "sock_inv r \<longleftrightarrow> tables_ok r \<and> in_step r \<and> mconns_good r"

definition opened :: "IGMPReporter \<Rightarrow> (side \<times> Addr) set" where
  "opened r = {(s, a). joined r s a \<noteq> None}"

lemma openedI: "joined r s a = Some c \<Longrightarrow> (s, a) \<in> opened r"
  by (simp add: opened_def)

lemma createPacketConns_group_spec:
  assumes run: "createPacketConns_group X s g r w = (Inr r', w')"
    and inv: "sock_inv r" and g: "g \<in> set the_multicastGroups"
  shows "core r' = core r \<and> sock_inv r' \<and> opened r' = insert (s, groupAddr r g) (opened r)"
proof (cases "get0 Map.empty (anyCon r) s (groupAddr r g)")
  case (Some c)
  with inv have "joined r s (groupAddr r g) \<noteq> None"
    unfolding sock_inv_def in_step_def by (metis option.distinct(1))
  with run inv Some show ?thesis
    by (auto simp: createPacketConns_group_def opened_def)
next
  case None
  with run obtain c p r1 where
    op: "openPacketMulticastPacketConn X r s (groupAddr r g) w = (Inr (c, p, r1), w')"
    and r': "r' = r1\<lparr>anyCon := (anyCon r1)
               (s \<mapsto> (get0 Map.empty (anyCon r1) s)(groupAddr r g \<mapsto> c)),
             mConIGMP := (mConIGMP r1)
               (s \<mapsto> (get0 Map.empty (mConIGMP r1) s)(groupAddr r g \<mapsto> p))\<rparr>"
    by (auto simp: createPacketConns_group_def bind_eq_Inr)
  from inv g have "tables_ok r" "groupAddr r g \<in> groupAddr r ` set the_multicastGroups"
    by (auto simp: sock_inv_def)
  note sp = openMulticast_spec [OF op this]
  have core: "core r' = core r" using r' sp(1) by simp
  have joined': "joined r' t a = (if t = s \<and> a = groupAddr r g then Some p else joined r t a)" for t a
    using r' sp(3) by (simp add: joined_def)
  have any': "get0 Map.empty (anyCon r') t a =
      (if t = s \<and> a = groupAddr r g then Some c else get0 Map.empty (anyCon r) t a)" for t a
    using r' sp(2) by simp
  have "opened r' = insert (s, groupAddr r g) (opened r)"
    by (auto simp: opened_def joined')
  moreover have "sock_inv r'"
    using inv sp(4) tables_ok_core [OF core]
    by (auto simp: sock_inv_def in_step_def mconns_good_def joined' any')
  ultimately show ?thesis using core by simp
qed

lemma foldM_groups_spec:
  "foldM (createPacketConns_group X s) gs r w = (Inr r', w') \<Longrightarrow> sock_inv r \<Longrightarrow>
   set gs \<subseteq> set the_multicastGroups \<Longrightarrow>
   core r' = core r \<and> sock_inv r' \<and> opened r' = {s} \<times> groupAddr r ` set gs \<union> opened r"
proof (induction gs arbitrary: r w)
  case (Cons g gs)
  from Cons.prems(1) obtain r1 w1 where one: "createPacketConns_group X s g r w = (Inr r1, w1)"
    and more: "foldM (createPacketConns_group X s) gs r1 w1 = (Inr r', w')"
    by (auto simp: bind_eq_Inr)
  from Cons.prems(3) have "g \<in> set the_multicastGroups" by simp
  from createPacketConns_group_spec [OF one Cons.prems(2) this]
  have c: "core r1 = core r" and i: "sock_inv r1"
    and o: "opened r1 = insert (s, groupAddr r g) (opened r)" by simp_all
  from Cons.IH [OF more i] Cons.prems(3) c o groupAddr_core [OF c] show ?case by auto
qed simp

lemma createPacketConns_spec:
  assumes run: "createPacketConns X r s w = (Inr r', w')"
    and inv: "sock_inv r" and groups: "multicastGroups r = the_multicastGroups"
  shows "core r' = core r" "sock_inv r'"
    "opened r' = {s} \<times> groupAddr r ` set the_multicastGroups \<union> opened r"
proof -
  let ?r0 = "r\<lparr>anyCon := (if anyCon r s = None then (anyCon r)(s \<mapsto> Map.empty) else anyCon r),
      mConIGMP := (if mConIGMP r s = None then (mConIGMP r)(s \<mapsto> Map.empty) else mConIGMP r)\<rparr>"
  have c: "core ?r0 = core r" by simp
  have j: "joined ?r0 = joined r" by (auto simp: fun_eq_iff joined_def)
  have a: "get0 Map.empty (anyCon ?r0) = get0 Map.empty (anyCon r)"
    by (auto simp: fun_eq_iff)
  have i: "sock_inv ?r0"
    using inv unfolding sock_inv_def in_step_def mconns_good_def j a tables_ok_core [OF c] .
  have o: "opened ?r0 = opened r" unfolding opened_def j ..
  from run have "foldM (createPacketConns_group X s) the_multicastGroups ?r0 w = (Inr r', w')"
    by (simp only: createPacketConns_def groups)
  from foldM_groups_spec [OF this i subset_refl] c o groupAddr_core [OF c]
  show "core r' = core r" "sock_inv r'"
    "opened r' = {s} \<times> groupAddr r ` set the_multicastGroups \<union> opened r" by simp_all
qed

lemma openRaw_spec:
  assumes "openRawConnection X r s w = (Inr (raw, r'), w')"
  shows "core r' = core r" "anyCon r' = anyCon r" "mConIGMP r' = mConIGMP r"
    "raw_MulticastTTL raw = 1" "raw_Loopback raw = MulticastLoopback (Testing (conf r))"
  using assms
  by (auto simp: openRawConnection_def bind_eq_Inr igmpTTLCst_def split: option.splits
      simp del: seqs.simps)

text \<open>
  The interface lookup answers with the first address of the interface that has an IP, in
  the 4-byte or the 16-byte form; an interface without one, or with an address of another
  length, ends the process.
\<close>
theorem getInterfaceHandle_spec:
  "getInterfaceHandle X r s = Inr (nif, ip, a) \<longleftrightarrow>
     InterfaceByName X (get0 [] (IntName r) s) = Some nif \<and>
     (\<exists>addrs. ifaceAddrs X nif = Some addrs \<and> ip = first_ip addrs) \<and>
     length ip \<in> {4, 16} \<and> addr2NetIP a = Inr ip \<and> Addr_codable a"
proof
  assume "getInterfaceHandle X r s = Inr (nif, ip, a)"
  then have "InterfaceByName X (get0 [] (IntName r) s) = Some nif"
    and "\<exists>addrs. ifaceAddrs X nif = Some addrs \<and> ip = first_ip addrs"
    and a: "netip2Addr ip = Inr a"
    by (auto simp: getInterfaceHandle_def Let_def split: option.splits sum.splits)
  moreover from a have "length ip \<in> {4, 16}" by (auto simp: netip2Addr_Inr)
  ultimately show "InterfaceByName X (get0 [] (IntName r) s) = Some nif \<and>
     (\<exists>addrs. ifaceAddrs X nif = Some addrs \<and> ip = first_ip addrs) \<and>
     length ip \<in> {4, 16} \<and> addr2NetIP a = Inr ip \<and> Addr_codable a"
    using codec.to_from codec.from_good by blast
next
  assume *: "InterfaceByName X (get0 [] (IntName r) s) = Some nif \<and>
     (\<exists>addrs. ifaceAddrs X nif = Some addrs \<and> ip = first_ip addrs) \<and>
     length ip \<in> {4, 16} \<and> addr2NetIP a = Inr ip \<and> Addr_codable a"
  then have "netip2Addr ip = Inr a" by (metis codec.good_to sum.inject(2))
  with * show "getInterfaceHandle X r s = Inr (nif, ip, a)"
    by (auto simp: getInterfaceHandle_def Let_def)
qed

end
