(* ===== verification/Metrics.thy ===== *)
theory Metrics
  imports Effects
begin

text \<open>
  The metrics of a reporter (goIGMP.go, the first part of \<open>NewIGMPReporter\<close>): the five collectors
  it registers and the registration itself. \<open>promauto\<close> registers with the process-wide default
  registry and panics if that refuses a collector; whether it does is the argument
  \<open>registryAccepts\<close>, given what has been registered before.
\<close>

subsection \<open>The collectors\<close>

definition quantileError :: int where "quantileError = 50"
definition summaryVecMaxAge :: duration where "summaryVecMaxAge = 5 * 60 * Second"

definition quantiles :: "(int \<times> int) list" where
  "quantiles = [(100, quantileError), (500, quantileError), (900, quantileError), (990, quantileError)]"

definition metric_pC :: metric where
  "metric_pC =
     \<lparr>mt_Kind = CounterVec, mt_Subsystem = ''counters'', mt_Name = ''goIGMP'',
      mt_Help = ''goIGMP counters'', mt_Objectives = [], mt_MaxAge = 0,
      mt_Labels = [''function'', ''variable'', ''type'']\<rparr>"

definition metric_pH :: metric where
  "metric_pH =
     \<lparr>mt_Kind = SummaryVec, mt_Subsystem = ''histrograms'', mt_Name = ''goIGMP'',
      mt_Help = ''goIGMP historgrams'', mt_Objectives = quantiles, mt_MaxAge = summaryVecMaxAge,
      mt_Labels = [''function'', ''variable'', ''type'']\<rparr>"

definition metric_pCrecvIGMP :: metric where
  "metric_pCrecvIGMP =
     \<lparr>mt_Kind = CounterVec, mt_Subsystem = ''counters'', mt_Name = ''recvIGMP'',
      mt_Help = ''recvIGMP counters'', mt_Objectives = [], mt_MaxAge = 0,
      mt_Labels = [''function'', ''interface'', ''group'', ''type'']\<rparr>"

definition metric_pHrecvIGMP :: metric where
  "metric_pHrecvIGMP =
     \<lparr>mt_Kind = SummaryVec, mt_Subsystem = ''histrograms'', mt_Name = ''recvIGMP'',
      mt_Help = ''recvIGMP historgrams'', mt_Objectives = quantiles, mt_MaxAge = summaryVecMaxAge,
      mt_Labels = [''function'', ''interface'', ''group'', ''type'']\<rparr>"

definition metric_pG :: metric where
  "metric_pG =
     \<lparr>mt_Kind = Gauge, mt_Subsystem = ''guage'', mt_Name = ''outInterfaceSelector'',
      mt_Help = ''outInterfaceSelector gauge'', mt_Objectives = [], mt_MaxAge = 0, mt_Labels = []\<rparr>"

lemmas metric_defs =
  metric_pC_def metric_pH_def metric_pCrecvIGMP_def metric_pHrecvIGMP_def metric_pG_def

definition reporter_metrics :: "metric list" where
  "reporter_metrics = [metric_pC, metric_pH, metric_pCrecvIGMP, metric_pHrecvIGMP, metric_pG]"

subsection \<open>Registration\<close>

definition registerMetric :: "externals \<Rightarrow> metric \<Rightarrow> unit act" where
  "registerMetric X m = (\<lambda>w.
     if registryAccepts X (registered w) m
     then (Inr (), w\<lparr>registered := registered w @ [m]\<rparr>)
     else (Inl (Panic ''promauto''), w))"

definition registerMetrics :: "externals \<Rightarrow> unit act" where
  "registerMetrics X =
     seqs [registerMetric X metric_pC, registerMetric X metric_pH,
       registerMetric X metric_pCrecvIGMP, registerMetric X metric_pHrecvIGMP,
       registerMetric X metric_pG]"

text \<open>The registry takes the collectors one after another, up to the first it refuses.\<close>

fun accepted :: "externals \<Rightarrow> metric list \<Rightarrow> metric list \<Rightarrow> metric list" where
  "accepted X old [] = []"
| "accepted X old (m # ms) =
     (if registryAccepts X old m then m # accepted X (old @ [m]) ms else [])"

lemma register_all:
  "seqs (map (registerMetric X) ms) w =
     (if accepted X (registered w) ms = ms then Inr () else Inl (Panic ''promauto''),
      w\<lparr>registered := registered w @ accepted X (registered w) ms\<rparr>)"
  by (induction ms arbitrary: w) (simp_all add: bind_def registerMetric_def)

definition metrics_fit :: "externals \<Rightarrow> world \<Rightarrow> bool" where
  "metrics_fit X w \<longleftrightarrow> accepted X (registered w) reporter_metrics = reporter_metrics"

lemma registerMetrics_apply:
  "registerMetrics X w =
     (if metrics_fit X w then Inr () else Inl (Panic ''promauto''),
      w\<lparr>registered := registered w @ accepted X (registered w) reporter_metrics\<rparr>)"
  using register_all [of X reporter_metrics w]
  by (simp add: registerMetrics_def reporter_metrics_def metrics_fit_def del: seqs.simps)

text \<open>
  The documented behaviour of the default registry that the code depends on: a collector that
  is registered already is refused.
\<close>

definition refuses_registered :: "externals \<Rightarrow> bool" where
  "refuses_registered X \<longleftrightarrow> (\<forall>ms. \<forall>m \<in> set ms. \<not> registryAccepts X ms m)"

lemma registered_misfit:
  assumes "refuses_registered X" "metric_pC \<in> set (registered w)"
  shows "\<not> metrics_fit X w"
  using assms by (auto simp: refuses_registered_def metrics_fit_def reporter_metrics_def)

subsection \<open>Label values\<close>

text \<open>\<open>WithLabelValues\<close> panics unless it is given one value for each label of the collector.\<close>

definition labelled :: "metric \<Rightarrow> labels \<Rightarrow> bool" where
  "labelled m l \<longleftrightarrow> length l = length (mt_Labels m)"

lemma labelled_simps [simp]:
  "labelled metric_pC l \<longleftrightarrow> length l = 3" "labelled metric_pH l \<longleftrightarrow> length l = 3"
  "labelled metric_pCrecvIGMP l \<longleftrightarrow> length l = 4" "labelled metric_pHrecvIGMP l \<longleftrightarrow> length l = 4"
  by (auto simp: labelled_def metric_defs)

definition labels_fit :: "world \<Rightarrow> bool" where
  "labels_fit w \<longleftrightarrow>
     (\<forall>l. (pC w l \<noteq> 0 \<longrightarrow> labelled metric_pC l) \<and> (pH w l \<noteq> 0 \<longrightarrow> labelled metric_pH l) \<and>
          (pCrecvIGMP w l \<noteq> 0 \<longrightarrow> labelled metric_pCrecvIGMP l) \<and>
          (pHrecvIGMP w l \<noteq> 0 \<longrightarrow> labelled metric_pHrecvIGMP l))"

end
