(* ===== verification/Sample.thy ===== *)
theory Sample
  imports Metrics
begin

text \<open>
  A concrete host, configuration and start state on which witnesses evaluate the model: every
  system call works, every interface exists (its index is the length of its name) and has the
  address 10.0.0.1, the decoder and the serializer read and write the eight bytes of an
  IGMPv1/v2 message.
\<close>

definition sample_decode :: "bytes \<Rightarrow> gopacket_layer option" where
  "sample_decode b =
     (case b of
        [] \<Rightarrow> None
      | t # rest \<Rightarrow>
          if length rest < 7 then None
          else if t = IGMPMembershipReportV3 then Some (LayerIGMP [])
          else if t \<in> {IGMPMembershipQuery, IGMPMembershipReportV1, IGMPMembershipReportV2, IGMPLeaveGroup}
          then Some (LayerV1or2 \<lparr>ig_Type = t, ig_MaxResponseTime = 0,
                 ig_GroupAddress = take 4 (drop 3 rest), ig_Version = 2\<rparr>)
          else None)"

definition sample_serialize :: "IGMPv1or2 \<Rightarrow> bytes option" where
  "sample_serialize m = Some ([ig_Type m, 100, 0, 0] @ ig_GroupAddress m)"

text \<open>A registry that refuses a second metric of the same name.\<close>

definition sample_registry :: "metric list \<Rightarrow> metric \<Rightarrow> bool" where
  "sample_registry ms m = (\<forall>x \<in> set ms. (mt_Subsystem x, mt_Name x) \<noteq> (mt_Subsystem m, mt_Name m))"

definition sample_externals :: externals where
  "sample_externals =
     \<lparr>ioFails = (\<lambda>_. False),
      InterfaceByName = (\<lambda>n. Some \<lparr>if_Index = int (length n), if_Name = n\<rparr>),
      ifaceAddrs = (\<lambda>_. Some [IPNetP (net_IPv4 10 0 0 1) [255, 255, 255, 0]]),
      igmpTypeString = (\<lambda>t. ''type''),
      decodeIGMP = sample_decode, serializeV1or2 = sample_serialize,
      ipv4_Version = 4, ipv4_HeaderLen = 20, registryAccepts = sample_registry, chanMax = (\<lambda>_. 1000000)\<rparr>"

definition sample_config :: Config where
  "sample_config =
     \<lparr>InIntName = ''lo'', OutIntName = ''eth0'', AltOutIntName = [], UnicastDst = ''10.99.0.1'',
      ProxyOutToIn = True, ProxyInToOut = False, UnicastProxyInToOut = True, QueryNotify = False,
      MembershipReportsFromNetwork = False, MembershipReportsToNetwork = False,
      UnicastMembershipReports = False, LeaveToNetwork = True,
      SocketReadDeadLine = 10 * Second, ChannelSize = 10, Gratuitous = 600 * Second,
      QueryTime = 5 * Second, DebugLevel = 11,
      Testing = \<lparr>MulticastLoopback = False, ConnectQueryToReport = False,
        MembershipReportsReader = False\<rparr>\<rparr>"

text \<open>The client mode of the README, and the mode with two outside interfaces.\<close>

definition sample_client :: Config where
  "sample_client = sample_config\<lparr>ProxyOutToIn := False, UnicastProxyInToOut := False,
     QueryNotify := True, MembershipReportsFromNetwork := True, MembershipReportsToNetwork := True,
     UnicastMembershipReports := True\<rparr>"

definition sample_alt :: Config where
  "sample_alt = sample_config\<lparr>AltOutIntName := ''gre12''\<rparr>"

definition sample_world :: world where
  "sample_world =
     \<lparr>IntOutName = Map.empty, QueryNotifyCh = None, MembershipReportFromNetworkCh = None,
      MembershipReportToNetworkCh = None, LeaveToNetworkCh = None, OutInterfaceSelectorCh = None,
      pC = (\<lambda>_. 0), pH = (\<lambda>_. 0), pCrecvIGMP = (\<lambda>_. 0), pHrecvIGMP = (\<lambda>_. 0), pG = 0,
      wire = [], heap = (\<lambda>_. []), nextBuf = 0, bytePool = [], ioCount = 0, registered = []\<rparr>"

lemmas sample_defs = sample_externals_def sample_config_def sample_client_def sample_alt_def
  sample_world_def

text \<open>
  What the constructor returns for \<open>sample_config\<close> on this host (lemma \<open>sample_constructed\<close> of
  theory Construct), and the state it leaves.
\<close>

definition sample_ip :: net_ip where "sample_ip = net_IPv4 10 0 0 1"
definition sample_lo :: net_interface where "sample_lo = \<lparr>if_Index = 2, if_Name = ''lo''\<rparr>"
definition sample_eth0 :: net_interface where "sample_eth0 = \<lparr>if_Index = 4, if_Name = ''eth0''\<rparr>"

definition sample_join :: "net_interface \<Rightarrow> net_ip \<Rightarrow> MConn" where
  "sample_join n g = \<lparr>mc_FlagSrc = True, mc_FlagDst = True, mc_FlagInterface = True,
     mc_Interface = n, mc_Group = g\<rparr>"

definition sample_joins :: "net_interface \<Rightarrow> Addr \<rightharpoonup> MConn" where
  "sample_joins n = [Addr4 224 0 0 1 \<mapsto> sample_join n [224, 0, 0, 1],
     Addr4 224 0 0 2 \<mapsto> sample_join n [224, 0, 0, 2],
     Addr4 224 0 0 22 \<mapsto> sample_join n [224, 0, 0, 22]]"

definition sample_listens :: "Addr \<rightharpoonup> string" where
  "sample_listens = [Addr4 224 0 0 1 \<mapsto> ''0.0.0.0'', Addr4 224 0 0 2 \<mapsto> ''0.0.0.0'',
     Addr4 224 0 0 22 \<mapsto> ''0.0.0.0'']"

definition sample_raw :: "net_interface \<Rightarrow> RawConn" where
  "sample_raw n = \<lparr>raw_MulticastInterface = n, raw_MulticastTTL = 1, raw_Loopback = False\<rparr>"

definition sample_cont :: "net_interface \<Rightarrow> ControlMessage" where
  "sample_cont n = \<lparr>cm_Src = [], cm_Dst = [], cm_IfIndex = if_Index n\<rparr>"

definition sample_reporter :: IGMPReporter where
  "sample_reporter =
     \<lparr>conf = sample_config, IntName = [IN \<mapsto> ''lo'', OUT \<mapsto> ''eth0''], Interfaces = [IN, OUT],
      AltOutExists = False, OutsideInterfaces = Map.empty,
      TimerDuration = [GRATUITOUS \<mapsto> 600 * Second, QUERY \<mapsto> 5 * Second],
      NetIF = [IN \<mapsto> sample_lo, OUT \<mapsto> sample_eth0], NetIFIndex = [2 \<mapsto> IN, 4 \<mapsto> OUT],
      NetIP = [IN \<mapsto> sample_ip, OUT \<mapsto> sample_ip],
      NetAddr = [IN \<mapsto> Addr6 sample_ip [], OUT \<mapsto> Addr6 sample_ip []],
      multicastGroups = the_multicastGroups,
      uCon = [IN \<mapsto> ''::ffff:10.0.0.1''],
      anyCon = [OUT \<mapsto> sample_listens], mConIGMP = [OUT \<mapsto> sample_joins sample_eth0],
      conRaw = [OUT \<mapsto> sample_raw sample_eth0, IN \<mapsto> sample_raw sample_lo],
      ContMsg = [IN \<mapsto> sample_cont sample_lo, OUT \<mapsto> sample_cont sample_eth0],
      mapIPtoNetIP = [allZerosHosts \<mapsto> [0, 0, 0, 0], allHosts \<mapsto> [224, 0, 0, 1],
                      allRouters \<mapsto> [224, 0, 0, 2], IGMPHosts \<mapsto> [224, 0, 0, 22]],
      mapIPtoNetAddr = [allZerosHosts \<mapsto> Addr4 0 0 0 0, allHosts \<mapsto> Addr4 224 0 0 1,
                        allRouters \<mapsto> Addr4 224 0 0 2, IGMPHosts \<mapsto> Addr4 224 0 0 22],
      mapNetAddrtoIP = [Addr4 0 0 0 0 \<mapsto> allZerosHosts, Addr4 224 0 0 1 \<mapsto> allHosts,
                        Addr4 224 0 0 2 \<mapsto> allRouters, Addr4 224 0 0 22 \<mapsto> IGMPHosts],
      querierSourceIP = AddrZero, unicastDst = Addr4 10 99 0 1, debugLevel = 11\<rparr>"

text \<open>The same with an alternative outside interface and proxying in both directions.\<close>

definition sample_full :: Config where
  "sample_full = sample_config\<lparr>AltOutIntName := ''gre12'', ProxyInToOut := True\<rparr>"

definition sample_gre12 :: net_interface where
  "sample_gre12 = \<lparr>if_Index = 5, if_Name = ''gre12''\<rparr>"

definition sample_full_reporter :: IGMPReporter where
  "sample_full_reporter = sample_reporter
     \<lparr>conf := sample_full, IntName := [IN \<mapsto> ''lo'', OUT \<mapsto> ''eth0'', ALTOUT \<mapsto> ''gre12''],
      Interfaces := [IN, OUT, ALTOUT], AltOutExists := True,
      OutsideInterfaces := [OUT \<mapsto> True, ALTOUT \<mapsto> True],
      NetIF := [IN \<mapsto> sample_lo, OUT \<mapsto> sample_eth0, ALTOUT \<mapsto> sample_gre12],
      NetIFIndex := [2 \<mapsto> IN, 4 \<mapsto> OUT, 5 \<mapsto> ALTOUT],
      NetIP := [IN \<mapsto> sample_ip, OUT \<mapsto> sample_ip, ALTOUT \<mapsto> sample_ip],
      NetAddr := [IN \<mapsto> Addr6 sample_ip [], OUT \<mapsto> Addr6 sample_ip [], ALTOUT \<mapsto> Addr6 sample_ip []],
      anyCon := [OUT \<mapsto> sample_listens, ALTOUT \<mapsto> sample_listens, IN \<mapsto> sample_listens],
      mConIGMP := [OUT \<mapsto> sample_joins sample_eth0, ALTOUT \<mapsto> sample_joins sample_gre12,
                   IN \<mapsto> sample_joins sample_lo],
      ContMsg := [IN \<mapsto> sample_cont sample_lo, OUT \<mapsto> sample_cont sample_eth0,
                  ALTOUT \<mapsto> sample_cont sample_gre12]\<rparr>"

text \<open>The first one again, with the client told about queries.\<close>

definition sample_watch :: Config where
  "sample_watch = sample_config\<lparr>QueryNotify := True\<rparr>"

definition sample_watch_reporter :: IGMPReporter where
  "sample_watch_reporter = sample_reporter\<lparr>conf := sample_watch\<rparr>"

definition sample_chan :: "'a chan" where
  "sample_chan = \<lparr>chCap = 10, chQueue = [], chWaiting = 0\<rparr>"

definition sample_running :: world where
  "sample_running = sample_world\<lparr>IntOutName := [OUT \<mapsto> IN, IN \<mapsto> OUT],
     QueryNotifyCh := Some sample_chan, MembershipReportFromNetworkCh := Some sample_chan,
     MembershipReportToNetworkCh := Some sample_chan, LeaveToNetworkCh := Some sample_chan,
     ioCount := 24, registered := reporter_metrics\<rparr>"

definition sample_full_running :: world where
  "sample_full_running = sample_running\<lparr>OutInterfaceSelectorCh := Some sample_chan, ioCount := 54\<rparr>"

text \<open>A version 2 report from the outside and one from the inside, and a buffer to read it into.\<close>

definition sample_report :: bytes where
  "sample_report = [0x16, 100, 0, 0, 239, 1, 1, 1]"

definition sample_read :: packet_read where
  "sample_read = \<lparr>copied = sample_report, behind = (\<lambda>_ _. 0xAA)\<rparr>"

definition sample_cm :: "int \<Rightarrow> ControlMessage" where
  "sample_cm i = \<lparr>cm_Src = [10, 0, 0, 7], cm_Dst = [224, 0, 0, 22], cm_IfIndex = i\<rparr>"

definition sample_busy :: "world \<Rightarrow> world" where
  "sample_busy w = w\<lparr>heap := (\<lambda>_. replicate 200 0xAA), nextBuf := 1, bytePool := []\<rparr>"

lemmas sample_socket_defs = sample_join_def sample_joins_def sample_listens_def sample_raw_def
  sample_cont_def sample_lo_def sample_eth0_def sample_gre12_def sample_ip_def

lemmas receiver_defs = sample_reporter_def sample_running_def sample_world_def sample_config_def
  sample_externals_def sample_chan_def

end
