(* ===== verification/Construct.thy ===== *)
theory Construct
  imports Sockets Sample
begin

text \<open>
  \<open>NewIGMPReporter\<close> (goIGMP.go): the reporter and the shared state it starts with, from a
  configuration. The definition follows the constructor's order: the table of output sides,
  the selector channel, the unicast destination, the channels, the address tables, the
  interfaces, and then the sockets each enabled feature needs; before all that it registers its
  metrics. The debug output is not modelled.

  The main lemma, \<open>sockets_of_config\<close>, says which sockets are open afterwards, as a function
  of the configuration alone.
\<close>

subsection \<open>Definitions\<close>

definition has_alt :: "Config \<Rightarrow> bool" where
  "has_alt c = (0 < length (AltOutIntName c))"

definition initReporter ::
    "Config \<Rightarrow> Addr \<Rightarrow> (destIP \<rightharpoonup> net_ip) \<times> (destIP \<rightharpoonup> Addr) \<times> (Addr \<rightharpoonup> destIP) \<Rightarrow> IGMPReporter" where
  "initReporter c ud maps =
     \<lparr>conf = c,
      IntName = (if has_alt c then [IN \<mapsto> InIntName c, OUT \<mapsto> OutIntName c, ALTOUT \<mapsto> AltOutIntName c]
                 else [IN \<mapsto> InIntName c, OUT \<mapsto> OutIntName c]),
      Interfaces = (if has_alt c then [IN, OUT, ALTOUT] else [IN, OUT]),
      AltOutExists = has_alt c,
      OutsideInterfaces = (if has_alt c then [OUT \<mapsto> True, ALTOUT \<mapsto> True] else Map.empty),
      TimerDuration = [GRATUITOUS \<mapsto> Gratuitous c, QUERY \<mapsto> QueryTime c],
      NetIF = Map.empty, NetIFIndex = Map.empty, NetIP = Map.empty, NetAddr = Map.empty,
      multicastGroups = the_multicastGroups,
      uCon = Map.empty, anyCon = Map.empty, mConIGMP = Map.empty, conRaw = Map.empty,
      ContMsg = Map.empty,
      mapIPtoNetIP = fst maps, mapIPtoNetAddr = fst (snd maps), mapNetAddrtoIP = snd (snd maps),
      querierSourceIP = AddrZero, unicastDst = ud, debugLevel = DebugLevel c\<rparr>"

definition addInterface :: "externals \<Rightarrow> side \<Rightarrow> IGMPReporter \<Rightarrow> IGMPReporter act" where
  "addInterface X i r =
     bind (lift (getInterfaceHandle X r i)) (\<lambda>(netIF, netIP, netaddr).
     ret (r\<lparr>NetIF := (NetIF r)(i \<mapsto> netIF), NetIP := (NetIP r)(i \<mapsto> netIP),
            NetAddr := (NetAddr r)(i \<mapsto> netaddr),
            NetIFIndex := (NetIFIndex r)(if_Index netIF \<mapsto> i),
            ContMsg := (ContMsg r)
              (i \<mapsto> \<lparr>cm_Src = [], cm_Dst = [], cm_IfIndex = if_Index netIF\<rparr>)\<rparr>))"

definition openRawIfNil :: "externals \<Rightarrow> side \<Rightarrow> IGMPReporter \<Rightarrow> IGMPReporter act" where
  "openRawIfNil X s r =
     (if conRaw r s = None then
        bind (openRawConnection X r s) (\<lambda>(raw, r').
        ret (r'\<lparr>conRaw := (conRaw r')(s \<mapsto> raw)\<rparr>))
      else ret r)"

definition openForUnicastProxy :: "externals \<Rightarrow> IGMPReporter \<Rightarrow> IGMPReporter act" where
  "openForUnicastProxy X r =
     (if UnicastProxyInToOut (conf r) then
        bind (openUnicastPacketConn X r IN) (\<lambda>c.
        openRawIfNil X OUT (r\<lparr>uCon := (uCon r)(IN \<mapsto> c)\<rparr>))
      else ret r)"

definition openForNotify :: "externals \<Rightarrow> IGMPReporter \<Rightarrow> IGMPReporter act" where
  "openForNotify X r =
     (if QueryNotify (conf r) \<or> MembershipReportsFromNetwork (conf r)
      then createPacketConns X r OUT else ret r)"

definition openForOutToIn :: "externals \<Rightarrow> IGMPReporter \<Rightarrow> IGMPReporter act" where
  "openForOutToIn X r =
     (if ProxyOutToIn (conf r) then
        bind (createPacketConns X r OUT) (\<lambda>r1.
        bind (openRawIfNil X IN r1) (\<lambda>r2.
        if AltOutExists r2 then createPacketConns X r2 ALTOUT else ret r2))
      else ret r)"

definition openForInToOut :: "externals \<Rightarrow> IGMPReporter \<Rightarrow> IGMPReporter act" where
  "openForInToOut X r =
     (if ProxyInToOut (conf r) \<or> MembershipReportsToNetwork (conf r) then
        bind (createPacketConns X r IN) (\<lambda>r1.
        bind (openRawIfNil X OUT r1) (\<lambda>r2.
        if AltOutExists r2 then createPacketConns X r2 ALTOUT else ret r2))
      else ret r)"

definition openSockets :: "externals \<Rightarrow> IGMPReporter \<Rightarrow> IGMPReporter act" where
  "openSockets X r =
     bind (openForUnicastProxy X r) (\<lambda>r1.
     bind (openForNotify X r1) (\<lambda>r2.
     bind (openForOutToIn X r2) (\<lambda>r3.
     openForInToOut X r3)))"

definition initChannels :: "externals \<Rightarrow> Config \<Rightarrow> unit act" where
  "initChannels X c =
     bind (lift (makechan (chanMax X 0) (ChannelSize c))) (\<lambda>qn.
     bind (lift (makechan (chanMax X 3) (ChannelSize c))) (\<lambda>mf.
     bind (lift (makechan (chanMax X 3) (ChannelSize c))) (\<lambda>mt.
     bind (if LeaveToNetwork c
           then bind (lift (makechan (chanMax X 3) (ChannelSize c))) (\<lambda>lv. ret (Some lv)) else ret None) (\<lambda>lv.
     upd (\<lambda>w. w\<lparr>QueryNotifyCh := Some qn, MembershipReportFromNetworkCh := Some mf,
                MembershipReportToNetworkCh := Some mt, LeaveToNetworkCh := lv\<rparr>)))))"

definition newReporter :: "externals \<Rightarrow> Config \<Rightarrow> IGMPReporter act" where
  "newReporter X c =
     bind (upd (\<lambda>w. w\<lparr>IntOutName := [OUT \<mapsto> IN, IN \<mapsto> OUT], OutInterfaceSelectorCh := None\<rparr>)) (\<lambda>_.
     bind (if has_alt c then
             bind (lift (makechan (chanMax X 1) (ChannelSize c))) (\<lambda>ch.
             upd (\<lambda>w. w\<lparr>OutInterfaceSelectorCh := Some ch\<rparr>))
           else ret ()) (\<lambda>_.
     bind (lift (MustParseAddr (UnicastDst c))) (\<lambda>ud.
     bind (initChannels X c) (\<lambda>_.
     bind (lift makeIPMaps) (\<lambda>maps.
     bind (foldM (addInterface X) (Interfaces (initReporter c ud maps)) (initReporter c ud maps)) (\<lambda>r.
     openSockets X r))))))"

definition NewIGMPReporter :: "externals \<Rightarrow> Config \<Rightarrow> IGMPReporter act" where
  "NewIGMPReporter X c = bind (registerMetrics X) (\<lambda>_. newReporter X c)"

lemma NewIGMPReporter_apply:
  "NewIGMPReporter X c w =
     (if metrics_fit X w
      then newReporter X c (w\<lparr>registered := registered w @ reporter_metrics\<rparr>)
      else (Inl (Panic ''promauto''),
        w\<lparr>registered := registered w @ accepted X (registered w) reporter_metrics\<rparr>))"
  by (simp add: NewIGMPReporter_def registerMetrics_apply bind_def metrics_fit_def)

subsection \<open>What stays fixed while sockets are opened\<close>

definition fixed where
  "fixed r = (conf r, IntName r, Interfaces r, AltOutExists r, OutsideInterfaces r, TimerDuration r,
     NetIFIndex r, multicastGroups r, ContMsg r, mapIPtoNetIP r, mapIPtoNetAddr r,
     mapNetAddrtoIP r, querierSourceIP r, unicastDst r, debugLevel r)"

lemma fixed_core: "core r' = core r \<Longrightarrow> fixed r' = fixed r"
  by (simp add: core_def fixed_def)

lemma fixed_fields:
  assumes "fixed r' = fixed r"
  shows "conf r' = conf r" "AltOutExists r' = AltOutExists r" "multicastGroups r' = multicastGroups r"
    "groupAddr r' = groupAddr r" "tables_ok r' = tables_ok r" "unicastDst r' = unicastDst r"
    "querierSourceIP r' = querierSourceIP r" "OutsideInterfaces r' = OutsideInterfaces r"
    "ContMsg r' = ContMsg r" "NetIFIndex r' = NetIFIndex r" "Interfaces r' = Interfaces r"
    "TimerDuration r' = TimerDuration r" "IntName r' = IntName r"
  using assms by (simp_all add: fixed_def groupAddr_def [abs_def] tables_ok_def)

definition group_addrs :: "Addr set" where
  "group_addrs = {Addr4 224 0 0 1, Addr4 224 0 0 2, Addr4 224 0 0 22}"

lemma group_addrs_tables: "tables_ok r \<Longrightarrow> groupAddr r ` set the_multicastGroups = group_addrs"
  by (auto simp: the_multicastGroups_def tables_eq group_addrs_def)

text \<open>What one stage of the constructor does to the sockets.\<close>

definition stage ::
    "IGMPReporter \<Rightarrow> IGMPReporter \<Rightarrow> side set \<Rightarrow> (side \<times> Addr) set \<Rightarrow> side set \<Rightarrow> bool" where
  "stage r r' raws conns unis \<longleftrightarrow>
     fixed r' = fixed r \<and> sock_inv r' \<and> dom (conRaw r') = raws \<union> dom (conRaw r) \<and>
     opened r' = conns \<union> opened r \<and> dom (uCon r') = unis \<union> dom (uCon r)"

lemma stage_refl: "sock_inv r \<Longrightarrow> stage r r {} {} {}"
  by (simp add: stage_def)

lemma stage_trans:
  "stage r1 r2 A B C \<Longrightarrow> stage r2 r3 A' B' C' \<Longrightarrow> stage r1 r3 (A' \<union> A) (B' \<union> B) (C' \<union> C)"
  by (simp add: stage_def Un_assoc)

lemma stage_sets:
  "stage r r' A B C \<Longrightarrow> A = A' \<Longrightarrow> B = B' \<Longrightarrow> C = C' \<Longrightarrow> stage r r' A' B' C'"
  by simp

definition ready :: "IGMPReporter \<Rightarrow> bool" where
  "ready r \<longleftrightarrow> sock_inv r \<and> multicastGroups r = the_multicastGroups"

lemma stage_fixed: "stage r r' A B C \<Longrightarrow> fixed r' = fixed r"
  by (simp add: stage_def)

lemma stage_ready:
  assumes "stage r r' A B C" "ready r"
  shows "ready r'"
  using assms fixed_fields(3) [OF stage_fixed [OF assms(1)]] by (simp add: stage_def ready_def)

lemma createPacketConns_stage:
  assumes "createPacketConns X r s w = (Inr r', w')" "ready r"
  shows "stage r r' {} ({s} \<times> group_addrs) {}"
proof -
  from assms(2) have i: "sock_inv r" and m: "multicastGroups r = the_multicastGroups"
    by (simp_all add: ready_def)
  note sp = createPacketConns_spec [OF assms(1) i m]
  from i have "tables_ok r" by (simp add: sock_inv_def)
  then show ?thesis
    using fixed_core [OF sp(1)] sp(2,3) core_fields(9,10) [OF sp(1)]
    by (simp add: stage_def group_addrs_tables)
qed

lemma openRawIfNil_stage:
  assumes run: "openRawIfNil X s r w = (Inr r', w')" and inv: "sock_inv r"
  shows "stage r r' {s} {} {}"
proof (cases "conRaw r s")
  case (Some c)
  with run inv show ?thesis by (auto simp: openRawIfNil_def stage_def)
next
  case None
  with run obtain raw r1 where op: "openRawConnection X r s w = (Inr (raw, r1), w')"
    and r': "r' = r1\<lparr>conRaw := (conRaw r1)(s \<mapsto> raw)\<rparr>"
    by (auto simp: openRawIfNil_def bind_eq_Inr)
  note sp = openRaw_spec [OF op]
  have f: "fixed r' = fixed r"
    using fixed_core [OF sp(1)] r' by (simp add: fixed_def)
  have "joined r' = joined r" "anyCon r' = anyCon r"
    using r' sp(2,3) by (simp_all add: joined_def [abs_def])
  with inv have "sock_inv r'" "opened r' = opened r"
    by (auto simp: sock_inv_def in_step_def mconns_good_def fixed_fields(5) [OF f] opened_def)
  with f r' sp(1) show ?thesis by (auto simp: stage_def core_fields [OF sp(1)])
qed

lemma alt_stage:
  assumes "(if AltOutExists r then createPacketConns X r ALTOUT else ret r) w = (Inr r', w')" "ready r"
  shows "stage r r' {} ((if AltOutExists r then {ALTOUT} else {}) \<times> group_addrs) {}"
proof (cases "AltOutExists r")
  case True
  with assms createPacketConns_stage show ?thesis by simp
next
  case False
  with assms stage_refl show ?thesis by (auto simp: ready_def)
qed

lemma proxy_stage:
  assumes run: "bind (createPacketConns X r s) (\<lambda>r1. bind (openRawIfNil X t r1)
      (\<lambda>r2. if AltOutExists r2 then createPacketConns X r2 ALTOUT else ret r2)) w = (Inr r', w')"
    and rdy: "ready r"
  shows "stage r r' {t} (({s} \<union> (if AltOutExists r then {ALTOUT} else {})) \<times> group_addrs) {}"
proof -
  from run obtain r1 w1 r2 w2 where 1: "createPacketConns X r s w = (Inr r1, w1)"
    and 2: "openRawIfNil X t r1 w1 = (Inr r2, w2)"
    and 3: "(if AltOutExists r2 then createPacketConns X r2 ALTOUT else ret r2) w2 = (Inr r', w')"
    unfolding bind_eq_Inr by blast
  note s1 = createPacketConns_stage [OF 1 rdy]
  note rdy1 = stage_ready [OF s1 rdy]
  from rdy1 have "sock_inv r1" by (simp add: ready_def)
  note s2 = openRawIfNil_stage [OF 2 this]
  note s3 = alt_stage [OF 3 stage_ready [OF s2 rdy1]]
  have alt: "AltOutExists r2 = AltOutExists r"
    using fixed_fields(2) [OF stage_fixed [OF s2]] fixed_fields(2) [OF stage_fixed [OF s1]] by simp
  have split: "({s} \<union> (if AltOutExists r then {ALTOUT} else {})) \<times> group_addrs
      = (if AltOutExists r then {ALTOUT} else {}) \<times> group_addrs \<union> ({} \<union> {s} \<times> group_addrs)"
    by auto
  from stage_trans [OF stage_trans [OF s1 s2] s3] alt show ?thesis by (simp only: split) simp
qed

lemma openForUnicastProxy_stage:
  assumes run: "openForUnicastProxy X r w = (Inr r', w')" and rdy: "ready r"
  shows "stage r r' (if UnicastProxyInToOut (conf r) then {OUT} else {}) {}
     (if UnicastProxyInToOut (conf r) then {IN} else {})"
proof (cases "UnicastProxyInToOut (conf r)")
  case True
  with run obtain c u where
    op: "openRawIfNil X OUT (r\<lparr>uCon := (uCon r)(IN \<mapsto> c)\<rparr>) u = (Inr r', w')"
    by (auto simp: openForUnicastProxy_def bind_eq_Inr)
  let ?r1 = "r\<lparr>uCon := (uCon r)(IN \<mapsto> c)\<rparr>"
  have j: "joined ?r1 = joined r" by (simp add: joined_def [abs_def])
  from rdy have i: "sock_inv ?r1"
    by (simp add: ready_def sock_inv_def in_step_def mconns_good_def j tables_ok_def)
  then have "stage r ?r1 {} {} {IN}"
    by (simp add: stage_def fixed_def opened_def j)
  from stage_trans [OF this openRawIfNil_stage [OF op i]] True show ?thesis by simp
next
  case False
  with run rdy stage_refl show ?thesis by (auto simp: openForUnicastProxy_def ready_def)
qed

lemma openForNotify_stage:
  assumes run: "openForNotify X r w = (Inr r', w')" and rdy: "ready r"
  shows "stage r r' {} ((if QueryNotify (conf r) \<or> MembershipReportsFromNetwork (conf r)
     then {OUT} else {}) \<times> group_addrs) {}"
proof (cases "QueryNotify (conf r) \<or> MembershipReportsFromNetwork (conf r)")
  case True
  with run createPacketConns_stage [OF _ rdy] show ?thesis by (simp add: openForNotify_def)
next
  case False
  with run rdy stage_refl show ?thesis by (auto simp: openForNotify_def ready_def)
qed

lemma openForOutToIn_stage:
  assumes run: "openForOutToIn X r w = (Inr r', w')" and rdy: "ready r"
  shows "stage r r' (if ProxyOutToIn (conf r) then {IN} else {})
     ((if ProxyOutToIn (conf r) then {OUT} \<union> (if AltOutExists r then {ALTOUT} else {}) else {})
        \<times> group_addrs) {}"
proof (cases "ProxyOutToIn (conf r)")
  case True
  with run proxy_stage [OF _ rdy] show ?thesis by (simp add: openForOutToIn_def)
next
  case False
  with run rdy stage_refl show ?thesis by (auto simp: openForOutToIn_def ready_def)
qed

lemma openForInToOut_stage:
  assumes run: "openForInToOut X r w = (Inr r', w')" and rdy: "ready r"
  shows "stage r r' (if ProxyInToOut (conf r) \<or> MembershipReportsToNetwork (conf r) then {OUT} else {})
     ((if ProxyInToOut (conf r) \<or> MembershipReportsToNetwork (conf r)
       then {IN} \<union> (if AltOutExists r then {ALTOUT} else {}) else {}) \<times> group_addrs) {}"
proof (cases "ProxyInToOut (conf r) \<or> MembershipReportsToNetwork (conf r)")
  case True
  with run proxy_stage [OF _ rdy] show ?thesis by (simp add: openForInToOut_def)
next
  case False
  with run rdy stage_refl show ?thesis by (auto simp: openForInToOut_def ready_def)
qed

subsection \<open>The sockets of a configuration\<close>

definition raws_of :: "Config \<Rightarrow> side set" where
  "raws_of c =
     (if UnicastProxyInToOut c \<or> ProxyInToOut c \<or> MembershipReportsToNetwork c then {OUT} else {}) \<union>
     (if ProxyOutToIn c then {IN} else {})"

definition joins_of :: "Config \<Rightarrow> side set" where
  "joins_of c =
     (if QueryNotify c \<or> MembershipReportsFromNetwork c \<or> ProxyOutToIn c then {OUT} else {}) \<union>
     (if ProxyInToOut c \<or> MembershipReportsToNetwork c then {IN} else {}) \<union>
     (if has_alt c \<and> (ProxyOutToIn c \<or> ProxyInToOut c \<or> MembershipReportsToNetwork c)
      then {ALTOUT} else {})"

definition unis_of :: "Config \<Rightarrow> side set" where
  "unis_of c = (if UnicastProxyInToOut c then {IN} else {})"

lemma openSockets_stage:
  assumes run: "openSockets X r w = (Inr r', w')" and rdy: "ready r"
    and alt: "AltOutExists r = has_alt (conf r)"
  shows "stage r r' (raws_of (conf r)) (joins_of (conf r) \<times> group_addrs) (unis_of (conf r))"
proof -
  from run obtain r1 w1 r2 w2 r3 w3 where 1: "openForUnicastProxy X r w = (Inr r1, w1)"
    and 2: "openForNotify X r1 w1 = (Inr r2, w2)" and 3: "openForOutToIn X r2 w2 = (Inr r3, w3)"
    and 4: "openForInToOut X r3 w3 = (Inr r', w')"
    unfolding openSockets_def bind_eq_Inr by blast
  note s1 = openForUnicastProxy_stage [OF 1 rdy]
  note rdy1 = stage_ready [OF s1 rdy]
  note s2 = openForNotify_stage [OF 2 rdy1]
  note rdy2 = stage_ready [OF s2 rdy1]
  note s3 = openForOutToIn_stage [OF 3 rdy2]
  note rdy3 = stage_ready [OF s3 rdy2]
  note s4 = openForInToOut_stage [OF 4 rdy3]
  note f = fixed_fields(1,2) [OF stage_fixed [OF s1]] fixed_fields(1,2) [OF stage_fixed [OF s2]]
    fixed_fields(1,2) [OF stage_fixed [OF s3]]
  note all = stage_trans [OF stage_trans [OF stage_trans [OF s1 s2] s3] s4, unfolded f]
  show ?thesis
    using all unfolding raws_of_def joins_of_def unis_of_def alt
    by (rule stage_sets) auto
qed

subsection \<open>The interfaces\<close>

definition base where
  "base r = (conf r, IntName r, Interfaces r, AltOutExists r, OutsideInterfaces r, TimerDuration r,
     multicastGroups r, uCon r, anyCon r, mConIGMP r, conRaw r, mapIPtoNetIP r, mapIPtoNetAddr r,
     mapNetAddrtoIP r, querierSourceIP r, unicastDst r, debugLevel r)"

text \<open>
  The index table and the control messages agree: an index belongs to a side whose own
  interface has it, and the index of every side's interface is in the table.
\<close>

definition ifaces_ok :: "IGMPReporter \<Rightarrow> bool" where
  "ifaces_ok r \<longleftrightarrow>
     (\<forall>k s. NetIFIndex r k = Some s \<longrightarrow> (\<exists>m. ContMsg r s = Some m \<and> cm_IfIndex m = k)) \<and>
     (\<forall>s m. ContMsg r s = Some m \<longrightarrow> (\<exists>t. NetIFIndex r (cm_IfIndex m) = Some t))"

lemma ifaces_okD:
  "ifaces_ok r \<Longrightarrow> NetIFIndex r k = Some s \<Longrightarrow> \<exists>m. ContMsg r s = Some m \<and> cm_IfIndex m = k"
  by (simp add: ifaces_ok_def)

lemma addInterface_spec:
  assumes run: "addInterface X i r w = (Inr r', w')" and inv: "ifaces_ok r" and new: "ContMsg r i = None"
  shows "base r' = base r \<and> ifaces_ok r' \<and> dom (ContMsg r') = insert i (dom (ContMsg r)) \<and> w' = w"
proof -
  from run obtain n ip a where r': "r' = r\<lparr>NetIF := (NetIF r)(i \<mapsto> n), NetIP := (NetIP r)(i \<mapsto> ip),
            NetAddr := (NetAddr r)(i \<mapsto> a), NetIFIndex := (NetIFIndex r)(if_Index n \<mapsto> i),
            ContMsg := (ContMsg r)(i \<mapsto> \<lparr>cm_Src = [], cm_Dst = [], cm_IfIndex = if_Index n\<rparr>)\<rparr>"
    and w: "w' = w"
    by (auto simp: addInterface_def bind_lift split: sum.splits)
  have old: "NetIFIndex r k \<noteq> Some i" for k
    using ifaces_okD [OF inv, of k i] new by auto
  from inv old have "ifaces_ok r'"
    by (auto simp: r' ifaces_ok_def)
  with r' w show ?thesis by (auto simp: base_def)
qed

lemma foldM_addInterface_spec:
  "foldM (addInterface X) is r w = (Inr r', w') \<Longrightarrow> ifaces_ok r \<Longrightarrow> distinct is \<Longrightarrow>
   set is \<inter> dom (ContMsg r) = {} \<Longrightarrow>
   base r' = base r \<and> ifaces_ok r' \<and> dom (ContMsg r') = set is \<union> dom (ContMsg r) \<and> w' = w"
proof (induction "is" arbitrary: r w)
  case (Cons i js)
  from Cons.prems(1) obtain r1 w1 where one: "addInterface X i r w = (Inr r1, w1)"
    and more: "foldM (addInterface X) js r1 w1 = (Inr r', w')"
    by (auto simp: bind_eq_Inr)
  from Cons.prems(4) have "ContMsg r i = None" by auto
  from addInterface_spec [OF one Cons.prems(2) this]
  have sp: "base r1 = base r" "ifaces_ok r1" "dom (ContMsg r1) = insert i (dom (ContMsg r))"
    "w1 = w" by simp_all
  with Cons.prems(3,4) have "distinct js" "set js \<inter> dom (ContMsg r1) = {}" by auto
  from Cons.IH [OF more sp(2) this] sp show ?case by simp
qed simp

subsection \<open>The constructor\<close>

text \<open>What the constructor guarantees of the reporter it returns.\<close>

definition built :: "Config \<Rightarrow> IGMPReporter \<Rightarrow> bool" where
  "built c r \<longleftrightarrow>
     conf r = c \<and> ready r \<and> ifaces_ok r \<and> AltOutExists r = has_alt c \<and>
     Interfaces r = (if has_alt c then [IN, OUT, ALTOUT] else [IN, OUT]) \<and>
     OutsideInterfaces r = (if has_alt c then [OUT \<mapsto> True, ALTOUT \<mapsto> True] else Map.empty) \<and>
     TimerDuration r = [GRATUITOUS \<mapsto> Gratuitous c, QUERY \<mapsto> QueryTime c] \<and>
     querierSourceIP r = AddrZero \<and> MustParseAddr (UnicastDst c) = Inr (unicastDst r) \<and>
     dom (ContMsg r) = set (Interfaces r) \<and>
     dom (conRaw r) = raws_of c \<and> opened r = joins_of c \<times> group_addrs \<and> dom (uCon r) = unis_of c"

text \<open>The shared state the constructor leaves behind.\<close>

definition fresh_chan :: "Config \<Rightarrow> 'a chan" where
  "fresh_chan c = \<lparr>chCap = nat (ChannelSize c), chQueue = [], chWaiting = 0\<rparr>"

definition built_world :: "Config \<Rightarrow> world \<Rightarrow> bool" where
  "built_world c w \<longleftrightarrow>
     IntOutName w = [OUT \<mapsto> IN, IN \<mapsto> OUT] \<and> 0 \<le> ChannelSize c \<and>
     QueryNotifyCh w = Some (fresh_chan c) \<and>
     MembershipReportFromNetworkCh w = Some (fresh_chan c) \<and>
     MembershipReportToNetworkCh w = Some (fresh_chan c) \<and>
     LeaveToNetworkCh w = (if LeaveToNetwork c then Some (fresh_chan c) else None) \<and>
     OutInterfaceSelectorCh w = (if has_alt c then Some (fresh_chan c) else None)"

lemma initReporter_ready:
  assumes "makeIPMaps = Inr maps"
  shows "ready (initReporter c ud maps)" "ifaces_ok (initReporter c ud maps)"
  using assms
  by (simp_all add: ready_def initReporter_def sock_inv_def tables_ok_def in_step_def mconns_good_def
      joined_def ifaces_ok_def)

lemma NewIGMPReporter_decompose:
  assumes new: "NewIGMPReporter X c w0 = (Inr r, w')"
  obtains ud maps u v r0 where
    "MustParseAddr (UnicastDst c) = Inr ud" "makeIPMaps = Inr maps"
    "initChannels X c u = (Inr (), v)"
    "foldM (addInterface X) (Interfaces (initReporter c ud maps)) (initReporter c ud maps) v = (Inr r0, v)"
    "openSockets X r0 v = (Inr r, w')"
    "IntOutName u = [OUT \<mapsto> IN, IN \<mapsto> OUT]"
    "has_alt c \<Longrightarrow> \<exists>ch. makechan (chanMax X 1) (ChannelSize c) = Inr ch \<and> OutInterfaceSelectorCh u = Some ch"
    "\<not> has_alt c \<Longrightarrow> OutInterfaceSelectorCh u = None"
proof -
  let ?reg = "w0\<lparr>registered := registered w0 @ reporter_metrics\<rparr>"
  let ?start = "?reg\<lparr>IntOutName := [OUT \<mapsto> IN, IN \<mapsto> OUT], OutInterfaceSelectorCh := None\<rparr>"
  from new have "newReporter X c ?reg = (Inr r, w')"
    by (auto simp: NewIGMPReporter_apply split: if_splits)
  then obtain u ud v maps r0 v1 where
    alt: "(if has_alt c then bind (lift (makechan (chanMax X 1) (ChannelSize c)))
             (\<lambda>ch. upd (\<lambda>w. w\<lparr>OutInterfaceSelectorCh := Some ch\<rparr>)) else ret ()) ?start = (Inr (), u)"
    and steps: "MustParseAddr (UnicastDst c) = Inr ud" "makeIPMaps = Inr maps"
    "initChannels X c u = (Inr (), v)"
    "foldM (addInterface X) (Interfaces (initReporter c ud maps)) (initReporter c ud maps) v = (Inr r0, v1)"
    "openSockets X r0 v1 = (Inr r, w')"
    by (auto simp: newReporter_def bind_eq_Inr)
  note inv = initReporter_ready(2) [OF steps(2), of c ud]
  have "distinct (Interfaces (initReporter c ud maps))"
    and "set (Interfaces (initReporter c ud maps)) \<inter> dom (ContMsg (initReporter c ud maps)) = {}"
    by (simp_all add: initReporter_def)
  from foldM_addInterface_spec [OF steps(4) inv this] have "v1 = v" by simp
  with steps alt show ?thesis
    by (intro that [of ud maps u v r0]) (auto simp: bind_lift split: if_splits sum.splits)
qed

lemma NewIGMPReporter_built:
  assumes "NewIGMPReporter X c w = (Inr r, w')"
  shows "built c r"
  using assms
proof (rule NewIGMPReporter_decompose)
  fix ud maps u v r0
  assume ud: "MustParseAddr (UnicastDst c) = Inr ud" and maps: "makeIPMaps = Inr maps"
    and ifs: "foldM (addInterface X) (Interfaces (initReporter c ud maps)) (initReporter c ud maps) v
               = (Inr r0, v)"
    and socks: "openSockets X r0 v = (Inr r, w')"
  let ?i = "initReporter c ud maps"
  note inv = initReporter_ready [OF maps, of c ud]
  have "distinct (Interfaces ?i)" "set (Interfaces ?i) \<inter> dom (ContMsg ?i) = {}"
    by (simp_all add: initReporter_def)
  from foldM_addInterface_spec [OF ifs inv(2) this]
  have b: "base r0 = base ?i" and io: "ifaces_ok r0"
    and cm: "dom (ContMsg r0) = set (Interfaces ?i)"
    by (simp_all add: initReporter_def)
  from b have j: "joined r0 = joined ?i" by (simp add: base_def joined_def [abs_def])
  from inv(1) b j have rdy: "ready r0"
    by (simp add: ready_def sock_inv_def in_step_def mconns_good_def tables_ok_def base_def)
  have "AltOutExists r0 = has_alt (conf r0)"
    using b by (simp add: base_def initReporter_def)
  note st = openSockets_stage [OF socks rdy this]
  note f = fixed_fields [OF stage_fixed [OF st]]
  have "ifaces_ok r" using io by (simp add: ifaces_ok_def f)
  moreover have "joined ?i = (\<lambda>s a. None)"
    by (simp add: joined_def [abs_def] initReporter_def get0_def)
  then have "opened r0 = {}" by (simp add: opened_def j)
  ultimately show "built c r"
    using st b cm ud stage_ready [OF st rdy]
    by (simp add: built_def f stage_def base_def initReporter_def)
qed

subsection \<open>The shared state after construction\<close>

lemma keeps_split [pres]: "(\<And>a b. keeps g (f a b)) \<Longrightarrow> keeps g (case p of (a, b) \<Rightarrow> f a b)"
  by (cases p) simp

lemma keeps_foldM [pres]: "(\<And>x a. keeps g (f x a)) \<Longrightarrow> keeps g (foldM f xs a)"
  by (induction xs arbitrary: a) (auto intro!: pres)

lemma keeps_createPacketConns [pres]:
  assumes [pres]: "\<And>w x. f (w\<lparr>ioCount := x\<rparr>) = f w"
  shows "keeps f (createPacketConns X r s)"
  unfolding createPacketConns_def createPacketConns_group_def openPacketMulticastPacketConn_def
  by (auto intro!: pres simp: Let_def simp del: seqs.simps)

lemma keeps_openRawIfNil [pres]:
  assumes [pres]: "\<And>w x. f (w\<lparr>ioCount := x\<rparr>) = f w"
  shows "keeps f (openRawIfNil X s r)"
  unfolding openRawIfNil_def openRawConnection_def
  by (intro pres assms) (simp_all add: pres assms)

lemma keeps_openSockets:
  assumes [pres]: "\<And>w x. f (w\<lparr>ioCount := x\<rparr>) = f w"
  shows "keeps f (openSockets X r)"
  unfolding openSockets_def openForUnicastProxy_def openForNotify_def openForOutToIn_def
    openForInToOut_def openUnicastPacketConn_def
  by (intro pres assms)

definition chans where
  "chans w = (IntOutName w, QueryNotifyCh w, MembershipReportFromNetworkCh w,
     MembershipReportToNetworkCh w, LeaveToNetworkCh w, OutInterfaceSelectorCh w)"

lemma makechan_fresh:
  "makechan most (ChannelSize c) = Inr ch \<longleftrightarrow>
     0 \<le> ChannelSize c \<and> ChannelSize c \<le> int most \<and> ch = fresh_chan c"
  by (auto simp: makechan_def fresh_chan_def)

lemma initChannels_spec:
  "initChannels X c u = (Inr (), v) \<Longrightarrow>
     0 \<le> ChannelSize c \<and> ChannelSize c \<le> int (chanMax X 0) \<and> ChannelSize c \<le> int (chanMax X 3) \<and>
     v = u\<lparr>QueryNotifyCh := Some (fresh_chan c), MembershipReportFromNetworkCh := Some (fresh_chan c),
           MembershipReportToNetworkCh := Some (fresh_chan c),
           LeaveToNetworkCh := (if LeaveToNetwork c then Some (fresh_chan c) else None)\<rparr>"
  by (auto simp: initChannels_def bind_eq_Inr makechan_fresh split: if_splits)

lemma NewIGMPReporter_world:
  assumes "NewIGMPReporter X c w = (Inr r, w')"
  shows "built_world c w'"
  using assms
proof (rule NewIGMPReporter_decompose)
  fix ud maps u v r0
  assume ch: "initChannels X c u = (Inr (), v)" and socks: "openSockets X r0 v = (Inr r, w')"
    and io: "IntOutName u = [OUT \<mapsto> IN, IN \<mapsto> OUT]"
    and alt: "has_alt c \<Longrightarrow> \<exists>ch. makechan (chanMax X 1) (ChannelSize c) = Inr ch \<and> OutInterfaceSelectorCh u = Some ch"
    and noalt: "\<not> has_alt c \<Longrightarrow> OutInterfaceSelectorCh u = None"
  have "keeps chans (openSockets X r0)" by (rule keeps_openSockets) (simp add: chans_def)
  from keepsD [OF this socks] have "chans w' = chans v" .
  with initChannels_spec [OF ch] io alt noalt show "built_world c w'"
    by (auto simp: built_world_def chans_def makechan_fresh)
qed

text \<open>
  The sockets are a function of the configuration. After a successful construction a side
  has a raw (sending) connection exactly if \<open>raws_of\<close> the configuration names it, and a
  receiving socket for each of the three multicast groups exactly if \<open>joins_of\<close> names it;
  every receiving socket has its three control-message flags set and joined precisely the
  group it is filed under. In particular no configuration opens a raw connection for the
  alternative outside interface.
\<close>
theorem NewIGMPReporter_sockets:
  assumes "NewIGMPReporter X c w = (Inr r, w')"
  shows "(\<forall>s. conRaw r s \<noteq> None \<longleftrightarrow> s \<in> raws_of c) \<and> conRaw r ALTOUT = None \<and>
    (\<forall>s. \<forall>g \<in> set the_multicastGroups. mConn r s g \<noteq> None \<longleftrightarrow> s \<in> joins_of c) \<and>
    (\<forall>s g p. mConn r s g = Some p \<longrightarrow> mc_FlagSrc p \<and> mc_FlagDst p \<and> mc_FlagInterface p \<and>
        netip2Addr (mc_Group p) = Inr (groupAddr r g))"
proof -
  from NewIGMPReporter_built [OF assms] have
    raws: "dom (conRaw r) = raws_of c" and joins: "opened r = joins_of c \<times> group_addrs"
    and inv: "sock_inv r"
    by (auto simp: built_def ready_def)
  from inv have t: "tables_ok r" and m: "mconns_good r" by (simp_all add: sock_inv_def)
  have raw_iff: "conRaw r s \<noteq> None \<longleftrightarrow> s \<in> raws_of c" for s using raws by blast
  have "ALTOUT \<notin> raws_of c" by (simp add: raws_of_def)
  with raw_iff have noalt: "conRaw r ALTOUT = None" by blast
  have m_iff: "mConn r s g \<noteq> None \<longleftrightarrow> s \<in> joins_of c" if "g \<in> set the_multicastGroups" for s g
  proof -
    from that group_addrs_tables [OF t] have "groupAddr r g \<in> group_addrs" by blast
    moreover have "mConn r s g \<noteq> None \<longleftrightarrow> (s, groupAddr r g) \<in> opened r"
      by (simp add: mConn_joined opened_def)
    ultimately show ?thesis using joins by simp
  qed
  have flags: "mc_FlagSrc p \<and> mc_FlagDst p \<and> mc_FlagInterface p \<and>
        netip2Addr (mc_Group p) = Inr (groupAddr r g)" if "mConn r s g = Some p" for s g p
    using m that by (auto simp: mConn_joined mconns_good_def mconn_good_def)
  from raw_iff noalt m_iff flags show ?thesis by blast
qed

subsection \<open>When the constructor succeeds\<close>

definition io_ok :: "externals \<Rightarrow> bool" where
  "io_ok X \<longleftrightarrow> (\<forall>n. \<not> ioFails X n)"

definition iface_up :: "externals \<Rightarrow> IGMPReporter \<Rightarrow> side \<Rightarrow> bool" where
  "iface_up X r s \<longleftrightarrow> (\<exists>x. getInterfaceHandle X r s = Inr x)"

lemma iface_up_cong: "IntName r' = IntName r \<Longrightarrow> iface_up X r' s = iface_up X r s"
  by (simp add: iface_up_def getInterfaceHandle_def)

lemma returns_ioOrFatal: "io_ok X \<Longrightarrow> returns (ioOrFatal X m)"
  by (simp add: returns_def ioOrFatal_apply io_ok_def)

lemma returns_lift: "r = Inr x \<Longrightarrow> returns (lift r)"
  by (simp add: returns_def)

lemma returns_split: "(\<And>a b. returns (f a b)) \<Longrightarrow> returns (case p of (a, b) \<Rightarrow> f a b)"
  by (cases p) simp

lemma returns_Pair: "returns (Pair (Inr x))" "returns (\<lambda>s. (Inr (h s), g s))"
  by (simp_all add: returns_def)

lemma returns_bind_lift: "r = Inr x \<Longrightarrow> returns (f x) \<Longrightarrow> returns (bind (lift r) f)"
  by (simp add: returns_def bind_lift)

lemmas returns_intros = returns_Pair returns_bind returns_simple returns_ioOrFatal returns_seqs returns_split

lemma returns_bindE:
  assumes "returns m" and "\<And>s x t. m s = (Inr x, t) \<Longrightarrow> returns (f x)"
  shows "returns (bind m f)"
  unfolding returns_def
proof
  fix s
  from assms(1) obtain x t where m: "m s = (Inr x, t)" unfolding returns_def by blast
  from assms(2) [OF m] obtain y u where "f x t = (Inr y, u)" unfolding returns_def by blast
  with m show "\<exists>x t. bind m f s = (Inr x, t)" by simp
qed

lemma returns_foldM:
  assumes "\<And>x a. x \<in> set xs \<Longrightarrow> P a \<Longrightarrow> returns (f x a)"
    and "\<And>x a b s t. x \<in> set xs \<Longrightarrow> P a \<Longrightarrow> f x a s = (Inr b, t) \<Longrightarrow> P b"
    and "P a"
  shows "returns (foldM f xs a)"
  using assms
proof (induction xs arbitrary: a)
  case (Cons x xs)
  then have "returns (f x a)" by simp
  moreover have "returns (foldM f xs b)" if "f x a s = (Inr b, t)" for s b t
  proof (rule Cons.IH)
    show "P b" using Cons.prems(2) [OF list.set_intros(1) Cons.prems(3) that] .
  next
    fix y c assume "y \<in> set xs" "P c"
    then show "returns (f y c)" using Cons.prems(1) by simp
  next
    fix y c d u v assume "y \<in> set xs" "P c" "f y c u = (Inr d, v)"
    then show "P d" using Cons.prems(2) [of y c u d v] by simp
  qed
  ultimately show ?case by (auto intro: returns_bindE)
qed simp

lemma returns_createPacketConns:
  assumes io: "io_ok X" and up: "iface_up X r s" and rdy: "ready r"
  shows "returns (createPacketConns X r s)"
proof -
  let ?P = "\<lambda>a. sock_inv a \<and> IntName a = IntName r"
  let ?r0 = "r\<lparr>anyCon := (if anyCon r s = None then (anyCon r)(s \<mapsto> Map.empty) else anyCon r),
      mConIGMP := (if mConIGMP r s = None then (mConIGMP r)(s \<mapsto> Map.empty) else mConIGMP r)\<rparr>"
  have j: "joined ?r0 = joined r" by (auto simp: fun_eq_iff joined_def)
  have a: "get0 Map.empty (anyCon ?r0) = get0 Map.empty (anyCon r)" by (auto simp: fun_eq_iff)
  have P0: "?P ?r0"
    using rdy unfolding ready_def sock_inv_def in_step_def mconns_good_def j a
    by (simp add: tables_ok_def)
  have "returns (foldM (createPacketConns_group X s) the_multicastGroups ?r0)"
  proof (rule returns_foldM [where P = ?P])
    fix g a assume g: "g \<in> set the_multicastGroups" and P: "?P a"
    then have t: "tables_ok a" by (simp add: sock_inv_def)
    with g have "groupAddr a g \<in> group_addrs" using group_addrs_tables [OF t] by blast
    then have mc: "Addr_IsMulticast (groupAddr a g)" by (auto simp: group_addrs_def)
    from up P have "iface_up X a s" using iface_up_cong by blast
    then obtain x where x: "getInterfaceHandle X a s = Inr x" by (auto simp: iface_up_def)
    show "returns (createPacketConns_group X s g a)"
      unfolding createPacketConns_group_def openPacketMulticastPacketConn_def
      using io mc by (cases "NetIF a s") (auto intro!: returns_intros returns_lift [OF x] simp: Let_def
          simp del: seqs.simps)
  next
    fix g a b u t assume g: "g \<in> set the_multicastGroups" and P: "?P a"
      and run: "createPacketConns_group X s g a u = (Inr b, t)"
    from P have "sock_inv a" by simp
    from createPacketConns_group_spec [OF run this g] P show "?P b"
      using core_fields(2) by metis
  qed (rule P0)
  with rdy show ?thesis by (simp add: createPacketConns_def ready_def)
qed

lemma returns_openRawIfNil:
  assumes "io_ok X" "iface_up X r s"
  shows "returns (openRawIfNil X s r)"
proof -
  from assms(2) obtain x where x: "getInterfaceHandle X r s = Inr x" by (auto simp: iface_up_def)
  show ?thesis
    unfolding openRawIfNil_def openRawConnection_def
    using assms(1) by (cases "NetIF r s") (auto intro!: returns_intros returns_lift [OF x] simp del: seqs.simps)
qed

text \<open>The sides the constructor may open sockets on.\<close>

definition all_up :: "externals \<Rightarrow> IGMPReporter \<Rightarrow> bool" where
  "all_up X r \<longleftrightarrow> iface_up X r OUT \<and> iface_up X r IN \<and> (AltOutExists r \<longrightarrow> iface_up X r ALTOUT)"

lemma all_up_cong: "fixed r' = fixed r \<Longrightarrow> all_up X r' = all_up X r"
  by (simp add: all_up_def fixed_def iface_up_def getInterfaceHandle_def)

lemma returns_alt:
  assumes "io_ok X" "all_up X r" "ready r"
  shows "returns (if AltOutExists r then createPacketConns X r ALTOUT else ret r)"
  using assms returns_createPacketConns by (auto simp: all_up_def)

lemma returns_proxy_stage:
  assumes io: "io_ok X" and up: "all_up X r" and rdy: "ready r" and st: "s \<in> {OUT, IN}" "t \<in> {OUT, IN}"
  shows "returns (bind (createPacketConns X r s) (\<lambda>r1. bind (openRawIfNil X t r1)
      (\<lambda>r2. if AltOutExists r2 then createPacketConns X r2 ALTOUT else ret r2)))"
proof (rule returns_bindE)
  show "returns (createPacketConns X r s)"
    using io up rdy st returns_createPacketConns by (auto simp: all_up_def)
next
  fix w r1 w1 assume "createPacketConns X r s w = (Inr r1, w1)"
  note s1 = createPacketConns_stage [OF this rdy]
  note rdy1 = stage_ready [OF s1 rdy] and up1 = all_up_cong [OF stage_fixed [OF s1], of X]
  show "returns (bind (openRawIfNil X t r1)
      (\<lambda>r2. if AltOutExists r2 then createPacketConns X r2 ALTOUT else ret r2))"
  proof (rule returns_bindE)
    show "returns (openRawIfNil X t r1)"
      using io up up1 st returns_openRawIfNil by (auto simp: all_up_def)
  next
    fix u r2 v assume run: "openRawIfNil X t r1 u = (Inr r2, v)"
    from rdy1 have "sock_inv r1" by (simp add: ready_def)
    note s2 = openRawIfNil_stage [OF run this]
    show "returns (if AltOutExists r2 then createPacketConns X r2 ALTOUT else ret r2)"
      using returns_alt [OF io _ stage_ready [OF s2 rdy1]] all_up_cong [OF stage_fixed [OF s2], of X]
        up up1 by simp
  qed
qed

lemma returns_openForUnicastProxy:
  assumes "io_ok X" "all_up X r" "NetAddr r IN \<noteq> None"
  shows "returns (openForUnicastProxy X r)"
proof -
  from assms(3) obtain a where a: "NetAddr r IN = Some a" by blast
  have "iface_up X (r\<lparr>uCon := u\<rparr>) OUT" for u
    using assms(2) iface_up_cong [of "r\<lparr>uCon := u\<rparr>" r] by (simp add: all_up_def)
  with assms(1) show ?thesis
    by (auto simp: openForUnicastProxy_def openUnicastPacketConn_def a
        intro!: returns_intros returns_openRawIfNil)
qed

lemma returns_openSockets:
  assumes io: "io_ok X" and up: "all_up X r" and rdy: "ready r" and addr: "NetAddr r IN \<noteq> None"
  shows "returns (openSockets X r)"
  unfolding openSockets_def
proof (rule returns_bindE, rule returns_openForUnicastProxy [OF io up addr])
  fix u r1 v assume "openForUnicastProxy X r u = (Inr r1, v)"
  note s1 = openForUnicastProxy_stage [OF this rdy]
  note rdy1 = stage_ready [OF s1 rdy]
  have up1: "all_up X r1" using up all_up_cong [OF stage_fixed [OF s1]] by blast
  show "returns (bind (openForNotify X r1) (\<lambda>r2. bind (openForOutToIn X r2) (\<lambda>r3. openForInToOut X r3)))"
  proof (rule returns_bindE)
    show "returns (openForNotify X r1)"
      using io up1 rdy1 returns_createPacketConns by (auto simp: openForNotify_def all_up_def)
  next
    fix u r2 v assume "openForNotify X r1 u = (Inr r2, v)"
    note s2 = openForNotify_stage [OF this rdy1]
    note rdy2 = stage_ready [OF s2 rdy1]
    have up2: "all_up X r2" using up1 all_up_cong [OF stage_fixed [OF s2]] by blast
    show "returns (bind (openForOutToIn X r2) (\<lambda>r3. openForInToOut X r3))"
    proof (rule returns_bindE)
      show "returns (openForOutToIn X r2)"
        using returns_proxy_stage [OF io up2 rdy2] by (simp add: openForOutToIn_def)
    next
      fix u r3 v assume "openForOutToIn X r2 u = (Inr r3, v)"
      note s3 = openForOutToIn_stage [OF this rdy2]
      have "all_up X r3" using up2 all_up_cong [OF stage_fixed [OF s3]] by blast
      from returns_proxy_stage [OF io this stage_ready [OF s3 rdy2]]
      show "returns (openForInToOut X r3)" by (simp add: openForInToOut_def)
    qed
  qed
qed

lemma addInterface_run:
  "addInterface X i r w = (Inr r', w') \<Longrightarrow>
     iface_up X r i \<and> IntName r' = IntName r \<and> dom (NetAddr r') = insert i (dom (NetAddr r))"
  by (auto simp: addInterface_def iface_up_def bind_lift split: sum.splits)

lemma foldM_addInterface_run:
  "foldM (addInterface X) is r w = (Inr r', w') \<Longrightarrow>
     (\<forall>i \<in> set is. iface_up X r i) \<and> IntName r' = IntName r \<and>
     dom (NetAddr r') = set is \<union> dom (NetAddr r)"
proof (induction "is" arbitrary: r w)
  case (Cons i js)
  from Cons.prems obtain r1 w1 where one: "addInterface X i r w = (Inr r1, w1)"
    and more: "foldM (addInterface X) js r1 w1 = (Inr r', w')"
    by (auto simp: bind_eq_Inr)
  from addInterface_run [OF one] Cons.IH [OF more] show ?case
    by (auto simp: iface_up_cong [of r1 r])
qed simp

lemma returns_addInterfaces:
  "(\<forall>i \<in> set is. iface_up X r i) \<Longrightarrow> returns (foldM (addInterface X) is r)"
proof (rule returns_foldM [where P = "\<lambda>a. IntName a = IntName r"])
  fix i and a :: IGMPReporter assume up: "\<forall>i \<in> set is. iface_up X r i" and i: "i \<in> set is" and n: "IntName a = IntName r"
  then have "iface_up X a i" using iface_up_cong by blast
  then show "returns (addInterface X i a)"
    by (auto simp: addInterface_def iface_up_def intro!: returns_intros returns_lift)
qed (auto dest: addInterface_run)

text \<open>A name resolves: the interface exists and its first IP is a 4- or 16-byte address.\<close>

definition resolves :: "externals \<Rightarrow> string \<Rightarrow> bool" where
  "resolves X name \<longleftrightarrow>
     (\<exists>nif addrs. InterfaceByName X name = Some nif \<and> ifaceAddrs X nif = Some addrs \<and>
        length (first_ip addrs) \<in> {4, 16})"

lemma iface_up_resolves: "iface_up X r s \<longleftrightarrow> resolves X (get0 [] (IntName r) s)"
  unfolding iface_up_def resolves_def getInterfaceHandle_def Let_def
  by (auto split: option.splits sum.splits simp: netip2Addr_Inl netip2Addr_Inr)

lemma init_up:
  "(\<forall>i \<in> set (Interfaces (initReporter c ud maps)). iface_up X (initReporter c ud maps) i) \<longleftrightarrow>
     resolves X (InIntName c) \<and> resolves X (OutIntName c) \<and>
     (has_alt c \<longrightarrow> resolves X (AltOutIntName c))"
  by (auto simp: iface_up_resolves initReporter_def)

text \<open>The runtime can make the reporter's channels.\<close>

definition channels_fit :: "externals \<Rightarrow> Config \<Rightarrow> bool" where
  "channels_fit X c \<longleftrightarrow>
     0 \<le> ChannelSize c \<and> ChannelSize c \<le> int (chanMax X 0) \<and> ChannelSize c \<le> int (chanMax X 3) \<and>
     (has_alt c \<longrightarrow> ChannelSize c \<le> int (chanMax X 1))"

lemma initChannels_returns: "channels_fit X c \<Longrightarrow> returns (initChannels X c)"
  by (auto simp: channels_fit_def initChannels_def makechan_def intro!: returns_intros returns_lift)

lemma newReporter_returns:
  assumes io: "io_ok X" and size: "channels_fit X c" and dst: "ParseAddr (UnicastDst c) = Some ud"
    and names: "resolves X (InIntName c)" "resolves X (OutIntName c)"
      "has_alt c \<longrightarrow> resolves X (AltOutIntName c)"
  shows "returns (newReporter X c)"
proof -
  obtain maps where maps: "makeIPMaps = Inr maps" by (simp add: makeIPMaps_eq)
  let ?i = "initReporter c ud maps"
  have up: "\<forall>i \<in> set (Interfaces ?i). iface_up X ?i i" using names init_up by blast
  have sockets: "returns (openSockets X r)"
    if run: "foldM (addInterface X) (Interfaces ?i) ?i s = (Inr r, t)" for r s t
  proof (rule returns_openSockets [OF io])
    have d: "distinct (Interfaces ?i)" "set (Interfaces ?i) \<inter> dom (ContMsg ?i) = {}"
      by (simp_all add: initReporter_def)
    note inv = initReporter_ready [OF maps, of c ud]
    from foldM_addInterface_spec [OF run inv(2) d] have b: "base r = base ?i" by simp
    from foldM_addInterface_run [OF run] have n: "IntName r = IntName ?i"
      and a: "dom (NetAddr r) = set (Interfaces ?i) \<union> dom (NetAddr ?i)" by simp_all
    from up b show "all_up X r"
      by (auto simp: all_up_def iface_up_cong [OF n] base_def initReporter_def split: if_splits)
    have "joined r = joined ?i" using b by (simp add: base_def joined_def [abs_def])
    with inv(1) b show "ready r"
      by (simp add: ready_def sock_inv_def in_step_def mconns_good_def tables_ok_def base_def)
    from a have "IN \<in> dom (NetAddr r)" by (simp add: initReporter_def)
    then show "NetAddr r IN \<noteq> None" by blast
  qed
  have alt: "returns (if has_alt c then bind (lift (makechan (chanMax X 1) (ChannelSize c)))
      (\<lambda>ch. upd (\<lambda>w. w\<lparr>OutInterfaceSelectorCh := Some ch\<rparr>)) else ret ())"
    using size by (auto simp: channels_fit_def makechan_def intro!: returns_intros returns_lift)
  show ?thesis
    unfolding newReporter_def
  proof (rule returns_bind, simp, rule returns_bind, rule alt)
    fix x y :: unit
    show "returns (bind (lift (MustParseAddr (UnicastDst c))) (\<lambda>ud. bind (initChannels X c)
        (\<lambda>_. bind (lift makeIPMaps) (\<lambda>maps. bind (foldM (addInterface X)
          (Interfaces (initReporter c ud maps)) (initReporter c ud maps)) (openSockets X)))))"
      by (rule returns_bind_lift [of _ ud], simp add: MustParseAddr_def dst,
          rule returns_bind, rule initChannels_returns [OF size],
          rule returns_bind_lift [OF maps], rule returns_bindE,
          rule returns_addInterfaces [OF up], rule sockets)
  qed
qed

lemma NewIGMPReporter_returns:
  assumes "io_ok X" "metrics_fit X w" "channels_fit X c" "ParseAddr (UnicastDst c) = Some ud"
    "resolves X (InIntName c)" "resolves X (OutIntName c)"
    "has_alt c \<longrightarrow> resolves X (AltOutIntName c)"
  obtains r w' where "NewIGMPReporter X c w = (Inr r, w')"
  using newReporter_returns [OF assms(1,3-7)] assms(2) that
  unfolding returns_def NewIGMPReporter_apply by auto

lemma constructor_succeeds:
  assumes "io_ok X"
  shows "(\<exists>r w'. NewIGMPReporter X c w = (Inr r, w')) \<longleftrightarrow>
     metrics_fit X w \<and> channels_fit X c \<and> ParseAddr (UnicastDst c) \<noteq> None \<and>
     resolves X (InIntName c) \<and> resolves X (OutIntName c) \<and>
     (has_alt c \<longrightarrow> resolves X (AltOutIntName c))" (is "?l \<longleftrightarrow> ?r")
proof
  assume ?l
  then obtain r w' where new: "NewIGMPReporter X c w = (Inr r, w')" by blast
  then have fit: "metrics_fit X w" by (auto simp: NewIGMPReporter_apply split: if_splits)
  from new show ?r
  proof (rule NewIGMPReporter_decompose)
    fix ud maps u v r0
    assume ud: "MustParseAddr (UnicastDst c) = Inr ud" and ch: "initChannels X c u = (Inr (), v)"
      and alt: "has_alt c \<Longrightarrow> \<exists>ch. makechan (chanMax X 1) (ChannelSize c) = Inr ch \<and>
        OutInterfaceSelectorCh u = Some ch"
      and ifs: "foldM (addInterface X) (Interfaces (initReporter c ud maps)) (initReporter c ud maps) v
             = (Inr r0, v)"
    from foldM_addInterface_run [OF ifs] init_up [of c ud maps X]
    have "resolves X (InIntName c)" "resolves X (OutIntName c)"
      "has_alt c \<longrightarrow> resolves X (AltOutIntName c)" by blast+
    moreover from ud have "ParseAddr (UnicastDst c) \<noteq> None"
      by (auto simp: MustParseAddr_def split: option.splits)
    ultimately show ?thesis using initChannels_spec [OF ch] fit alt by (auto simp: channels_fit_def makechan_fresh)
  qed
next
  assume ?r
  then show ?l using NewIGMPReporter_returns [OF assms] by blast
qed

text \<open>
  C16: When no system call fails, the constructor succeeds for exactly the processes whose metrics
  registry takes the reporter's five collectors and the configurations with a
  channel size that is not negative and small enough for the runtime to make the channels, a parsable unicast destination, and inside, outside and (if named)
  alternative outside interfaces that exist and whose first address is an IP of 4 or 16 bytes;
  everything else ends the process.
\<close>
theorem NewIGMPReporter_succeeds_iff:
  assumes "io_ok X"
  shows "(\<exists>r w'. NewIGMPReporter X c w = (Inr r, w')) \<longleftrightarrow>
     metrics_fit X w \<and> channels_fit X c \<and> ParseAddr (UnicastDst c) \<noteq> None \<and>
     resolves X (InIntName c) \<and> resolves X (OutIntName c) \<and>
     (has_alt c \<longrightarrow> resolves X (AltOutIntName c))"
  using assms by (rule constructor_succeeds)

subsection \<open>Witnesses\<close>

lemma sample_io: "io_ok sample_externals"
  by (simp add: io_ok_def sample_externals_def)

lemma sample_resolves: "resolves sample_externals n"
  by (simp add: resolves_def sample_externals_def net_IPv4_def v4InV6Prefix_def)

lemma sample_parse: "ParseAddr ''10.99.0.1'' = Some (Addr4 10 99 0 1)"
  by code_simp

lemma sample_fit: "metrics_fit sample_externals sample_world"
  by (simp add: metrics_fit_def reporter_metrics_def sample_externals_def sample_registry_def
      sample_world_def metric_defs)

lemma sample_builds:
  assumes "0 \<le> ChannelSize c" "ChannelSize c \<le> 1000000" "UnicastDst c = ''10.99.0.1''"
  obtains r w' where "NewIGMPReporter sample_externals c sample_world = (Inr r, w')"
proof -
  have "channels_fit sample_externals c"
    using assms(1,2) by (simp add: channels_fit_def sample_externals_def)
  from NewIGMPReporter_returns [OF sample_io sample_fit this _ sample_resolves sample_resolves]
  show ?thesis using that sample_parse assms(3) sample_resolves by metis
qed

lemma sample_addr: "Addr_String (Addr6 sample_ip []) = ''::ffff:10.0.0.1''"
  by code_simp

lemma sample_netip: "netip2Addr (net_IPv4 10 0 0 1) = Inr (Addr6 sample_ip [])"
  by (simp add: netip2Addr_Inr sample_ip_def net_IPv4_def v4InV6Prefix_def)

lemmas sample_host_defs = newReporter_def bind_lift has_alt_def sample_config_def MustParseAddr_def
  sample_parse initChannels_def makechan_def makeIPMaps_eq initReporter_def addInterface_def
  getInterfaceHandle_def sample_externals_def sample_netip Let_def

lemmas sample_open_defs = openSockets_def openForUnicastProxy_def openForNotify_def openForOutToIn_def
  openForInToOut_def openUnicastPacketConn_def bind_apply ioOrFatal_apply openRawIfNil_def
  openRawConnection_def sample_addr

lemmas sample_group_defs = openRawIfNil_def openRawConnection_def createPacketConns_def
  the_multicastGroups_def createPacketConns_group_def groupAddr_def openPacketMulticastPacketConn_def
  bind_apply ioOrFatal_apply Let_def sample_world_def

lemmas sample_result_defs = sample_reporter_def sample_running_def sample_world_def sample_config_def
  igmpTTLCst_def sample_chan_def the_multicastGroups_def sample_socket_defs

lemma sample_constructed:
  "NewIGMPReporter sample_externals sample_config sample_world = (Inr sample_reporter, sample_running)"
  apply (simp add: NewIGMPReporter_apply sample_fit)
  apply (simp add: sample_host_defs)
  apply (simp add: sample_open_defs del: Addr_String.simps)
  apply (simp add: sample_group_defs)
  apply (simp add: sample_result_defs)
  done

lemma sample_full_constructed:
  "NewIGMPReporter sample_externals sample_full sample_world =
     (Inr sample_full_reporter, sample_full_running)"
  apply (simp add: NewIGMPReporter_apply sample_fit)
  apply (simp add: sample_host_defs sample_full_def)
  apply (simp add: sample_open_defs del: Addr_String.simps)
  apply (simp add: sample_group_defs)
  apply (simp add: sample_result_defs sample_full_reporter_def sample_full_def sample_full_running_def)
  done

lemma sample_watch_constructed:
  "NewIGMPReporter sample_externals sample_watch sample_world = (Inr sample_watch_reporter, sample_running)"
  apply (simp add: NewIGMPReporter_apply sample_fit)
  apply (simp add: sample_host_defs sample_watch_def)
  apply (simp add: sample_open_defs del: Addr_String.simps)
  apply (simp add: sample_group_defs)
  apply (simp add: sample_result_defs sample_watch_reporter_def sample_watch_def)
  done

theorem NewIGMPReporter_sockets_witness:
  "\<exists>r w'. NewIGMPReporter sample_externals sample_alt sample_world = (Inr r, w') \<and>
     conRaw r IN \<noteq> None \<and> conRaw r OUT \<noteq> None \<and> conRaw r ALTOUT = None \<and>
     mConn r ALTOUT allHosts \<noteq> None"
proof -
  obtain r w' where run: "NewIGMPReporter sample_externals sample_alt sample_world = (Inr r, w')"
    by (rule sample_builds [of sample_alt]) (simp_all add: sample_defs)
  have "IN \<in> raws_of sample_alt" "OUT \<in> raws_of sample_alt" "ALTOUT \<in> joins_of sample_alt"
    by (simp_all add: raws_of_def joins_of_def has_alt_def sample_defs)
  with run NewIGMPReporter_sockets [OF run] show ?thesis
    by (auto simp: the_multicastGroups_def)
qed

theorem NewIGMPReporter_succeeds_iff_witness:
  "\<exists>r w'. NewIGMPReporter sample_externals sample_client sample_world = (Inr r, w')"
  unfolding NewIGMPReporter_succeeds_iff [OF sample_io]
  by (simp add: channels_fit_def sample_fit [unfolded sample_defs] sample_defs sample_parse sample_resolves [unfolded sample_externals_def])

end
