(* ===== verification/Recv.thy ===== *)
theory Recv
  imports Construct
begin

text \<open>
  The multicast receiver of goIGMP_recv.go: one goroutine per side and group. A turn of its
  loop has two parts, with the blocking \<open>ReadFrom\<close> between them: \<open>recvIGMP_begin\<close> (deadline
  and buffer) and \<open>recvIGMP_handle\<close> (everything done with the result of the read). The
  handler is written in the source's stages: the filters, the switch on the message type, the
  proxying. The receiver \<open>r\<close> is the goroutine's own copy; the query branch writes to its
  \<open>querierSourceIP\<close>, so the handler returns the copy.
\<close>

subsection \<open>Whether to proxy, whether to ignore\<close>

definition proxyIt :: "IGMPReporter \<Rightarrow> side \<Rightarrow> bool" where
  "proxyIt r interf =
     (if interf = OUT then ProxyOutToIn (conf r)
      else if interf = IN then ProxyInToOut (conf r)
      else False)"

definition ignoreOnNonActiveOutOrAltInterface :: "IGMPReporter \<Rightarrow> side \<Rightarrow> bool act" where
  "ignoreOnNonActiveOutOrAltInterface r interf =
     (if get0 False (OutsideInterfaces r) interf then
        bind (reads IntOutName) (\<lambda>m.
        case m IN of
          None \<Rightarrow>
            bind (incC [''ignoreOnNonActiveOutOrAltInterface'', ''Load'', ''error'']) (\<lambda>_. ret True)
        | Some out \<Rightarrow>
            if interf \<noteq> out then
              bind (incC [''ignoreOnNonActiveOutOrAltInterface'', ''ignore'', ''count''])
                (\<lambda>_. ret True)
            else ret False)
      else ret False)"

subsection \<open>IGMPv3 group records\<close>

definition groupRecord_item :: "IGMPv3GroupRecord \<Rightarrow> fatal + MembershipItem" where
  "groupRecord_item gr =
     (case mapE netip2Addr (gr_SourceAddresses gr) of
        Inl e \<Rightarrow> Inl (LogFatal ''recvIGMP netip2Addr(sa) err'')
      | Inr srcs \<Rightarrow>
     (case netip2Addr (gr_MulticastAddress gr) of
        Inl e \<Rightarrow> Inl (LogFatal ''recvIGMP netip2Addr(sa) err'')
      | Inr na \<Rightarrow> Inr \<lparr>Sources = srcs, Group = na\<rparr>))"

definition IGMPv3GroupRecordsToMembershipItem ::
    "IGMPv3GroupRecord list \<Rightarrow> MembershipItem list act" where
  "IGMPv3GroupRecordsToMembershipItem groupRecords =
     bind (incC [''IGMPv3GroupRecordsToMembershipItem'', ''start'', ''count'']) (\<lambda>_.
     bind (lift (mapE groupRecord_item groupRecords)) (\<lambda>mitems.
     bind (observeH [''IGMPv3GroupRecordsToMembershipItem'', ''start'', ''complete'']) (\<lambda>_.
     ret mitems)))"

subsection \<open>Non-blocking notification of the client\<close>

definition notifyQuery :: "IGMPReporter \<Rightarrow> side \<Rightarrow> destIP \<Rightarrow> unit act" where
  "notifyQuery r interf g =
     (if QueryNotify (conf r) then
        bind (\<lambda>w. let (sent, ch) = try_send_ref () (QueryNotifyCh w)
                  in (Inr sent, w\<lparr>QueryNotifyCh := ch\<rparr>)) (\<lambda>sent.
        incR [''QueryNotifyCh'', side_String interf, groupString r g, if sent then ''counter'' else ''error''])
      else ret ())"

definition notifyReports ::
    "IGMPReporter \<Rightarrow> side \<Rightarrow> destIP \<Rightarrow> MembershipItem list \<Rightarrow> unit act" where
  "notifyReports r interf g mitems =
     (if MembershipReportsFromNetwork (conf r) then
        bind (\<lambda>w. let (sent, ch) = try_send_ref mitems (MembershipReportFromNetworkCh w)
                  in (Inr sent, w\<lparr>MembershipReportFromNetworkCh := ch\<rparr>)) (\<lambda>sent.
        incR [''MembershipReportFromNetworkCh'', side_String interf, groupString r g, if sent then ''counter'' else ''error''])
      else ret ())"

subsection \<open>The handler\<close>

text \<open>The filters; the answer is whether the packet goes on.\<close>

definition recvIGMP_filter ::
    "IGMPReporter \<Rightarrow> side \<Rightarrow> destIP \<Rightarrow> nat \<Rightarrow> ControlMessage option \<Rightarrow> goval \<Rightarrow> bool act" where
  "recvIGMP_filter r interf g buf cm src =
     bind (if AltOutExists r then ignoreOnNonActiveOutOrAltInterface r interf else ret False) (\<lambda>ignore.
     if ignore then bind (poolPut buf) (\<lambda>_. ret False)
     else case cm of None \<Rightarrow> die (Panic ''nil *ipv4.ControlMessage'')
     | Some m \<Rightarrow>
       if get0 0 (NetIFIndex r) (cm_IfIndex m) \<noteq> interf then
         bind (seqs [incR [''interf'', side_String interf, groupString r g, ''ignore''], poolPut buf]) (\<lambda>_. ret False)
       else if DeepEqual src (GIP (get0 [] (NetIP r) interf)) then
         bind (seqs [incR [''srcSelf'', side_String interf, groupString r g, ''ignore''], poolPut buf]) (\<lambda>_. ret False)
       else case netip2Addr (cm_Dst m) of
         Inl e \<Rightarrow> die (LogFatal ''recvIGMP mapNetAddrtoIP err:'')
       | Inr dstAddr \<Rightarrow>
           if dstAddr \<noteq> groupAddr r g then
             bind (seqs [incR [''dstAddr'', side_String interf, groupString r g, ''ignore''], poolPut buf]) (\<lambda>_. ret False)
           else ret True)"

text \<open>The switch on the type; \<open>None\<close> is the \<open>continue\<close> of the failed cast.\<close>

definition recvIGMP_switch ::
    "IGMPReporter \<Rightarrow> side \<Rightarrow> destIP \<Rightarrow> nat \<Rightarrow> ControlMessage \<Rightarrow> u8 \<Rightarrow> gopacket_layer \<Rightarrow>
     IGMPReporter option act" where
  "recvIGMP_switch r interf g buf m igmpType igmpLayer =
     (if igmpType = IGMPMembershipQuery then
        bind (incR [''IGMPMembershipQuery'', side_String interf, groupString r g, ''counter'']) (\<lambda>_.
        bind (case netip2Addr (cm_Src m) of
                Inl e \<Rightarrow> bind (incR [''srcNetip2Addr'', side_String interf, groupString r g, ''error'']) (\<lambda>_. ret AddrZero)
              | Inr srcIP \<Rightarrow> ret srcIP) (\<lambda>srcIP.
        let r' = r\<lparr>querierSourceIP := srcIP\<rparr> in
        bind (notifyQuery r' interf g) (\<lambda>_. ret (Some r'))))
      else if igmpType = IGMPMembershipReportV2 then
        bind (incR [''IGMPMembershipReportV2'', side_String interf, groupString r g, ''counter'']) (\<lambda>_.
        case igmpLayer of
          LayerV1or2 ig \<Rightarrow>
            (case netip2Addr (ig_GroupAddress ig) of
               Inl e \<Rightarrow> die (LogFatal ''recvIGMP netip2Addr(sa) err'')
             | Inr na \<Rightarrow>
                 bind (notifyReports r interf g [\<lparr>Sources = [], Group = na\<rparr>]) (\<lambda>_. ret (Some r)))
        | _ \<Rightarrow> bind (incC [''recvIGMP'', ''cast'', ''error'']) (\<lambda>_.
                 die (Panic ''nil *layers.IGMPv1or2'')))
      else if igmpType = IGMPMembershipReportV3 then
        (case igmpLayer of
           LayerIGMP grs \<Rightarrow>
             bind (IGMPv3GroupRecordsToMembershipItem grs) (\<lambda>mitems.
             bind (notifyReports r interf g mitems) (\<lambda>_. ret (Some r)))
         | _ \<Rightarrow> bind (seqs [incR [''typeCast'', side_String interf, groupString r g, ''error''], poolPut buf]) (\<lambda>_. ret None))
      else
        bind (incR [''WrongType'', side_String interf, groupString r g, ''error'']) (\<lambda>_. ret (Some r)))"

text \<open>Proxying; the answer is whether the turn reached its end (the histograms).\<close>

definition recvIGMP_proxy ::
    "externals \<Rightarrow> IGMPReporter \<Rightarrow> side \<Rightarrow> destIP \<Rightarrow> nat \<Rightarrow> bool act" where
  "recvIGMP_proxy X r interf g buf =
     (if proxyIt r interf then
        bind (incR [''proxyIt'', side_String interf, groupString r g, ''counter'']) (\<lambda>_.
        bind (reads (\<lambda>w. length (heap w buf))) (\<lambda>n.
        bind (addR [''proxyIt'', side_String interf, groupString r g, ''bytes''] n) (\<lambda>_.
        bind (reads IntOutName) (\<lambda>m.
        case m interf of
          None \<Rightarrow> bind (seqs [incC [''recvIGMP'', ''Load'', ''error''], poolPut buf]) (\<lambda>_. ret False)
        | Some out \<Rightarrow>
            bind (proxy X r out g buf) (\<lambda>_.
            bind (poolPut buf) (\<lambda>_. ret True))))))
      else ret True)"

text \<open>What follows a packet that passed the filters: decoding, switch, proxying.\<close>

definition recvIGMP_packet ::
    "externals \<Rightarrow> IGMPReporter \<Rightarrow> side \<Rightarrow> destIP \<Rightarrow> nat \<Rightarrow> ControlMessage \<Rightarrow> IGMPReporter act" where
  "recvIGMP_packet X r interf g buf m =
     bind (reads (\<lambda>w. heap w buf)) (\<lambda>b.
     case b of
       [] \<Rightarrow> die (Panic ''index out of range'')
     | igmpType # _ \<Rightarrow>
     bind (incC [''recvIGMP'', igmpTypeString X igmpType, ''count'']) (\<lambda>_.
     case decodeIGMP X b of
       None \<Rightarrow> bind (seqs [incR [''deserializing'', side_String interf, groupString r g, ''error''], poolPut buf]) (\<lambda>_. ret r)
     | Some igmpLayer \<Rightarrow>
         bind (recvIGMP_switch r interf g buf m igmpType igmpLayer) (\<lambda>sw.
         case sw of
           None \<Rightarrow> ret r
         | Some r' \<Rightarrow>
             bind (recvIGMP_proxy X r' interf g buf) (\<lambda>finished.
             if finished then
               bind (seqs [observeR [''sincePacketStartTime'', side_String interf, groupString r' g, ''counter''],
                           observeR [''sinceLoopStartTime'', side_String interf, groupString r' g, ''counter'']]) (\<lambda>_. ret r')
             else ret r'))))"

definition recvIGMP_handle ::
    "externals \<Rightarrow> side \<Rightarrow> destIP \<Rightarrow> nat \<Rightarrow> read_result \<Rightarrow> IGMPReporter \<Rightarrow> IGMPReporter act" where
  "recvIGMP_handle X interf g buf res r =
     (case res of
        ReadTimeout \<Rightarrow>
          bind (seqs [incR [''timeout'', side_String interf, groupString r g, ''counter''], poolPut buf]) (\<lambda>_. ret r)
      | ReadError \<Rightarrow>
          bind (seqs [incR [''ReadFrom'', side_String interf, groupString r g, ''error''], poolPut buf]) (\<lambda>_. ret r)
      | ReadOk pkt cm src \<Rightarrow>
          bind (readInto buf pkt) (\<lambda>n.
          bind (addR [''n'', side_String interf, groupString r g, ''counter''] n) (\<lambda>_.
          bind (recvIGMP_filter r interf g buf cm src) (\<lambda>goOn.
          if goOn then (case cm of None \<Rightarrow> ret r | Some m \<Rightarrow> recvIGMP_packet X r interf g buf m)
          else ret r))))"

text \<open>The part of a turn before the read, the context not being cancelled.\<close>

definition recvIGMP_begin ::
    "externals \<Rightarrow> side \<Rightarrow> destIP \<Rightarrow> nat \<Rightarrow> IGMPReporter \<Rightarrow> nat act" where
  "recvIGMP_begin X interf g pick r =
     bind (incR [''loop'', side_String interf, groupString r g, ''counter'']) (\<lambda>_.
     case mConn r interf g of
       None \<Rightarrow> die (Panic ''nil *ipv4.PacketConn'')
     | Some c \<Rightarrow>
         bind (ioOrFatal X ''recvIGMP SetReadDeadline err:'') (\<lambda>_.
         poolGet pick))"

definition recvIGMP_turn ::
    "externals \<Rightarrow> side \<Rightarrow> destIP \<Rightarrow> nat \<Rightarrow> read_result \<Rightarrow> IGMPReporter \<Rightarrow> IGMPReporter act" where
  "recvIGMP_turn X interf g pick res r =
     bind (recvIGMP_begin X interf g pick r) (\<lambda>buf. recvIGMP_handle X interf g buf res r)"

subsection \<open>Frames\<close>

lemma keeps_try_notify [pres]:
  "(\<And>w x. f (w\<lparr>QueryNotifyCh := x\<rparr>) = f w) \<Longrightarrow>
   keeps f (\<lambda>w. let (sent, ch) = try_send_ref x (QueryNotifyCh w) in (Inr sent, w\<lparr>QueryNotifyCh := ch\<rparr>))"
  by (simp add: keeps_def Let_def split: prod.splits)

lemma keeps_try_reports [pres]:
  "(\<And>w x. f (w\<lparr>MembershipReportFromNetworkCh := x\<rparr>) = f w) \<Longrightarrow>
   keeps f (\<lambda>w. let (sent, ch) = try_send_ref x (MembershipReportFromNetworkCh w)
                in (Inr sent, w\<lparr>MembershipReportFromNetworkCh := ch\<rparr>))"
  by (simp add: keeps_def Let_def split: prod.splits)

lemma keeps_filter_any:
  assumes "\<And>w x. f (w\<lparr>pC := x\<rparr>) = f w" "\<And>w x. f (w\<lparr>pCrecvIGMP := x\<rparr>) = f w"
    "\<And>w x. f (w\<lparr>bytePool := x\<rparr>) = f w"
  shows "keeps f (recvIGMP_filter r interf g buf cm src)"
  unfolding recvIGMP_filter_def ignoreOnNonActiveOutOrAltInterface_def
  by (intro pres assms) (simp_all add: pres assms del: seqs.simps)

text \<open>A field that receiving touches only through the buffers and the sends.\<close>

definition recv_frame :: "(world \<Rightarrow> 'b) \<Rightarrow> bool" where
  "recv_frame f \<longleftrightarrow>
     (\<forall>w x. f (w\<lparr>pC := x\<rparr>) = f w) \<and> (\<forall>w x. f (w\<lparr>pH := x\<rparr>) = f w) \<and>
     (\<forall>w x. f (w\<lparr>pCrecvIGMP := x\<rparr>) = f w) \<and> (\<forall>w x. f (w\<lparr>pHrecvIGMP := x\<rparr>) = f w) \<and>
     (\<forall>w x. f (w\<lparr>QueryNotifyCh := x\<rparr>) = f w) \<and>
     (\<forall>w x. f (w\<lparr>MembershipReportFromNetworkCh := x\<rparr>) = f w)"

lemma recv_frame_simps [pres]:
  assumes "recv_frame f"
  shows "f (w\<lparr>pC := a\<rparr>) = f w" "f (w\<lparr>pH := a\<rparr>) = f w" "f (w\<lparr>pCrecvIGMP := a\<rparr>) = f w"
    "f (w\<lparr>pHrecvIGMP := a\<rparr>) = f w" "f (w\<lparr>QueryNotifyCh := q\<rparr>) = f w"
    "f (w\<lparr>MembershipReportFromNetworkCh := m\<rparr>) = f w"
  using assms by (simp_all add: recv_frame_def)

lemma keeps_layer [pres]:
  "(\<And>ig. keeps g (m1 ig)) \<Longrightarrow> (\<And>grs. keeps g (m2 grs)) \<Longrightarrow> keeps g m3 \<Longrightarrow>
   keeps g (case l of LayerV1or2 ig \<Rightarrow> m1 ig | LayerIGMP grs \<Rightarrow> m2 grs | LayerOther \<Rightarrow> m3)"
  by (cases l) auto

lemma keeps_list [pres]:
  "keeps g m1 \<Longrightarrow> (\<And>x xs. keeps g (m2 x xs)) \<Longrightarrow> keeps g (case l of [] \<Rightarrow> m1 | x # xs \<Rightarrow> m2 x xs)"
  by (cases l) auto

lemma keeps_ignore [pres]:
  "recv_frame f \<Longrightarrow> keeps f (ignoreOnNonActiveOutOrAltInterface r interf)"
  unfolding ignoreOnNonActiveOutOrAltInterface_def by (intro pres)

lemma keeps_notifyQuery [pres]: "recv_frame f \<Longrightarrow> keeps f (notifyQuery r interf g)"
  unfolding notifyQuery_def by (intro pres)

lemma keeps_notifyReports [pres]: "recv_frame f \<Longrightarrow> keeps f (notifyReports r interf g ms)"
  unfolding notifyReports_def by (intro pres)

lemma keeps_records [pres]: "recv_frame f \<Longrightarrow> keeps f (IGMPv3GroupRecordsToMembershipItem grs)"
  unfolding IGMPv3GroupRecordsToMembershipItem_def by (intro pres)

lemma keeps_filter [pres]:
  assumes "recv_frame f" "\<And>w x. f (w\<lparr>bytePool := x\<rparr>) = f w"
  shows "keeps f (recvIGMP_filter r interf g buf cm src)"
  unfolding recvIGMP_filter_def using assms
  by (intro pres) (simp_all add: pres)

lemma keeps_switch [pres]:
  assumes "recv_frame f" "\<And>w x. f (w\<lparr>bytePool := x\<rparr>) = f w"
  shows "keeps f (recvIGMP_switch r interf g buf m t l)"
  unfolding recvIGMP_switch_def using assms
  by (intro pres) (simp_all add: pres)

lemma keeps_recv_proxy [pres]:
  assumes "recv_frame f" "send_frame f" "\<And>w x. f (w\<lparr>bytePool := x\<rparr>) = f w"
  shows "keeps f (recvIGMP_proxy X r interf g buf)"
  unfolding recvIGMP_proxy_def using assms
  by (intro pres) (simp_all add: pres)

lemma keeps_packet [pres]:
  assumes "recv_frame f" "send_frame f" "\<And>w x. f (w\<lparr>bytePool := x\<rparr>) = f w"
  shows "keeps f (recvIGMP_packet X r interf g buf m)"
  unfolding recvIGMP_packet_def using assms
  by (intro pres) (simp_all add: pres)

lemma keeps_handle [pres]:
  assumes "recv_frame f" "send_frame f" "\<And>w x. f (w\<lparr>bytePool := x\<rparr>) = f w"
    "\<And>w x. f (w\<lparr>heap := x\<rparr>) = f w"
  shows "keeps f (recvIGMP_handle X interf g buf res r)"
proof (cases res)
  case (ReadOk pkt cm src)
  then show ?thesis
    unfolding recvIGMP_handle_def using assms
    by (simp only: read_result.case) (intro pres; simp)
qed (simp_all add: recvIGMP_handle_def pres recv_frame_simps [OF assms(1)] assms(3) del: seqs.simps)

lemma recv_frames [simp]:
  "recv_frame wire" "recv_frame heap" "recv_frame IntOutName" "recv_frame bytePool" "recv_frame nextBuf"
  "recv_frame bufstate" "recv_frame MembershipReportToNetworkCh" "recv_frame LeaveToNetworkCh"
  "recv_frame OutInterfaceSelectorCh" "recv_frame (\<lambda>w. heap w b)"
  by (simp_all add: recv_frame_def bufstate_def)

lemma send_frames [simp]:
  "send_frame heap" "send_frame IntOutName" "send_frame bytePool" "send_frame nextBuf"
  "send_frame bufstate" "send_frame MembershipReportToNetworkCh" "send_frame LeaveToNetworkCh"
  "send_frame OutInterfaceSelectorCh" "send_frame QueryNotifyCh"
  "send_frame MembershipReportFromNetworkCh" "send_frame (\<lambda>w. heap w b)"
  by (simp_all add: send_frame_def bufstate_def)

subsection \<open>What each stage decides\<close>

text \<open>The side is not a stood-down outside interface.\<close>

definition active :: "IGMPReporter \<Rightarrow> world \<Rightarrow> side \<Rightarrow> bool" where
  "active r w interf \<longleftrightarrow>
     \<not> AltOutExists r \<or> \<not> get0 False (OutsideInterfaces r) interf \<or> IntOutName w IN = Some interf"

text \<open>The packet is for this receiver: right interface, right group.\<close>

definition addressed :: "IGMPReporter \<Rightarrow> side \<Rightarrow> destIP \<Rightarrow> ControlMessage \<Rightarrow> bool" where
  "addressed r interf g m \<longleftrightarrow>
     get0 0 (NetIFIndex r) (cm_IfIndex m) = interf \<and> netip2Addr (cm_Dst m) = Inr (groupAddr r g)"

lemma ignore_spec:
  "(if AltOutExists r then ignoreOnNonActiveOutOrAltInterface r interf else ret False) w = (Inr b, w')
     \<Longrightarrow> b \<longleftrightarrow> \<not> active r w interf"
  by (auto simp: ignoreOnNonActiveOutOrAltInterface_def active_def bind_apply incC_def
      split: if_splits option.splits)

lemma ignore_False:
  "(if AltOutExists r then ignoreOnNonActiveOutOrAltInterface r interf else ret False) w = (Inr False, w')
     \<Longrightarrow> w' = w"
  by (auto simp: ignoreOnNonActiveOutOrAltInterface_def bind_apply incC_def
      split: if_splits option.splits)

lemma filter_eq:
  "recvIGMP_filter r interf g buf (Some m) (GAddr a) =
     bind (if AltOutExists r then ignoreOnNonActiveOutOrAltInterface r interf else ret False) (\<lambda>b.
       if b then bind (poolPut buf) (\<lambda>_. ret False)
       else if get0 0 (NetIFIndex r) (cm_IfIndex m) \<noteq> interf then
         bind (seqs [incR [''interf'', side_String interf, groupString r g, ''ignore''], poolPut buf]) (\<lambda>_. ret False)
       else case netip2Addr (cm_Dst m) of
         Inl e \<Rightarrow> die (LogFatal ''recvIGMP mapNetAddrtoIP err:'')
       | Inr dstAddr \<Rightarrow>
           if dstAddr \<noteq> groupAddr r g then
             bind (seqs [incR [''dstAddr'', side_String interf, groupString r g, ''ignore''], poolPut buf]) (\<lambda>_. ret False)
           else ret True)"
  by (simp add: recvIGMP_filter_def cong: if_cong)

lemma filter_spec:
  assumes "recvIGMP_filter r interf g buf (Some m) (GAddr a) w = (Inr goOn, w')"
  shows "goOn \<longleftrightarrow> active r w interf \<and> addressed r interf g m"
proof -
  from assms [unfolded filter_eq] obtain b u where
    ig: "(if AltOutExists r then ignoreOnNonActiveOutOrAltInterface r interf else ret False) w = (Inr b, u)"
    and rest: "(if b then bind (poolPut buf) (\<lambda>_. ret False)
      else if get0 0 (NetIFIndex r) (cm_IfIndex m) \<noteq> interf then
         bind (seqs [incR [''interf'', side_String interf, groupString r g, ''ignore''], poolPut buf]) (\<lambda>_. ret False)
       else case netip2Addr (cm_Dst m) of
         Inl e \<Rightarrow> die (LogFatal ''recvIGMP mapNetAddrtoIP err:'')
       | Inr dstAddr \<Rightarrow>
           if dstAddr \<noteq> groupAddr r g then
             bind (seqs [incR [''dstAddr'', side_String interf, groupString r g, ''ignore''], poolPut buf]) (\<lambda>_. ret False)
           else ret True) u = (Inr goOn, w')"
    unfolding bind_eq_Inr [of "if _ then _ else _"] by blast
  from rest ignore_spec [OF ig] show ?thesis
    by (auto simp: addressed_def bind_eq_Inr split: if_splits sum.splits)
qed

lemma filter_True:
  assumes "recvIGMP_filter r interf g buf cm src w = (Inr True, w')"
  shows "w' = w \<and> cm \<noteq> None"
proof (cases cm)
  case None
  with assms show ?thesis
    by (auto simp: recvIGMP_filter_def bind_eq_Inr split: if_splits)
next
  case (Some m)
  from assms obtain u where
    "(if AltOutExists r then ignoreOnNonActiveOutOrAltInterface r interf else ret False) w = (Inr False, u)"
    and "w' = u"
    unfolding recvIGMP_filter_def bind_eq_Inr Some
    by (auto split: if_splits sum.splits simp: bind_eq_Inr)
  with ignore_False Some show ?thesis by blast
qed

lemma switch_None:
  "recvIGMP_switch r interf g buf m t l w = (Inr None, w') \<Longrightarrow>
     t = IGMPMembershipReportV3 \<and> (\<forall>grs. l \<noteq> LayerIGMP grs)"
  unfolding recvIGMP_switch_def
  by (auto simp: bind_eq_Inr Let_def split: if_splits gopacket_layer.splits sum.splits)

lemma switch_Some:
  "recvIGMP_switch r interf g buf m t l w = (Inr (Some r'), w') \<Longrightarrow>
     (t = IGMPMembershipReportV3 \<longrightarrow> (\<exists>grs. l = LayerIGMP grs)) \<and>
     r' = (if t = IGMPMembershipQuery
           then r\<lparr>querierSourceIP := (case netip2Addr (cm_Src m) of Inl e \<Rightarrow> AddrZero | Inr a \<Rightarrow> a)\<rparr>
           else r)"
  unfolding recvIGMP_switch_def
  by (auto simp: bind_eq_Inr Let_def igmp_type_defs split: if_splits gopacket_layer.splits sum.splits)

lemma recv_proxy_spec:
  assumes "recvIGMP_proxy X r interf g buf w = (Inr b, w')"
  shows "if proxyIt r interf then
           (case IntOutName w interf of
              None \<Rightarrow> \<not> b \<and> wire w' = wire w
            | Some out \<Rightarrow> b \<and> conRaw r out \<noteq> None \<and>
                (\<exists>h. ipv4Header X r (length (heap w buf)) g = Inr h \<and>
                     wire w' = wire w @ [dgram r out h (heap w buf)]))
         else b \<and> wire w' = wire w"
proof (cases "proxyIt r interf")
  case False
  with assms show ?thesis by (auto simp: recvIGMP_proxy_def)
next
  case True
  obtain u where u: "bind (incR [''proxyIt'', side_String interf, groupString r g, ''counter'']) (\<lambda>_.
      bind (reads (\<lambda>w. length (heap w buf))) (\<lambda>n. addR [''proxyIt'', side_String interf, groupString r g, ''bytes''] n)) w = (Inr (), u)"
    and same: "wire u = wire w" "heap u = heap w" "IntOutName u = IntOutName w"
    by (auto simp: incR_def addR_def bind_apply)
  from True assms u have rest: "(case IntOutName u interf of
          None \<Rightarrow> bind (seqs [incC [''recvIGMP'', ''Load'', ''error''], poolPut buf]) (\<lambda>_. ret False)
        | Some out \<Rightarrow>
            bind (proxy X r out g buf) (\<lambda>_. bind (poolPut buf) (\<lambda>_. ret True))) u = (Inr b, w')"
    using same(3) unfolding recvIGMP_proxy_def by (simp add: incR_def addR_def)
  show ?thesis
  proof (cases "IntOutName u interf")
    case None
    with rest True same show ?thesis
      by (auto simp: bind_eq_Inr incC_def poolPut_def)
  next
    case (Some out)
    with rest obtain v where p: "proxy X r out g buf u = (Inr (), v)" and "b"
      and "w' = v\<lparr>bytePool := buf # bytePool v\<rparr>"
      by (auto simp: bind_eq_Inr poolPut_def)
    with proxy_cases [OF p] True Some same show ?thesis by auto
  qed
qed

subsection \<open>The relay\<close>

text \<open>
  The specification of the relay, as a function of the receiver, the shared state and the
  packet: the side the packet is forwarded to, if any.
\<close>

definition relay_target ::
    "externals \<Rightarrow> IGMPReporter \<Rightarrow> world \<Rightarrow> side \<Rightarrow> destIP \<Rightarrow> bytes \<Rightarrow> ControlMessage \<Rightarrow> side option" where
  "relay_target X r w interf g b m =
     (if active r w interf \<and> addressed r interf g m \<and> proxyIt r interf then
        (case decodeIGMP X b of
           None \<Rightarrow> None
         | Some l \<Rightarrow>
             if take 1 b = [IGMPMembershipReportV3] \<and> (\<forall>grs. l \<noteq> LayerIGMP grs) then None
             else IntOutName w interf)
      else None)"

lemma ipv4Header_dest:
  "dest \<noteq> QueryHost \<Longrightarrow>
   ipv4Header X r n dest = Inr (ipv4HeaderNetIP X n (get0 [] (mapIPtoNetIP r) dest))"
  by (simp add: ipv4Header_def destinationNetIP_def ipv4HeaderNetIP_def)

lemma proxyIt_querier [simp]: "proxyIt (r\<lparr>querierSourceIP := a\<rparr>) = proxyIt r"
  by (simp add: proxyIt_def fun_eq_iff)

text \<open>The three ways a packet that passed the filters is handled.\<close>

lemma packet_cases:
  assumes run: "recvIGMP_packet X r i g buf m w = (Inr r', w')"
  obtains (undecoded) t ts u where "heap w buf = t # ts" "decodeIGMP X (t # ts) = None" "r' = r"
      "u = w\<lparr>pC := bump [''recvIGMP'', igmpTypeString X t, ''count''] 1 (pC w)\<rparr>"
      "seqs [incR [''deserializing'', side_String i, groupString r g, ''error''], poolPut buf] u = (Inr (), w')"
    | (cast) t ts l u where "heap w buf = t # ts" "decodeIGMP X (t # ts) = Some l" "r' = r"
      "u = w\<lparr>pC := bump [''recvIGMP'', igmpTypeString X t, ''count''] 1 (pC w)\<rparr>"
      "recvIGMP_switch r i g buf m t l u = (Inr None, w')"
    | (handled) t ts l u v f x where "heap w buf = t # ts" "decodeIGMP X (t # ts) = Some l"
      "u = w\<lparr>pC := bump [''recvIGMP'', igmpTypeString X t, ''count''] 1 (pC w)\<rparr>"
      "recvIGMP_switch r i g buf m t l u = (Inr (Some r'), v)"
      "recvIGMP_proxy X r' i g buf v = (Inr f, x)" "\<exists>h. w' = x\<lparr>pHrecvIGMP := h\<rparr>"
proof -
  from run obtain t ts where b: "heap w buf = t # ts"
    by (auto simp: recvIGMP_packet_def split: list.splits)
  define u where "u = w\<lparr>pC := bump [''recvIGMP'', igmpTypeString X t, ''count''] 1 (pC w)\<rparr>"
  show ?thesis
  proof (cases "decodeIGMP X (t # ts)")
    case None
    with run b have "bind (seqs [incR [''deserializing'', side_String i, groupString r g, ''error''], poolPut buf]) (\<lambda>_. ret r) u
        = (Inr r', w')"
      by (simp add: recvIGMP_packet_def bind_incC u_def del: seqs.simps)
    with b None u_def show ?thesis
      by (intro undecoded) (auto simp: bind_eq_Inr simp del: seqs.simps)
  next
    case (Some l)
    with run b obtain sw v where sw: "recvIGMP_switch r i g buf m t l u = (Inr sw, v)"
      and rest: "(case sw of None \<Rightarrow> ret r
         | Some r1 \<Rightarrow> bind (recvIGMP_proxy X r1 i g buf) (\<lambda>finished.
             if finished then bind (seqs [observeR [''sincePacketStartTime'', side_String i, groupString r1 g, ''counter''],
                           observeR [''sinceLoopStartTime'', side_String i, groupString r1 g, ''counter'']]) (\<lambda>_. ret r1)
             else ret r1)) v = (Inr r', w')"
      by (auto simp: recvIGMP_packet_def bind_incC bind_eq_Inr u_def simp del: seqs.simps)
    show ?thesis
    proof (cases sw)
      case None
      with rest sw b Some u_def show ?thesis by (intro cast) simp_all
    next
      case (Some r1)
      with rest obtain f x where p: "recvIGMP_proxy X r1 i g buf v = (Inr f, x)" and r1: "r1 = r'"
        and w': "w' = x \<or> (\<exists>h. w' = x\<lparr>pHrecvIGMP := h\<rparr>)"
        by (auto simp: bind_eq_Inr observeR_def split: if_splits)
      have "x = x\<lparr>pHrecvIGMP := pHrecvIGMP x\<rparr>" by simp
      with w' have "\<exists>h. w' = x\<lparr>pHrecvIGMP := h\<rparr>" by metis
      with \<open>decodeIGMP X (t # ts) = Some l\<close> Some sw b u_def p r1 show ?thesis by (intro handled) simp_all
    qed
  qed
qed

lemma packet_spec:
  assumes run: "recvIGMP_packet X r interf g buf m w = (Inr r', w')"
    and pass: "active r w interf" "addressed r interf g m" and g: "g \<noteq> QueryHost"
  shows "wire w' = wire w @
     (case relay_target X r w interf g (heap w buf) m of None \<Rightarrow> []
      | Some out \<Rightarrow> [dgram r out (ipv4HeaderNetIP X (length (heap w buf)) (get0 [] (mapIPtoNetIP r) g))
                      (heap w buf)]) \<and>
     (\<forall>out. relay_target X r w interf g (heap w buf) m = Some out \<longrightarrow> conRaw r out \<noteq> None)"
  using run
proof (cases rule: packet_cases)
  case (undecoded t ts u)
  then show ?thesis
    by (auto simp: relay_target_def incR_def poolPut_def)
next
  case (cast t ts l u)
  from keepsD [OF keeps_switch cast(5), of wire] cast(4) have "wire w' = wire w" by simp
  with switch_None [OF cast(5)] cast(1,2) show ?thesis by (auto simp: relay_target_def)
next
  case (handled t ts l u v f x)
  have same: "wire v = wire w" "heap v = heap w" "IntOutName v = IntOutName w"
    using handled(3) keepsD [OF keeps_switch handled(4), of wire]
      keepsD [OF keeps_switch handled(4), of heap] keepsD [OF keeps_switch handled(4), of IntOutName]
    by simp_all
  note sw = switch_Some [OF handled(4)]
  from sw have r': "r' = r \<or> (\<exists>q. r' = r\<lparr>querierSourceIP := q\<rparr>)"
    by (cases "t = IGMPMembershipQuery") auto
  from sw have l: "t = IGMPMembershipReportV3 \<longrightarrow> (\<exists>grs. l = LayerIGMP grs)" by blast
  from r' have eqs: "proxyIt r' = proxyIt r" "dgram r' = dgram r" "mapIPtoNetIP r' = mapIPtoNetIP r"
    "conRaw r' = conRaw r"
    by (auto simp: dgram_def [abs_def])
  from handled(6) have "wire w' = wire x" by auto
  with recv_proxy_spec [OF handled(5)] same eqs l handled(1,2) pass ipv4Header_dest [OF g]
  show ?thesis
    by (auto simp: relay_target_def split: if_splits option.splits)
qed

end
