(* ===== verification/Relay.thy ===== *)
theory Relay
  imports Recv
begin

text \<open>
  What the multicast receiver does with a packet, stated on whole turns of its loop: which
  packets are relayed, to which side and with which bytes; which are announced to the client;
  who owns the receive buffer; and which turns end the process.
\<close>

subsection \<open>The relay\<close>

lemma handle_packet:
  assumes "recvIGMP_handle X interf g buf (ReadOk pkt (Some m) (GAddr a)) r w = (Inr r', w')"
  obtains u goOn where
    "heap u = (heap w)(buf := overlay pkt (heap w buf))" "wire u = wire w"
    "IntOutName u = IntOutName w" "QueryNotifyCh u = QueryNotifyCh w"
    "MembershipReportFromNetworkCh u = MembershipReportFromNetworkCh w"
    "goOn \<longleftrightarrow> active r w interf \<and> addressed r interf g m"
    "\<not> goOn \<Longrightarrow> r' = r \<and> wire w' = wire u \<and> QueryNotifyCh w' = QueryNotifyCh u \<and>
       MembershipReportFromNetworkCh w' = MembershipReportFromNetworkCh u"
    "goOn \<Longrightarrow> recvIGMP_packet X r interf g buf m u = (Inr r', w')"
proof -
  let ?u = "w\<lparr>heap := (heap w)(buf := overlay pkt (heap w buf)),
      pCrecvIGMP := bump [''n'', side_String interf, groupString r g, ''counter'']
        (min (length (copied pkt)) (length (heap w buf))) (pCrecvIGMP w)\<rparr>"
  from assms obtain goOn v where
    fl: "recvIGMP_filter r interf g buf (Some m) (GAddr a) ?u = (Inr goOn, v)"
    and rest: "(if goOn then recvIGMP_packet X r interf g buf m else ret r) v = (Inr r', w')"
    by (auto simp: recvIGMP_handle_def bind_eq_Inr readInto_def addR_def cong: if_cong)
  have "active r ?u interf = active r w interf" by (simp add: active_def)
  note go = filter_spec [OF fl, unfolded this]
  have same: "wire v = wire w" "QueryNotifyCh v = QueryNotifyCh w"
      "MembershipReportFromNetworkCh v = MembershipReportFromNetworkCh w"
    using keepsD [OF keeps_filter_any fl, of wire] keepsD [OF keeps_filter_any fl, of QueryNotifyCh]
      keepsD [OF keeps_filter_any fl, of MembershipReportFromNetworkCh] by simp_all
  show ?thesis
    by (rule that [of ?u goOn]) (use go rest same filter_True [of r interf g buf "Some m" "GAddr a" ?u v] fl
        in \<open>auto split: if_splits\<close>)
qed

lemma relay_target_cong:
  "IntOutName u = IntOutName w \<Longrightarrow> relay_target X r u interf g b m = relay_target X r w interf g b m"
  by (simp only: relay_target_def active_def)

text \<open>The datagram a relay writes.\<close>

definition relayed :: "externals \<Rightarrow> IGMPReporter \<Rightarrow> side \<Rightarrow> destIP \<Rightarrow> bytes \<Rightarrow> datagram" where
  "relayed X r out g b = dgram r out (ipv4HeaderNetIP X (length b) (get0 [] (mapIPtoNetIP r) g)) b"

lemma handle_relay:
  assumes g: "g \<noteq> QueryHost"
    and run: "recvIGMP_handle X interf g buf (ReadOk pkt (Some m) (GAddr a)) r w = (Inr r', w')"
  shows "wire w' = wire w @
     (case relay_target X r w interf g (overlay pkt (heap w buf)) m of None \<Rightarrow> []
      | Some out \<Rightarrow> [relayed X r out g (overlay pkt (heap w buf))]) \<and>
     (\<forall>out. relay_target X r w interf g (overlay pkt (heap w buf)) m = Some out \<longrightarrow> conRaw r out \<noteq> None)"
proof (rule handle_packet [OF run])
  fix u goOn
  assume u: "heap u = (heap w)(buf := overlay pkt (heap w buf))" "wire u = wire w"
      "IntOutName u = IntOutName w"
    and go: "goOn \<longleftrightarrow> active r w interf \<and> addressed r interf g m"
    and no: "\<not> goOn \<Longrightarrow> r' = r \<and> wire w' = wire u \<and> QueryNotifyCh w' = QueryNotifyCh u \<and>
       MembershipReportFromNetworkCh w' = MembershipReportFromNetworkCh u"
    and yes: "goOn \<Longrightarrow> recvIGMP_packet X r interf g buf m u = (Inr r', w')"
  show ?thesis
  proof (cases goOn)
    case True
    then have "active r u interf" "addressed r interf g m" using go u(3) by (simp_all add: active_def)
    from packet_spec [OF yes [OF True] this g] show ?thesis
      by (auto simp: u relay_target_cong [OF u(3)] relayed_def split: option.splits)
  next
    case False
    with go have "relay_target X r w interf g b m = None" for b
      by (auto simp: relay_target_def)
    with no [OF False] u(2) show ?thesis by simp
  qed
qed

text \<open>
  C3: The relay. When the receiver of a side and a group has handled a packet, the wire has
  gained at most one datagram: one exactly if the side is not a stood-down outside interface,
  the packet came in on the side's own interface for the receiver's group, proxying is enabled
  for the side, the bytes decode as IGMP (with the layer the type needs) and the selector table
  has an output for the side. It goes out through that output, to the group itself, under the
  router-alert header, and its payload is the receive buffer the packet was written into.
\<close>
theorem recvIGMP_relay:
  assumes "g \<noteq> QueryHost"
    and "recvIGMP_handle X interf g buf (ReadOk pkt (Some m) (GAddr a)) r w = (Inr r', w')"
  shows "wire w' = wire w @
     (case relay_target X r w interf g (overlay pkt (heap w buf)) m of None \<Rightarrow> []
      | Some out \<Rightarrow> [relayed X r out g (overlay pkt (heap w buf))])"
  using handle_relay [OF assms] by simp

text \<open>
  C35: A relayed packet is not the packet that was received: the datagram always carries all 200
  bytes of the pooled buffer. Its front is the payload that was read, the rest is whatever
  \<open>ReadFrom\<close> left behind it, and the header's length counts both.
\<close>
theorem recvIGMP_relays_whole_buffer:
  assumes "g \<noteq> QueryHost" and "bufs_ok (buf # H) w" and "length (copied pkt) \<le> 200"
    and "recvIGMP_handle X interf g buf (ReadOk pkt (Some m) (GAddr a)) r w = (Inr r', w')"
    and "wire w' = wire w @ [d]"
  shows "dg_payload d = copied pkt @ map (behind pkt (heap w buf)) [length (copied pkt)..<200] \<and>
     length (dg_payload d) = 200 \<and> h_TotalLen (dg_hdr d) = ipv4_HeaderLen X + 200"
proof -
  have len: "length (heap w buf) = 200"
    using bufs_ok_length [OF assms(2)] by (simp add: maxIGMPPacketRecieveBytesCst_def)
  let ?b = "overlay pkt (heap w buf)"
  from handle_relay [OF assms(1,4)] assms(5) obtain out where "d = relayed X r out g ?b"
    by (auto split: option.splits)
  with len assms(3) show ?thesis
    by (simp_all add: relayed_def dgram_def ipv4HeaderNetIP_def overlay_short)
qed

text \<open>
  C40: The filter for packets from the reporter itself never applies: it compares a \<open>net.Addr\<close>
  with a \<open>net.IP\<close>, which have different dynamic types, so a turn does the same whatever the
  source address of the packet is.
\<close>
theorem recvIGMP_source_irrelevant:
  "recvIGMP_handle X interf g buf (ReadOk pkt cm (GAddr a)) =
   recvIGMP_handle X interf g buf (ReadOk pkt cm (GAddr b))"
  unfolding recvIGMP_handle_def recvIGMP_filter_def
  by (simp only: read_result.case DeepEqual_addr_ip if_False)

text \<open>
  The receiver of the alternative outside interface never relays, in either direction and
  whatever the configuration: \<open>proxyIt\<close> knows only the sides OUT and IN.
\<close>
theorem recvIGMP_altout_never_relays:
  "wire (snd (recvIGMP_handle X ALTOUT g buf res r w)) = wire w"
proof -
  have quiet: "keeps wire (recvIGMP_packet X r ALTOUT g buf m)" for m
    unfolding recvIGMP_packet_def recvIGMP_proxy_def proxyIt_def
    by (intro pres) (simp_all add: pres keeps_observeR)
  have "keeps wire (recvIGMP_handle X ALTOUT g buf res r)"
    unfolding recvIGMP_handle_def
    by (cases res) (auto intro!: pres quiet simp del: seqs.simps split: option.splits)
  then show ?thesis by simp
qed

subsection \<open>Who owns the buffer\<close>

lemma keeps_bufs: "keeps bufstate m \<Longrightarrow> triple (bufs_ok H) m (\<lambda>_. bufs_ok H)"
  by (rule triple_preserves, rule preserves_bufs_ok)

lemma metric_put:
  assumes "keeps bufstate m"
  shows "triple (bufs_ok (b # H)) (bind (seqs [m, poolPut b]) (\<lambda>_. ret x)) (\<lambda>_. bufs_ok H)"
proof (rule triple_bind)
  show "triple (bufs_ok (b # H)) (seqs [m, poolPut b]) (\<lambda>_. bufs_ok H)"
    unfolding seqs.simps
    by (rule triple_bind, rule keeps_bufs [OF assms], rule triple_bind, rule poolPut_bufs_ok)
      (simp add: triple_ret)
qed (simp add: triple_ret)

lemma put_ret: "triple (bufs_ok (b # H)) (bind (poolPut b) (\<lambda>_. ret x)) (\<lambda>_. bufs_ok H)"
  by (rule triple_bind, rule poolPut_bufs_ok) (simp add: triple_ret)

lemma triple_filter:
  "triple (bufs_ok (b # H)) (recvIGMP_filter r interf g b cm src)
     (\<lambda>goOn. if goOn then bufs_ok (b # H) else bufs_ok H)"
proof (unfold triple_def, intro allI impI)
  fix w goOn w'
  assume ok: "bufs_ok (b # H) w" and run: "recvIGMP_filter r interf g b cm src w = (Inr goOn, w')"
  show "(if goOn then bufs_ok (b # H) else bufs_ok H) w'"
  proof (cases goOn)
    case True
    with run ok filter_True show ?thesis by fastforce
  next
    case False
    have "triple (bufs_ok (b # H)) (recvIGMP_filter r interf g b cm src)
        (\<lambda>goOn s. goOn \<or> bufs_ok H s)"
      unfolding recvIGMP_filter_def
    proof (rule triple_bind)
      show "triple (bufs_ok (b # H)) (if AltOutExists r then ignoreOnNonActiveOutOrAltInterface r interf
          else ret False) (\<lambda>_. bufs_ok (b # H))"
        by (rule keeps_bufs) (simp add: keeps_ignore pres)
    qed (intro triple_if triple_option triple_sum triple_die; (rule triple_conseq [OF put_ret [where H = H]]
          triple_conseq [OF metric_put [OF keeps_incR, where H = H]])?; simp add: triple_ret bufstate_def)
    from tripleD [OF this ok run] False show ?thesis by simp
  qed
qed

lemma keeps_switch_cast:
  assumes "recv_frame f" and "\<not> (t = IGMPMembershipReportV3 \<and> (\<forall>grs. l \<noteq> LayerIGMP grs))"
  shows "keeps f (recvIGMP_switch r interf g b m t l)"
proof (cases l)
  case (LayerIGMP grs)
  show ?thesis
    unfolding recvIGMP_switch_def LayerIGMP gopacket_layer.case
    by (intro pres assms(1))
qed (use assms in \<open>auto simp: recvIGMP_switch_def igmp_type_defs intro!: pres\<close>)

lemma triple_switch:
  "triple (bufs_ok (b # H)) (recvIGMP_switch r interf g b m t l)
     (\<lambda>sw. case sw of None \<Rightarrow> bufs_ok H | Some _ \<Rightarrow> bufs_ok (b # H))"
proof (cases "t = IGMPMembershipReportV3 \<and> (\<forall>grs. l \<noteq> LayerIGMP grs)")
  case True
  then have eq: "recvIGMP_switch r interf g b m t l =
      bind (seqs [incR [''typeCast'', side_String interf, groupString r g, ''error''], poolPut b]) (\<lambda>_. ret None)"
    by (cases l) (simp_all add: recvIGMP_switch_def igmp_type_defs)
  show ?thesis unfolding eq
    by (auto simp: triple_def bind_eq_Inr incR_def poolPut_def bufs_ok_def)
next
  case False
  then have keeps: "keeps bufstate (recvIGMP_switch r interf g b m t l)"
    by (intro keeps_switch_cast) simp_all
  show ?thesis
    using tripleD [OF keeps_bufs [OF keeps]] switch_None False
    by (fastforce simp: triple_def split: option.splits)
qed

lemma triple_recv_proxy:
  "triple (bufs_ok (b # H)) (recvIGMP_proxy X r interf g b) (\<lambda>_. bufs_ok H)"
  unfolding recvIGMP_proxy_def
proof (intro triple_if)
  show "triple (bufs_ok (b # H)) (ret True) (\<lambda>_. bufs_ok H)"
    by (simp add: triple_ret bufs_ok_release)
next
  show "triple (bufs_ok (b # H)) (bind (incR [''proxyIt'', side_String interf, groupString r g, ''counter'']) (\<lambda>_.
      bind (reads (\<lambda>w. length (heap w b))) (\<lambda>n. bind (addR [''proxyIt'', side_String interf, groupString r g, ''bytes''] n) (\<lambda>_.
      bind (reads IntOutName) (\<lambda>m. case m interf of
        None \<Rightarrow> bind (seqs [incC [''recvIGMP'', ''Load'', ''error''], poolPut b]) (\<lambda>_. ret False)
      | Some out \<Rightarrow> bind (proxy X r out g b) (\<lambda>_. bind (poolPut b) (\<lambda>_. ret True))))))) (\<lambda>_. bufs_ok H)"
    by (rule triple_bind [where Q = "\<lambda>_. bufs_ok (b # H)"], simp add: keeps_bufs keeps_incR bufstate_def,
        rule triple_bind [where Q = "\<lambda>_. bufs_ok (b # H)"], simp add: keeps_bufs keeps_simple,
        rule triple_bind [where Q = "\<lambda>_. bufs_ok (b # H)"], simp add: keeps_bufs keeps_addR bufstate_def,
        rule triple_bind [where Q = "\<lambda>_. bufs_ok (b # H)"], simp add: keeps_bufs keeps_simple,
        rule triple_option, rule metric_put, simp add: keeps_incC bufstate_def,
        rule triple_bind [where Q = "\<lambda>_. bufs_ok (b # H)"], simp add: keeps_bufs keeps_proxy, rule put_ret)
qed

lemma triple_packet:
  "triple (bufs_ok (b # H)) (recvIGMP_packet X r interf g b m) (\<lambda>_. bufs_ok H)"
proof (unfold triple_def, intro allI impI)
  fix w r' w'
  assume ok: "bufs_ok (b # H) w" and run: "recvIGMP_packet X r interf g b m w = (Inr r', w')"
  have u: "bufs_ok (b # H) u" if "u = w\<lparr>pC := c\<rparr>" for u c
    using ok by (rule bufs_ok_frame [rotated]) (simp add: bufstate_def that)
  from run show "bufs_ok H w'"
  proof (cases rule: packet_cases)
    case (undecoded t ts v)
    with u [OF undecoded(4)] show ?thesis by (auto simp: incR_def poolPut_def bufs_ok_def)
  next
    case (cast t ts l v)
    from tripleD [OF triple_switch u [OF cast(4)] cast(5)] show ?thesis by simp
  next
    case (handled t ts l u' v f x)
    from tripleD [OF triple_switch u [OF handled(3)] handled(4)] have "bufs_ok (b # H) v" by simp
    from tripleD [OF triple_recv_proxy this handled(5)] have "bufs_ok H x" .
    with handled(6) show ?thesis by (auto simp: bufs_ok_def)
  qed
qed

lemma triple_handle:
  "triple (bufs_ok (b # H)) (recvIGMP_handle X interf g b res r) (\<lambda>_. bufs_ok H)"
proof (cases res)
  case (ReadOk pkt cm src)
  show ?thesis
    unfolding ReadOk recvIGMP_handle_def read_result.case
    by (rule triple_bind, rule triple_preserves, rule readInto_bufs_ok,
        rule triple_bind [where Q = "\<lambda>_. bufs_ok (b # H)"], rule keeps_bufs,
        simp add: keeps_addR bufstate_def, rule triple_bind, rule triple_filter)
      (auto split: option.splits intro: triple_packet triple_ret bufs_ok_release)
qed (simp_all add: recvIGMP_handle_def metric_put keeps_incR bufstate_def del: seqs.simps)

lemma triple_begin:
  "triple (bufs_ok H) (recvIGMP_begin X interf g pick r) (\<lambda>b. bufs_ok (b # H))"
  unfolding recvIGMP_begin_def
proof (rule triple_bind)
  show "triple (bufs_ok H) (incR [''loop'', side_String interf, groupString r g, ''counter'']) (\<lambda>_. bufs_ok H)"
    by (simp add: keeps_bufs keeps_incR bufstate_def)
  show "triple (bufs_ok H) (case mConn r interf g of None \<Rightarrow> die (Panic ''nil *ipv4.PacketConn'')
      | Some c \<Rightarrow> bind (ioOrFatal X ''recvIGMP SetReadDeadline err:'') (\<lambda>_. poolGet pick))
      (\<lambda>b. bufs_ok (b # H))" for x
    by (rule triple_option, rule triple_die, rule triple_bind [OF _ poolGet_bufs_ok])
      (simp add: keeps_bufs keeps_ioOrFatal bufstate_def)
qed

text \<open>A turn writes no buffer but its own.\<close>

lemma handle_other_bufs:
  "x \<noteq> b \<Longrightarrow> heap (snd (recvIGMP_handle X interf g b res r w)) x = heap w x"
proof -
  assume x: "x \<noteq> b"
  have "keeps (\<lambda>w. heap w x) (recvIGMP_handle X interf g b res r)"
  proof (cases res)
    case (ReadOk pkt cm src)
    show ?thesis
      unfolding ReadOk recvIGMP_handle_def read_result.case
      by (rule keeps_bind, rule keeps_bufstate_readInto_other [OF x], rule keeps_bind)
        (auto intro!: keeps_bind keeps_filter keeps_packet keeps_addR simp: keeps_simple split: option.splits)
  qed (auto simp: recvIGMP_handle_def intro!: pres)
  then show ?thesis by (simp add: keeps_def)
qed

lemma begin_bufs:
  assumes "recvIGMP_begin X interf g pick r w = (Inr b, w')" and "bufs_ok H w" and "x \<in> set H"
  shows "x \<noteq> b \<and> heap w' x = heap w x"
proof
  from tripleD [OF triple_begin assms(2,1)] assms(3) show "x \<noteq> b" by (auto simp: bufs_ok_def)
  from assms show "heap w' x = heap w x"
    by (auto simp: recvIGMP_begin_def bind_eq_Inr incR_def ioOrFatal_def ioCall_def poolGet_def
        bufs_ok_def split: option.splits if_splits)
qed

text \<open>
  The buffer discipline of the receive loop. Whatever a turn reads and on whichever path it
  returns, the buffer it took from the pool is afterwards in the pool at most once and held by
  nobody, no buffer held elsewhere is put back or written to, and every buffer keeps its size.
\<close>
theorem recvIGMP_turn_buffers:
  assumes "bufs_ok held w" and "recvIGMP_turn X interf g pick res r w = (Inr r', w')"
  shows "bufs_ok held w' \<and> map (heap w') held = map (heap w) held"
proof -
  from assms(2) obtain b u where b: "recvIGMP_begin X interf g pick r w = (Inr b, u)"
    and h: "recvIGMP_handle X interf g b res r u = (Inr r', w')"
    by (auto simp: recvIGMP_turn_def bind_eq_Inr)
  have "bufs_ok held w'"
    using tripleD [OF triple_handle tripleD [OF triple_begin assms(1) b] h] .
  moreover have "heap w' x = heap w x" if "x \<in> set held" for x
    using begin_bufs [OF b assms(1) that] handle_other_bufs [of x b X interf g res r u] h by simp
  ultimately show ?thesis by simp
qed

subsection \<open>What the client is told\<close>

lemma keeps_recv_proxy_any:
  assumes "send_frame f" "\<And>w x. f (w\<lparr>pC := x\<rparr>) = f w" "\<And>w x. f (w\<lparr>pCrecvIGMP := x\<rparr>) = f w"
    "\<And>w x. f (w\<lparr>bytePool := x\<rparr>) = f w"
  shows "keeps f (recvIGMP_proxy X r interf g buf)"
  unfolding recvIGMP_proxy_def
  by (auto simp: assms simp del: seqs.simps
      intro!: keeps_if keeps_bind keeps_incR keeps_addR keeps_simple keeps_option keeps_seqs
        keeps_proxy keeps_poolPut keeps_incC)

text \<open>The reports in a packet of type \<open>t\<close> that decodes to \<open>l\<close>.\<close>

definition reported_items :: "u8 \<Rightarrow> gopacket_layer \<Rightarrow> MembershipItem list option" where
  "reported_items t l =
     (case l of
        LayerV1or2 ig \<Rightarrow>
          if t = IGMPMembershipReportV2 then
            (case netip2Addr (ig_GroupAddress ig) of
               Inl _ \<Rightarrow> None | Inr na \<Rightarrow> Some [\<lparr>Sources = [], Group = na\<rparr>])
          else None
      | LayerIGMP grs \<Rightarrow>
          if t = IGMPMembershipReportV3 then
            (case mapE groupRecord_item grs of Inl _ \<Rightarrow> None | Inr items \<Rightarrow> Some items)
          else None
      | LayerOther \<Rightarrow> None)"

definition told :: "'a option \<Rightarrow> 'a chan option \<Rightarrow> 'a chan option" where
  "told x ch = (case x of None \<Rightarrow> ch | Some v \<Rightarrow> snd (try_send_ref v ch))"

lemma told_None [simp]: "told None ch = ch"
  by (simp add: told_def)

lemma notifyQuery_spec:
  "notifyQuery r interf g w = (res, w') \<Longrightarrow>
     res = Inr () \<and> MembershipReportFromNetworkCh w' = MembershipReportFromNetworkCh w \<and>
     QueryNotifyCh w' = told (if QueryNotify (conf r) then Some () else None) (QueryNotifyCh w)"
  by (auto simp: notifyQuery_def bind_apply incR_def told_def split: if_splits prod.splits)

lemma notifyReports_spec:
  "notifyReports r interf g ms w = (res, w') \<Longrightarrow>
     res = Inr () \<and> QueryNotifyCh w' = QueryNotifyCh w \<and>
     MembershipReportFromNetworkCh w' =
       told (if MembershipReportsFromNetwork (conf r) then Some ms else None)
         (MembershipReportFromNetworkCh w)"
  by (auto simp: notifyReports_def bind_apply incR_def told_def split: if_splits prod.splits)

lemma records_spec:
  "IGMPv3GroupRecordsToMembershipItem grs w = (res, w') \<Longrightarrow>
     res = mapE groupRecord_item grs \<and> QueryNotifyCh w' = QueryNotifyCh w \<and>
     MembershipReportFromNetworkCh w' = MembershipReportFromNetworkCh w"
  by (cases "mapE groupRecord_item grs")
    (auto simp: IGMPv3GroupRecordsToMembershipItem_def incC_def observeH_def bind_lift)

lemma switch_told:
  assumes "recvIGMP_switch r interf g buf m t l w = (Inr sw, w')"
  shows "QueryNotifyCh w' =
       told (if t = IGMPMembershipQuery \<and> QueryNotify (conf r) then Some () else None) (QueryNotifyCh w) \<and>
     MembershipReportFromNetworkCh w' =
       told (if MembershipReportsFromNetwork (conf r) then reported_items t l else None)
         (MembershipReportFromNetworkCh w)"
proof -
  consider (query) "t = IGMPMembershipQuery" | (v2) "t = IGMPMembershipReportV2"
    | (v3) "t = IGMPMembershipReportV3"
    | (other) "t \<notin> {IGMPMembershipQuery, IGMPMembershipReportV2, IGMPMembershipReportV3}"
    by blast
  then show ?thesis
  proof cases
    case query
    with assms show ?thesis
      by (auto simp: recvIGMP_switch_def bind_eq_Inr Let_def incR_def reported_items_def igmp_type_defs
          split: sum.splits gopacket_layer.splits dest!: notifyQuery_spec)
  next
    case v2
    with assms show ?thesis
      by (auto simp: recvIGMP_switch_def bind_eq_Inr incR_def reported_items_def igmp_type_defs incC_def
          split: sum.splits gopacket_layer.splits dest!: notifyReports_spec)
  next
    case v3
    with assms show ?thesis
      by (auto simp: recvIGMP_switch_def bind_eq_Inr incR_def poolPut_def reported_items_def igmp_type_defs
          split: gopacket_layer.splits sum.splits dest!: notifyReports_spec records_spec)
  next
    case other
    with assms show ?thesis
      by (auto simp: recvIGMP_switch_def incR_def reported_items_def split: gopacket_layer.splits)
  qed
qed

text \<open>What the receiver hears: type and layer of a packet that is for it and decodes.\<close>

definition heard ::
    "externals \<Rightarrow> IGMPReporter \<Rightarrow> world \<Rightarrow> side \<Rightarrow> destIP \<Rightarrow> bytes \<Rightarrow> ControlMessage \<Rightarrow>
     (u8 \<times> gopacket_layer) option" where
  "heard X r w interf g b m =
     (if active r w interf \<and> addressed r interf g m then
        (case b of [] \<Rightarrow> None | t # _ \<Rightarrow> map_option (Pair t) (decodeIGMP X b))
      else None)"

lemma packet_told:
  assumes run: "recvIGMP_packet X r interf g buf m w = (Inr r', w')"
    and pass: "active r w interf" "addressed r interf g m"
  shows "case heard X r w interf g (heap w buf) m of
     None \<Rightarrow> r' = r \<and> QueryNotifyCh w' = QueryNotifyCh w \<and>
       MembershipReportFromNetworkCh w' = MembershipReportFromNetworkCh w
   | Some (t, l) \<Rightarrow>
       QueryNotifyCh w' =
         told (if t = IGMPMembershipQuery \<and> QueryNotify (conf r) then Some () else None)
           (QueryNotifyCh w) \<and>
       MembershipReportFromNetworkCh w' =
         told (if MembershipReportsFromNetwork (conf r) then reported_items t l else None)
           (MembershipReportFromNetworkCh w) \<and>
       r' = (if t = IGMPMembershipQuery
             then r\<lparr>querierSourceIP := (case netip2Addr (cm_Src m) of Inl e \<Rightarrow> AddrZero | Inr a \<Rightarrow> a)\<rparr>
             else r)"
  using run
proof (cases rule: packet_cases)
  case (undecoded t ts u)
  with pass show ?thesis by (auto simp: heard_def incR_def poolPut_def)
next
  case (cast t ts l u)
  with pass have h: "heard X r w interf g (heap w buf) m = Some (t, l)" by (simp add: heard_def)
  from switch_None [OF cast(5)] have "t = IGMPMembershipReportV3" by simp
  with switch_told [OF cast(5)] cast(3,4) h show ?thesis by (simp add: igmp_type_defs)
next
  case (handled t ts l u v f x)
  with pass have h: "heard X r w interf g (heap w buf) m = Some (t, l)" by (simp add: heard_def)
  have "QueryNotifyCh x = QueryNotifyCh v"
    "MembershipReportFromNetworkCh x = MembershipReportFromNetworkCh v"
    using keepsD [OF keeps_recv_proxy_any handled(5), of QueryNotifyCh]
      keepsD [OF keeps_recv_proxy_any handled(5), of MembershipReportFromNetworkCh] by simp_all
  moreover from handled(6) have "QueryNotifyCh w' = QueryNotifyCh x"
    "MembershipReportFromNetworkCh w' = MembershipReportFromNetworkCh x" by auto
  ultimately show ?thesis
    using switch_told [OF handled(4)] switch_Some [OF handled(4)] handled(3) h by simp
qed

lemma handle_told:
  assumes "recvIGMP_handle X interf g buf (ReadOk pkt (Some m) (GAddr a)) r w = (Inr r', w')"
  shows "case heard X r w interf g (overlay pkt (heap w buf)) m of
     None \<Rightarrow> r' = r \<and> QueryNotifyCh w' = QueryNotifyCh w \<and>
       MembershipReportFromNetworkCh w' = MembershipReportFromNetworkCh w
   | Some (t, l) \<Rightarrow>
       QueryNotifyCh w' =
         told (if t = IGMPMembershipQuery \<and> QueryNotify (conf r) then Some () else None)
           (QueryNotifyCh w) \<and>
       MembershipReportFromNetworkCh w' =
         told (if MembershipReportsFromNetwork (conf r) then reported_items t l else None)
           (MembershipReportFromNetworkCh w) \<and>
       r' = (if t = IGMPMembershipQuery
             then r\<lparr>querierSourceIP := (case netip2Addr (cm_Src m) of Inl e \<Rightarrow> AddrZero | Inr a \<Rightarrow> a)\<rparr>
             else r)"
proof (rule handle_packet [OF assms])
  fix u goOn
  assume u: "heap u = (heap w)(buf := overlay pkt (heap w buf))" "IntOutName u = IntOutName w"
      "QueryNotifyCh u = QueryNotifyCh w" "MembershipReportFromNetworkCh u = MembershipReportFromNetworkCh w"
    and go: "goOn \<longleftrightarrow> active r w interf \<and> addressed r interf g m"
    and no: "\<not> goOn \<Longrightarrow> r' = r \<and> wire w' = wire u \<and> QueryNotifyCh w' = QueryNotifyCh u \<and>
       MembershipReportFromNetworkCh w' = MembershipReportFromNetworkCh u"
    and yes: "goOn \<Longrightarrow> recvIGMP_packet X r interf g buf m u = (Inr r', w')"
  have same: "heard X r u interf g b m = heard X r w interf g b m" for b
    by (simp add: heard_def active_def u(2))
  have hb: "heap u buf = overlay pkt (heap w buf)" by (simp add: u)
  show ?thesis
  proof (cases goOn)
    case True
    then have "active r u interf" "addressed r interf g m" using go u(2) by (simp_all add: active_def)
    from packet_told [OF yes [OF True] this] show ?thesis unfolding hb same u(3,4) .
  next
    case False
    then have "heard X r w interf g b m = None" for b using go by (auto simp: heard_def)
    with no [OF False] u show ?thesis by simp
  qed
qed

text \<open>
  C10: What the client learns from a packet. A packet that is not heard (not for this receiver,
  or not decodable) leaves the client's channels and the receiver unchanged. A heard query puts
  one token into the query channel if that is enabled, and makes its source (or the zero address)
  the receiver's querier; a heard version 2 or 3 report offers its items to the report channel if
  that is enabled. An offer to a full channel is dropped, so a slow client never blocks a receiver.
\<close>
theorem recvIGMP_tells_client:
  assumes "recvIGMP_handle X interf g buf (ReadOk pkt (Some m) (GAddr a)) r w = (Inr r', w')"
  shows "case heard X r w interf g (overlay pkt (heap w buf)) m of
     None \<Rightarrow> r' = r \<and> QueryNotifyCh w' = QueryNotifyCh w \<and>
       MembershipReportFromNetworkCh w' = MembershipReportFromNetworkCh w
   | Some (t, l) \<Rightarrow>
       QueryNotifyCh w' =
         told (if t = IGMPMembershipQuery \<and> QueryNotify (conf r) then Some () else None)
           (QueryNotifyCh w) \<and>
       MembershipReportFromNetworkCh w' =
         told (if MembershipReportsFromNetwork (conf r) then reported_items t l else None)
           (MembershipReportFromNetworkCh w) \<and>
       r' = (if t = IGMPMembershipQuery
             then r\<lparr>querierSourceIP := (case netip2Addr (cm_Src m) of Inl e \<Rightarrow> AddrZero | Inr a \<Rightarrow> a)\<rparr>
             else r)"
  using handle_told [OF assms] .

text \<open>
  C31: The conversion of IGMPv3 group records loses nothing: if it returns, there is one item
  per record, in order, and converting the item's addresses back gives the record's bytes; it
  ends the process only on a record with an address that is not 4 or 16 bytes long.
\<close>
theorem IGMPv3GroupRecords_roundtrip:
  "case IGMPv3GroupRecordsToMembershipItem grs w of
     (Inr items, _) \<Rightarrow>
        list_all2 (\<lambda>gr item. mapE addr2NetIP (Sources item) = Inr (gr_SourceAddresses gr) \<and>
                             addr2NetIP (Group item) = Inr (gr_MulticastAddress gr)) grs items
   | (Inl _, _) \<Rightarrow>
        \<exists>gr \<in> set grs. \<exists>ip \<in> set (gr_MulticastAddress gr # gr_SourceAddresses gr).
          length ip \<notin> {4, 16}"
proof -
  have item: "mapE addr2NetIP (Sources it) = Inr (gr_SourceAddresses gr) \<and>
      addr2NetIP (Group it) = Inr (gr_MulticastAddress gr)" if "groupRecord_item gr = Inr it" for gr it
    using that codec.list_to_from codec.to_from
    by (auto simp: groupRecord_item_def split: sum.splits)
  have srcs: "\<exists>ip \<in> set ips. length ip \<notin> {4, 16}" if "mapE netip2Addr ips = Inl e" for ips e
    using that by (induction ips arbitrary: e) (auto simp: netip2Addr_Inl split: sum.splits)
  have bad: "\<exists>ip \<in> set (gr_MulticastAddress gr # gr_SourceAddresses gr). length ip \<notin> {4, 16}"
    if "groupRecord_item gr = Inl e" for gr e
    using that srcs by (fastforce simp: groupRecord_item_def netip2Addr_Inl split: sum.splits)
  obtain res w' where run: "IGMPv3GroupRecordsToMembershipItem grs w = (res, w')"
    by (cases "IGMPv3GroupRecordsToMembershipItem grs w")
  show ?thesis
  proof (cases res)
    case (Inl e)
    with records_spec [OF run] have "mapE groupRecord_item grs = Inl e" by simp
    then have "\<exists>gr \<in> set grs. \<exists>e. groupRecord_item gr = Inl e"
      by (induction grs arbitrary: e) (auto split: sum.splits)
    with bad Inl run show ?thesis by fastforce
  next
    case (Inr items)
    with records_spec [OF run] have "mapE groupRecord_item grs = Inr items" by simp
    then have "list_all2 (\<lambda>gr it. groupRecord_item gr = Inr it) grs items"
      by (auto simp: mapE_Inr_iff list_all2_conv_all_nth list_eq_iff_nth_eq)
    with Inr run item show ?thesis by (auto elim: list_all2_mono)
  qed
qed

subsection \<open>Turns that end the process, and turns that do not\<close>

definition sane_ip :: "net_ip \<Rightarrow> bool" where
  "sane_ip ip = (length ip = 4 \<or> length ip = 16)"

definition layer_sane :: "u8 \<Rightarrow> gopacket_layer \<Rightarrow> bool" where
  "layer_sane t l =
     (if t = IGMPMembershipReportV2 then
        (case l of LayerV1or2 ig \<Rightarrow> sane_ip (ig_GroupAddress ig) | _ \<Rightarrow> False)
      else if t = IGMPMembershipReportV3 then
        (case l of LayerIGMP grs \<Rightarrow>
            list_all (\<lambda>gr. list_all sane_ip (gr_MulticastAddress gr # gr_SourceAddresses gr)) grs
          | _ \<Rightarrow> True)
      else True)"

definition ok_at :: "('s, 'a) eff \<Rightarrow> 's \<Rightarrow> bool" where
  "ok_at m w \<longleftrightarrow> (\<exists>x t. m w = (Inr x, t))"

lemma ok_at_bind: "ok_at m w \<Longrightarrow> (\<And>x t. m w = (Inr x, t) \<Longrightarrow> ok_at (f x) t) \<Longrightarrow> ok_at (bind m f) w"
  by (auto simp: ok_at_def)

lemma ok_at_returns: "returns m \<Longrightarrow> ok_at m w"
  by (simp add: returns_def ok_at_def)

lemma ok_at_ret [simp]: "ok_at (ret x) w"
  by (simp add: ok_at_def)

lemma sane_netip2Addr: "sane_ip ip \<Longrightarrow> \<exists>a. netip2Addr ip = Inr a"
  using netip2Addr_Inl [of ip] by (cases "netip2Addr ip") (auto simp: sane_ip_def)

lemma sane_list: "list_all sane_ip ips \<Longrightarrow> \<exists>as. mapE netip2Addr ips = Inr as"
  by (induction ips) (auto dest!: sane_netip2Addr)

lemma sane_records:
  "list_all (\<lambda>gr. list_all sane_ip (gr_MulticastAddress gr # gr_SourceAddresses gr)) grs \<Longrightarrow>
   \<exists>items. mapE groupRecord_item grs = Inr items"
  by (induction grs) (auto simp: groupRecord_item_def dest!: sane_netip2Addr sane_list)

lemma filter_returns:
  assumes "sane_ip (cm_Dst m)"
  shows "returns (recvIGMP_filter r interf g buf (Some m) src)"
proof -
  obtain d where "netip2Addr (cm_Dst m) = Inr d" using sane_netip2Addr [OF assms] by blast
  moreover have "returns (if AltOutExists r then ignoreOnNonActiveOutOrAltInterface r interf else ret False)"
    by (auto simp: ignoreOnNonActiveOutOrAltInterface_def intro!: returns_bind split: option.splits)
  ultimately show ?thesis
    unfolding recvIGMP_filter_def
    by (intro returns_bind) (auto intro!: returns_bind returns_seqs simp del: seqs.simps)
qed

lemma notify_returns: "returns (notifyQuery r interf g)" "returns (notifyReports r interf g ms)"
  using notifyQuery_spec [of r interf g] notifyReports_spec [of r interf g ms]
  unfolding returns_def by (metis surj_pair)+

lemma switch_returns:
  assumes "layer_sane t l"
  shows "returns (recvIGMP_switch r interf g buf m t l)"
proof (cases l)
  case (LayerV1or2 ig)
  show ?thesis
    using assms unfolding recvIGMP_switch_def LayerV1or2
    by (auto simp: layer_sane_def Let_def igmp_type_defs simp del: seqs.simps dest!: sane_netip2Addr
        intro!: returns_bind notify_returns returns_seqs split: sum.splits)
next
  case (LayerIGMP grs)
  have "returns (IGMPv3GroupRecordsToMembershipItem grs)" if "t = IGMPMembershipReportV3"
  proof -
    have "layer_sane IGMPMembershipReportV3 (LayerIGMP grs)" using assms that LayerIGMP by simp
    then obtain items where "mapE groupRecord_item grs = Inr items"
      using sane_records by (auto simp: layer_sane_def igmp_type_defs)
    then show ?thesis
      unfolding IGMPv3GroupRecordsToMembershipItem_def
      by (auto intro!: returns_bind returns_lift)
  qed
  with assms show ?thesis
    unfolding recvIGMP_switch_def LayerIGMP
    by (auto simp: layer_sane_def Let_def simp del: seqs.simps
        intro!: returns_bind notify_returns returns_seqs split: sum.splits)
next
  case LayerOther
  with assms show ?thesis
    unfolding recvIGMP_switch_def
    by (auto simp: layer_sane_def Let_def simp del: seqs.simps
        intro!: returns_bind notify_returns returns_seqs split: sum.splits)
qed

lemma proxy_ok_at:
  assumes "io_ok X" "conRaw r out \<noteq> None" "g \<noteq> QueryHost"
  shows "returns (proxy X r out g buf)"
  using assms unfolding proxy_def setWriteDeadline_def writeTo_def
  by (auto simp: ipv4Header_dest simp del: seqs.simps intro!: returns_intros returns_lift)

lemma recv_proxy_ok_at:
  assumes "io_ok X" "g \<noteq> QueryHost"
    and out: "\<And>out. proxyIt r interf \<Longrightarrow> IntOutName w interf = Some out \<Longrightarrow> conRaw r out \<noteq> None"
  shows "ok_at (recvIGMP_proxy X r interf g buf) w"
proof (cases "proxyIt r interf")
  case False
  then show ?thesis by (simp add: recvIGMP_proxy_def)
next
  case True
  have "ok_at (case m interf of
          None \<Rightarrow> bind (seqs [incC [''recvIGMP'', ''Load'', ''error''], poolPut buf]) (\<lambda>_. ret False)
        | Some out \<Rightarrow>
            bind (proxy X r out g buf) (\<lambda>_. bind (poolPut buf) (\<lambda>_. ret True))) u"
    if "m = IntOutName w" for m u
    using that out [OF True] assms proxy_ok_at
    by (auto split: option.splits intro!: ok_at_returns returns_bind returns_seqs simp del: seqs.simps)
  then show ?thesis
    unfolding recvIGMP_proxy_def using True
    by (auto simp: ok_at_def bind_apply incR_def addR_def)
qed

lemma packet_ok_at:
  assumes io: "io_ok X" and g: "g \<noteq> QueryHost" and b: "heap w buf \<noteq> []"
    and sane: "\<And>l. decodeIGMP X (heap w buf) = Some l \<Longrightarrow> layer_sane (hd (heap w buf)) l"
    and out: "\<And>out. proxyIt r interf \<Longrightarrow> IntOutName w interf = Some out \<Longrightarrow> conRaw r out \<noteq> None"
  shows "ok_at (recvIGMP_packet X r interf g buf m) w"
proof -
  from b obtain t ts where t: "heap w buf = t # ts" by (cases "heap w buf") auto
  let ?u = "w\<lparr>pC := bump [''recvIGMP'', igmpTypeString X t, ''count''] 1 (pC w)\<rparr>"
  have "ok_at (bind (incC [''recvIGMP'', igmpTypeString X t, ''count'']) (\<lambda>_.
     case decodeIGMP X (heap w buf) of
       None \<Rightarrow> bind (seqs [incR [''deserializing'', side_String interf, groupString r g, ''error''], poolPut buf]) (\<lambda>_. ret r)
     | Some igmpLayer \<Rightarrow>
         bind (recvIGMP_switch r interf g buf m t igmpLayer) (\<lambda>sw.
         case sw of
           None \<Rightarrow> ret r
         | Some r' \<Rightarrow>
             bind (recvIGMP_proxy X r' interf g buf) (\<lambda>finished.
             if finished then
               bind (seqs [observeR [''sincePacketStartTime'', side_String interf, groupString r' g, ''counter''],
                           observeR [''sinceLoopStartTime'', side_String interf, groupString r' g, ''counter'']]) (\<lambda>_. ret r')
             else ret r')))) w"
  proof (rule ok_at_bind [OF ok_at_returns], simp, goal_cases)
    case (1 x u)
    then have u: "IntOutName u = IntOutName w" by (auto simp: incC_def)
    show ?case
    proof (cases "decodeIGMP X (heap w buf)")
      case None
      then show ?thesis
        by (auto intro!: ok_at_returns returns_bind returns_seqs simp del: seqs.simps)
    next
      case (Some l)
      with sane t have l: "layer_sane t l" by auto
      have "ok_at (case sw of
           None \<Rightarrow> ret r
         | Some r' \<Rightarrow>
             bind (recvIGMP_proxy X r' interf g buf) (\<lambda>finished.
             if finished then
               bind (seqs [observeR [''sincePacketStartTime'', side_String interf, groupString r' g, ''counter''],
                           observeR [''sinceLoopStartTime'', side_String interf, groupString r' g, ''counter'']]) (\<lambda>_. ret r')
             else ret r')) v" if sw: "recvIGMP_switch r interf g buf m t l u = (Inr sw, v)" for sw v
      proof (cases sw)
        case None
        then show ?thesis by (simp add: ok_at_def)
      next
        case (Some r')
        have v: "IntOutName v = IntOutName w" using keepsD [OF keeps_switch sw, of IntOutName] u by simp
        from switch_Some sw Some
        have "proxyIt r' = proxyIt r" "conRaw r' = conRaw r" by (fastforce split: if_splits)+
        with out v have "ok_at (recvIGMP_proxy X r' interf g buf) v"
          by (intro recv_proxy_ok_at [OF io g]) simp_all
        moreover have "returns (if fin then bind (seqs [observeR [''sincePacketStartTime'', side_String interf, groupString r' g, ''counter''],
            observeR [''sinceLoopStartTime'', side_String interf, groupString r' g, ''counter'']]) (\<lambda>_. ret r') else ret r')" for fin
          by (auto intro!: returns_bind returns_seqs simp del: seqs.simps)
        ultimately show ?thesis using Some by (simp add: ok_at_bind ok_at_returns del: seqs.simps)
      qed
      with Some l show ?thesis
        by (auto intro!: ok_at_bind ok_at_returns [OF switch_returns])
    qed
  qed
  with t show ?thesis by (simp add: recvIGMP_packet_def ok_at_def)
qed

lemma begin_returns:
  "io_ok X \<Longrightarrow> mConn r interf g \<noteq> None \<Longrightarrow> returns (recvIGMP_begin X interf g pick r)"
  by (auto simp: recvIGMP_begin_def intro!: returns_bind returns_ioOrFatal)

lemma handle_error_returns:
  "returns (recvIGMP_handle X interf g buf ReadTimeout r)"
  "returns (recvIGMP_handle X interf g buf ReadError r)"
  by (auto simp: recvIGMP_handle_def intro!: returns_bind)

lemma handle_ok:
  assumes "io_ok X" and "g \<noteq> QueryHost" and "bufs_ok (buf # H) w" and "sane_ip (cm_Dst m)"
    and "\<And>t b l. decodeIGMP X (t # b) = Some l \<Longrightarrow> layer_sane t l"
    and "\<And>out. IntOutName w interf = Some out \<Longrightarrow> proxyIt r interf \<Longrightarrow> conRaw r out \<noteq> None"
  shows "\<exists>r' w'. recvIGMP_handle X interf g buf (ReadOk pkt (Some m) (GAddr a)) r w = (Inr r', w')"
proof -
  let ?u = "w\<lparr>heap := (heap w)(buf := overlay pkt (heap w buf)),
      pCrecvIGMP := bump [''n'', side_String interf, groupString r g, ''counter'']
        (min (length (copied pkt)) (length (heap w buf))) (pCrecvIGMP w)\<rparr>"
  have "length (heap w buf) = 200"
    using bufs_ok_length [OF assms(3)] by (simp add: maxIGMPPacketRecieveBytesCst_def)
  then have ne: "overlay pkt (heap w buf) \<noteq> []" by (metis length_overlay list.size(3) zero_neq_numeral)
  obtain goOn v where fl: "recvIGMP_filter r interf g buf (Some m) (GAddr a) ?u = (Inr goOn, v)"
    using filter_returns [OF assms(4)] unfolding returns_def by blast
  have "ok_at (if goOn then recvIGMP_packet X r interf g buf m else ret r) v"
  proof (cases goOn)
    case True
    with fl have "recvIGMP_filter r interf g buf (Some m) (GAddr a) ?u = (Inr True, v)" by simp
    from filter_True [OF this] have v: "v = ?u" by simp
    have "ok_at (recvIGMP_packet X r interf g buf m) v"
      unfolding v
    proof (rule packet_ok_at [OF assms(1,2)])
      fix l assume "decodeIGMP X (heap ?u buf) = Some l"
      then show "layer_sane (hd (heap ?u buf)) l"
        using assms(5) [of "hd (heap ?u buf)" "tl (heap ?u buf)" l] ne by simp
    qed (use ne assms(6) in auto)
    with True show ?thesis by simp
  qed (simp add: ok_at_def)
  with fl show ?thesis
    by (auto simp: recvIGMP_handle_def readInto_def addR_def bind_apply ok_at_def cong: if_cong)
qed

text \<open>
  A receiver survives its input. When system calls work, the packet's destination is an IP
  address, the decoder gives the type's layer with IP addresses in it, and every output the
  selector may name has an open raw connection, handling the packet returns: no nil dereference,
  no index out of range, no \<open>log.Fatal\<close>.
\<close>
theorem recvIGMP_survives:
  assumes "io_ok X" and "g \<noteq> QueryHost" and "bufs_ok (buf # H) w" and "sane_ip (cm_Dst m)"
    and "\<And>t b l. decodeIGMP X (t # b) = Some l \<Longrightarrow> layer_sane t l"
    and "\<And>out. IntOutName w interf = Some out \<Longrightarrow> proxyIt r interf \<Longrightarrow> conRaw r out \<noteq> None"
  shows "\<exists>r' w'. recvIGMP_handle X interf g buf (ReadOk pkt (Some m) (GAddr a)) r w = (Inr r', w')"
  using assms by (rule handle_ok)

text \<open>
  C30: Failing over to the alternative outside interface kills a relaying receiver. The
  constructor never opens a raw connection for ALTOUT, so once the selector has stored ALTOUT as
  the output of the inside, the first inside packet that is to be relayed ends the process.
\<close>
theorem recvIGMP_failover_dies:
  assumes "NewIGMPReporter X c w0 = (Inr r, w1)" and "g \<noteq> QueryHost"
    and "relay_target X r w interf g (overlay pkt (heap w buf)) m = Some ALTOUT"
  shows "\<exists>e w'. recvIGMP_handle X interf g buf (ReadOk pkt (Some m) (GAddr a)) r w = (Inl e, w')"
proof -
  have "dom (conRaw r) = raws_of c" using NewIGMPReporter_built [OF assms(1)] by (simp add: built_def)
  moreover have "ALTOUT \<notin> raws_of c" by (auto simp: raws_of_def)
  ultimately have "conRaw r ALTOUT = None" by blast
  obtain res w' where run: "recvIGMP_handle X interf g buf (ReadOk pkt (Some m) (GAddr a)) r w = (res, w')"
    by (cases "recvIGMP_handle X interf g buf (ReadOk pkt (Some m) (GAddr a)) r w")
  show ?thesis
  proof (cases res)
    case (Inr r')
    with handle_relay [OF assms(2), of X interf buf pkt m a r w r' w'] run assms(3)
      \<open>conRaw r ALTOUT = None\<close> show ?thesis by auto
  qed (use run in simp)
qed

subsection \<open>Witnesses\<close>

lemma sample_layer_sane: "decodeIGMP sample_externals (t # b) = Some l \<Longrightarrow> layer_sane t l"
  by (auto simp: sample_externals_def sample_decode_def layer_sane_def sane_ip_def igmp_type_defs
      split: if_splits)

lemma sample_bufs: "bufs_ok [0] (sample_busy sample_running)" "bufs_ok [0] (sample_busy sample_full_running)"
  "bufs_ok [] (sample_busy sample_running)"
  by (simp_all add: bufs_ok_def sample_busy_def sample_running_def sample_full_running_def
      sample_world_def maxIGMPPacketRecieveBytesCst_def)

lemma sample_sane_cm: "sane_ip (cm_Dst (sample_cm i))"
  by (simp add: sane_ip_def sample_cm_def)

lemma sample_handle_runs:
  "\<exists>r' w'. recvIGMP_handle sample_externals OUT IGMPHosts 0
     (ReadOk sample_read (Some (sample_cm 4)) (GAddr (IPAddrP [10, 0, 0, 7] [])))
     sample_reporter (sample_busy sample_running) = (Inr r', w')"
  by (rule handle_ok [OF sample_io _ sample_bufs(1) sample_sane_cm sample_layer_sane])
    (simp_all add: receiver_defs sample_busy_def)

definition sample_stale :: bytes where
  "sample_stale = sample_report @ replicate 192 0xAA"

lemma sample_overlay:
  "overlay sample_read (heap (sample_busy w) b) = sample_stale"
  by (simp add: overlay_def sample_read_def map_replicate_const sample_busy_def sample_report_def sample_stale_def numeral_eq_Suc)

lemma sample_stale_head: "sample_stale = 0x16 # 100 # 0 # 0 # 239 # 1 # 1 # 1 # replicate 192 0xAA"
  by (simp add: sample_stale_def sample_report_def)

lemma sample_decodes:
  "decodeIGMP sample_externals sample_stale = Some (LayerV1or2 \<lparr>ig_Type = 0x16,
     ig_MaxResponseTime = 0, ig_GroupAddress = [239, 1, 1, 1], ig_Version = 2\<rparr>)"
  unfolding sample_stale_head by (simp add: sample_externals_def sample_decode_def igmp_type_defs)

lemma sample_target:
  "relay_target sample_externals sample_reporter (sample_busy sample_running) OUT IGMPHosts
     sample_stale (sample_cm 4) = Some IN"
  unfolding relay_target_def sample_decodes
  by (simp add: active_def addressed_def proxyIt_def groupAddr_def receiver_defs sample_busy_def
      sample_cm_def sample_stale_head igmp_type_defs)

theorem recvIGMP_relay_witness:
  "\<exists>r' w'. recvIGMP_handle sample_externals OUT IGMPHosts 0
     (ReadOk sample_read (Some (sample_cm 4)) (GAddr (IPAddrP [10, 0, 0, 7] [])))
     sample_reporter (sample_busy sample_running) = (Inr r', w') \<and>
     wire w' = [relayed sample_externals sample_reporter IN IGMPHosts sample_stale]"
proof -
  obtain r' w' where run: "recvIGMP_handle sample_externals OUT IGMPHosts 0
     (ReadOk sample_read (Some (sample_cm 4)) (GAddr (IPAddrP [10, 0, 0, 7] [])))
     sample_reporter (sample_busy sample_running) = (Inr r', w')"
    using sample_handle_runs by blast
  have "wire (sample_busy sample_running) = []" by (simp add: receiver_defs sample_busy_def)
  with recvIGMP_relay [OF _ run] run show ?thesis by (simp add: sample_overlay sample_target)
qed

theorem recvIGMP_relays_whole_buffer_witness:
  "\<exists>r' w' d. recvIGMP_handle sample_externals OUT IGMPHosts 0
     (ReadOk sample_read (Some (sample_cm 4)) (GAddr (IPAddrP [10, 0, 0, 7] [])))
     sample_reporter (sample_busy sample_running) = (Inr r', w') \<and>
     wire w' = wire (sample_busy sample_running) @ [d] \<and> length (dg_payload d) = 200 \<and>
     h_TotalLen (dg_hdr d) = 220"
proof -
  obtain r' w' where run: "recvIGMP_handle sample_externals OUT IGMPHosts 0
     (ReadOk sample_read (Some (sample_cm 4)) (GAddr (IPAddrP [10, 0, 0, 7] [])))
     sample_reporter (sample_busy sample_running) = (Inr r', w')"
    using sample_handle_runs by blast
  from handle_relay [OF _ run] have w: "wire w' = wire (sample_busy sample_running) @
      [relayed sample_externals sample_reporter IN IGMPHosts sample_stale]"
    by (simp add: sample_overlay sample_target)
  from recvIGMP_relays_whole_buffer [OF _ sample_bufs(1) _ run w] run w show ?thesis
    by (auto simp: sample_read_def sample_report_def sample_externals_def)
qed

theorem recvIGMP_turn_buffers_witness:
  "\<exists>r' w'. recvIGMP_turn sample_externals OUT IGMPHosts 0 ReadTimeout sample_reporter
     (sample_busy sample_running) = (Inr r', w') \<and> bufs_ok [0] w' \<and> heap w' 0 = replicate 200 0xAA"
proof -
  have "mConn sample_reporter OUT IGMPHosts \<noteq> None"
    by (simp add: mConn_def groupAddr_def receiver_defs sample_joins_def)
  from begin_returns [OF sample_io this] have "returns (recvIGMP_turn sample_externals OUT IGMPHosts 0
      ReadTimeout sample_reporter)"
    unfolding recvIGMP_turn_def by (intro returns_bind handle_error_returns)
  then obtain r' w' where run: "recvIGMP_turn sample_externals OUT IGMPHosts 0 ReadTimeout
      sample_reporter (sample_busy sample_running) = (Inr r', w')"
    unfolding returns_def by blast
  from recvIGMP_turn_buffers [OF sample_bufs(1) run] run show ?thesis
    by (simp add: sample_busy_def)
qed

theorem recvIGMP_tells_client_witness:
  "\<exists>r' w'. recvIGMP_handle sample_externals OUT IGMPHosts 0
     (ReadOk sample_read (Some (sample_cm 4)) (GAddr (IPAddrP [10, 0, 0, 7] [])))
     sample_reporter (sample_busy sample_running) = (Inr r', w') \<and> r' = sample_reporter \<and>
     QueryNotifyCh w' = Some sample_chan"
proof -
  obtain r' w' where run: "recvIGMP_handle sample_externals OUT IGMPHosts 0
     (ReadOk sample_read (Some (sample_cm 4)) (GAddr (IPAddrP [10, 0, 0, 7] [])))
     sample_reporter (sample_busy sample_running) = (Inr r', w')"
    using sample_handle_runs by blast
  have "heard sample_externals sample_reporter (sample_busy sample_running) OUT IGMPHosts
      sample_stale (sample_cm 4) = Some (0x16, the (decodeIGMP sample_externals sample_stale))"
    unfolding heard_def sample_decodes
    by (simp add: active_def addressed_def groupAddr_def receiver_defs sample_busy_def
        sample_cm_def sample_stale_head sample_decode_def igmp_type_defs)
  with recvIGMP_tells_client [OF run] run show ?thesis
    by (simp add: sample_overlay igmp_type_defs) (simp add: receiver_defs sample_busy_def)
qed

theorem recvIGMP_survives_witness:
  "\<exists>r' w'. recvIGMP_handle sample_externals OUT allHosts 0
     (ReadOk sample_read (Some (sample_cm 4)) (GAddr (IPAddrP [10, 0, 0, 7] [])))
     sample_reporter (sample_busy sample_running) = (Inr r', w')"
  by (rule recvIGMP_survives [OF sample_io _ sample_bufs(1) sample_sane_cm sample_layer_sane])
    (simp_all add: receiver_defs sample_busy_def)

theorem recvIGMP_failover_dies_witness:
  "\<exists>e w'. recvIGMP_handle sample_externals IN IGMPHosts 0
     (ReadOk sample_read (Some (sample_cm 2)) (GAddr (IPAddrP [10, 0, 0, 7] [])))
     sample_full_reporter
     ((sample_busy sample_full_running)\<lparr>IntOutName := [OUT \<mapsto> IN, IN \<mapsto> ALTOUT]\<rparr>) = (Inl e, w')"
proof -
  have "relay_target sample_externals sample_full_reporter
      ((sample_busy sample_full_running)\<lparr>IntOutName := [OUT \<mapsto> IN, IN \<mapsto> ALTOUT]\<rparr>) IN IGMPHosts
      sample_stale (sample_cm 2) = Some ALTOUT"
    unfolding relay_target_def sample_decodes
    by (simp add: active_def addressed_def proxyIt_def groupAddr_def receiver_defs sample_busy_def
        sample_cm_def sample_stale_head igmp_type_defs sample_full_reporter_def sample_full_def)
  then show ?thesis
    using sample_overlay [of sample_full_running 0]
    by (intro recvIGMP_failover_dies [OF sample_full_constructed]) (simp_all add: sample_busy_def)
qed

end
