(* ===== verification/RecvUnicast.thy ===== *)
theory RecvUnicast
  imports Relay
begin

text \<open>
  The unicast receiver of goIGMP_recv_unicast.go: IGMP messages sent to the inside address are
  re-sent as multicast through the current output of the inside. As for the multicast receiver,
  a turn of the loop is \<open>recvUnicast_begin\<close>, the blocking read, and \<open>recvUnicast_handle\<close>. A read
  error other than a timeout does not leave the turn: the code goes on with the old buffer.
  The type assertion on the selector table's value cannot fail (only sides are stored), so its
  branch is not modelled.
\<close>

subsection \<open>Definitions\<close>

definition sendIGMPv1or2 ::
    "externals \<Rightarrow> IGMPReporter \<Rightarrow> side \<Rightarrow> gopacket_layer \<Rightarrow> nat \<Rightarrow> unit act" where
  "sendIGMPv1or2 X r out igmpLayer buf =
     (case igmpLayer of
        LayerV1or2 ig \<Rightarrow> proxyUniToMultiv1or2 X r out (ig_GroupAddress ig) buf
      | _ \<Rightarrow> die (Panic ''nil *layers.IGMPv1or2''))"

definition sendIGMPv3 :: "externals \<Rightarrow> IGMPReporter \<Rightarrow> side \<Rightarrow> nat \<Rightarrow> unit act" where
  "sendIGMPv3 X r out buf =
     bind (proxy X r out (if UnicastMembershipReports (conf r) then QueryHost else IGMPHosts) buf)
       (\<lambda>_. poolPut buf)"

definition sendIGMPLeave :: "externals \<Rightarrow> IGMPReporter \<Rightarrow> side \<Rightarrow> nat \<Rightarrow> unit act" where
  "sendIGMPLeave X r out buf = proxyUniToMultiv1or2 X r out IPv4allrouter buf"

definition recvUnicast_dispatch ::
    "externals \<Rightarrow> IGMPReporter \<Rightarrow> side \<Rightarrow> nat \<Rightarrow> u8 \<Rightarrow> gopacket_layer \<Rightarrow> unit act" where
  "recvUnicast_dispatch X r out buf igmpType igmpLayer =
     (if igmpType = IGMPMembershipReportV1 then sendIGMPv1or2 X r out igmpLayer buf
      else if igmpType = IGMPMembershipReportV2 then sendIGMPv1or2 X r out igmpLayer buf
      else if igmpType = IGMPMembershipReportV3 then sendIGMPv3 X r out buf
      else if igmpType = IGMPLeaveGroup then sendIGMPLeave X r out buf
      else incC [''recvUnicastIGMP'', ''unexpectedIgmpType'', ''error''])"

definition recvUnicast_process :: "externals \<Rightarrow> IGMPReporter \<Rightarrow> side \<Rightarrow> nat \<Rightarrow> unit act" where
  "recvUnicast_process X r interf buf =
     bind (reads (\<lambda>w. heap w buf)) (\<lambda>b.
     case b of
       [] \<Rightarrow> die (Panic ''index out of range'')
     | igmpType # _ \<Rightarrow>
     bind (incC [''recvUnicastIGMP'', igmpTypeString X igmpType, ''count'']) (\<lambda>_.
     case decodeIGMP X b of
       None \<Rightarrow> seqs [incC [''recvUnicastIGMP'', ''deserializing'', ''error''], poolPut buf]
     | Some igmpLayer \<Rightarrow>
     bind (reads IntOutName) (\<lambda>tab.
     case tab interf of
       None \<Rightarrow> seqs [incC [''recvUnicastIGMP'', ''Load'', ''error''], poolPut buf]
     | Some out \<Rightarrow>
         seqs [recvUnicast_dispatch X r out buf igmpType igmpLayer,
               observeH [''recvUnicastIGMP'', ''sincePacketStartTime'', ''counter''],
               observeH [''recvUnicastIGMP'', ''sinceLoopStartTime'', ''counter'']])))"

definition recvUnicast_handle ::
    "externals \<Rightarrow> side \<Rightarrow> nat \<Rightarrow> read_result \<Rightarrow> IGMPReporter \<Rightarrow> unit act" where
  "recvUnicast_handle X interf buf res r =
     (case res of
        ReadTimeout \<Rightarrow> seqs [incC [''recvUnicastIGMP'', ''timeout'', ''counter''], poolPut buf]
      | ReadError \<Rightarrow>
          bind (addC [''recvUnicastIGMP'', ''n'', ''counter''] 0) (\<lambda>_.
          recvUnicast_process X r interf buf)
      | ReadOk pkt cm src \<Rightarrow>
          bind (readInto buf pkt) (\<lambda>n.
          bind (addC [''recvUnicastIGMP'', ''n'', ''counter''] n) (\<lambda>_.
          recvUnicast_process X r interf buf)))"

text \<open>Before the loop; before the read of a turn. The socket is \<open>uCon[IN]\<close> whatever the side.\<close>

definition recvUnicast_start :: "side \<Rightarrow> IGMPReporter \<Rightarrow> unit act" where
  "recvUnicast_start interf r =
     (case NetAddr r interf of
        None \<Rightarrow> die (LogFatal ''recvUnicastIGMP interface IP lookup error'')
      | Some localIP \<Rightarrow> ret ())"

definition recvUnicast_begin :: "externals \<Rightarrow> nat \<Rightarrow> IGMPReporter \<Rightarrow> nat act" where
  "recvUnicast_begin X pick r =
     bind (incC [''recvUnicastIGMP'', ''loops'', ''counter'']) (\<lambda>_.
     case uCon r IN of
       None \<Rightarrow> die (Panic ''nil net.PacketConn'')
     | Some c \<Rightarrow>
         bind (ioOrFatal X ''recvUnicastIGMP SetReadDeadline err:'') (\<lambda>_. poolGet pick))"

definition recvUnicast_turn ::
    "externals \<Rightarrow> side \<Rightarrow> nat \<Rightarrow> read_result \<Rightarrow> IGMPReporter \<Rightarrow> unit act" where
  "recvUnicast_turn X interf pick res r =
     bind (recvUnicast_begin X pick r) (\<lambda>buf. recvUnicast_handle X interf buf res r)"

subsection \<open>What is re-sent\<close>

lemma ipv4Header_NetIP:
  "ipv4Header X r n dest = map_sum id (ipv4HeaderNetIP X n) (destinationNetIP r dest)"
  by (simp add: ipv4Header_def ipv4HeaderNetIP_def split: sum.splits)

lemma destinationNetIP_group:
  "dest \<noteq> QueryHost \<Longrightarrow> destinationNetIP r dest = Inr (get0 [] (mapIPtoNetIP r) dest)"
  by (simp add: destinationNetIP_def)

text \<open>Where a buffer goes: the output side and the destination address.\<close>

definition unicast_target ::
    "externals \<Rightarrow> IGMPReporter \<Rightarrow> world \<Rightarrow> side \<Rightarrow> bytes \<Rightarrow> (side \<times> net_ip) option" where
  "unicast_target X r w interf b =
     (case (b, decodeIGMP X b, IntOutName w interf) of
        (t # _, Some l, Some out) \<Rightarrow>
          if t = IGMPMembershipReportV1 \<or> t = IGMPMembershipReportV2 then
            (case l of LayerV1or2 ig \<Rightarrow> Some (out, ig_GroupAddress ig) | _ \<Rightarrow> None)
          else if t = IGMPMembershipReportV3 then
            (if UnicastMembershipReports (conf r) then
               (case destinationNetIP r QueryHost of Inl _ \<Rightarrow> None | Inr ip \<Rightarrow> Some (out, ip))
             else Some (out, get0 [] (mapIPtoNetIP r) IGMPHosts))
          else if t = IGMPLeaveGroup then Some (out, IPv4allrouter)
          else None
      | _ \<Rightarrow> None)"

definition resent :: "externals \<Rightarrow> IGMPReporter \<Rightarrow> side \<times> net_ip \<Rightarrow> bytes \<Rightarrow> datagram" where
  "resent X r t b = dgram r (fst t) (ipv4HeaderNetIP X (length b) (snd t)) b"

lemma dispatch_spec:
  assumes "recvUnicast_dispatch X r out buf t l w = (Inr (), w')"
    and "IntOutName w interf = Some out" "decodeIGMP X (t # ts) = Some l" "heap w buf = t # ts"
  shows "wire w' = wire w @ (case unicast_target X r w interf (t # ts) of
            None \<Rightarrow> [] | Some tgt \<Rightarrow> [resent X r tgt (t # ts)]) \<and>
     (\<forall>tgt. unicast_target X r w interf (t # ts) = Some tgt \<longrightarrow> conRaw r (fst tgt) \<noteq> None)"
proof -
  consider (v12) "t = IGMPMembershipReportV1 \<or> t = IGMPMembershipReportV2" | (v3) "t = IGMPMembershipReportV3"
    | (leave) "t = IGMPLeaveGroup"
    | (other) "t \<notin> {IGMPMembershipReportV1, IGMPMembershipReportV2, IGMPMembershipReportV3, IGMPLeaveGroup}"
    by blast
  then show ?thesis
  proof cases
    case v12
    with assms obtain ig where l: "l = LayerV1or2 ig"
      and p: "proxyUniToMultiv1or2 X r out (ig_GroupAddress ig) buf w = (Inr (), w')"
      by (auto simp: recvUnicast_dispatch_def sendIGMPv1or2_def igmp_type_defs split: gopacket_layer.splits)
    from proxyUni_cases [OF p] v12 l assms show ?thesis
      by (auto simp: unicast_target_def resent_def)
  next
    case v3
    with assms obtain v where
      p: "proxy X r out (if UnicastMembershipReports (conf r) then QueryHost else IGMPHosts) buf w = (Inr (), v)"
      and "w' = v\<lparr>bytePool := buf # bytePool v\<rparr>"
      by (auto simp: recvUnicast_dispatch_def sendIGMPv3_def igmp_type_defs bind_eq_Inr poolPut_def)
    with proxy_cases [OF p] v3 assms show ?thesis
      by (auto simp: unicast_target_def resent_def igmp_type_defs ipv4Header_NetIP destinationNetIP_group
          split: sum.splits if_splits)
  next
    case leave
    with assms have p: "proxyUniToMultiv1or2 X r out IPv4allrouter buf w = (Inr (), w')"
      by (simp add: recvUnicast_dispatch_def sendIGMPLeave_def igmp_type_defs)
    from proxyUni_cases [OF p] leave assms show ?thesis
      by (auto simp: unicast_target_def resent_def igmp_type_defs)
  next
    case other
    with assms show ?thesis
      by (auto simp: recvUnicast_dispatch_def unicast_target_def incC_def split: if_splits)
  qed
qed

lemma process_spec:
  assumes "recvUnicast_process X r interf buf w = (Inr (), w')"
  shows "wire w' = wire w @ (case unicast_target X r w interf (heap w buf) of
            None \<Rightarrow> [] | Some tgt \<Rightarrow> [resent X r tgt (heap w buf)]) \<and>
     (\<forall>tgt. unicast_target X r w interf (heap w buf) = Some tgt \<longrightarrow> conRaw r (fst tgt) \<noteq> None)"
proof -
  from assms obtain t ts where b: "heap w buf = t # ts"
    by (auto simp: recvUnicast_process_def split: list.splits)
  let ?u = "w\<lparr>pC := bump [''recvUnicastIGMP'', igmpTypeString X t, ''count''] 1 (pC w)\<rparr>"
  show ?thesis
  proof (cases "decodeIGMP X (t # ts)")
    case None
    with assms b show ?thesis
      by (auto simp: recvUnicast_process_def bind_incC bind_eq_Inr incC_def poolPut_def unicast_target_def)
  next
    case (Some l)
    show ?thesis
    proof (cases "IntOutName w interf")
      case None
      with assms b Some show ?thesis
        by (auto simp: recvUnicast_process_def bind_incC bind_eq_Inr incC_def poolPut_def unicast_target_def)
    next
      case out: (Some out)
      with assms b Some obtain v where d: "recvUnicast_dispatch X r out buf t l ?u = (Inr (), v)"
        and w': "wire w' = wire v"
        by (auto simp: recvUnicast_process_def bind_incC bind_eq_Inr observeH_def)
      have same: "unicast_target X r ?u interf b = unicast_target X r w interf b" for b
        by (simp add: unicast_target_def)
      have "IntOutName ?u interf = Some out" "heap ?u buf = t # ts" using out b by simp_all
      from dispatch_spec [OF d this(1) Some this(2)] w' show ?thesis
        unfolding same b by simp
    qed
  qed
qed

lemma keeps_unicast_handle:
  assumes f: "send_frame f" and "\<And>w x. f (w\<lparr>bytePool := x\<rparr>) = f w" "\<And>w x. f (w\<lparr>heap := x\<rparr>) = f w"
  shows "keeps f (recvUnicast_handle X i b res r)"
proof -
  have q: "keeps f (incC l)" "keeps f (addC l n)" "keeps f (observeH l)" "keeps f (poolPut c)"
    "keeps f (readInto c d)" for l n c d
    using assms by (simp_all add: send_frame_def keeps_incC keeps_addC keeps_observeH keeps_poolPut keeps_readInto)
  have d: "keeps f (recvUnicast_dispatch X r out b t l)" for out t l
    unfolding recvUnicast_dispatch_def sendIGMPv1or2_def sendIGMPv3_def sendIGMPLeave_def
    by (intro keeps_if keeps_bind keeps_layer keeps_simple q keeps_proxy [OF f] keeps_proxyUni [OF f])
  have pr: "keeps f (recvUnicast_process X r i b)"
    unfolding recvUnicast_process_def
    by (intro keeps_bind keeps_list keeps_option keeps_simple q keeps_seqs; simp add: q d)
  show ?thesis
    by (cases res) (auto simp: recvUnicast_handle_def intro!: keeps_bind keeps_simple q pr)
qed

text \<open>
  C11: What the unicast receiver re-sends. When it has handled a packet, the wire has gained at
  most one datagram, through the inside's current output: a version 1 or 2 report goes to the
  group it names, a version 3 report to 224.0.0.22 (or to the query host, if reports are unicast),
  a leave to 224.0.0.2; other types, undecodable packets and a missing output send nothing.
\<close>
theorem recvUnicast_resends:
  assumes "recvUnicast_handle X interf buf (ReadOk pkt cm src) r w = (Inr (), w')"
  shows "wire w' = wire w @ (case unicast_target X r w interf (overlay pkt (heap w buf)) of
            None \<Rightarrow> [] | Some tgt \<Rightarrow> [resent X r tgt (overlay pkt (heap w buf))])"
proof -
  obtain u where p: "recvUnicast_process X r interf buf u = (Inr (), w')"
    and u: "heap u buf = overlay pkt (heap w buf)" "wire u = wire w" "IntOutName u = IntOutName w"
    using assms by (auto simp: recvUnicast_handle_def readInto_def addC_def)
  have same: "unicast_target X r u interf b = unicast_target X r w interf b" for b
    by (simp add: unicast_target_def u)
  from process_spec [OF p] show ?thesis unfolding same u by blast
qed

text \<open>
  C36: A failed read is handled as if a packet had arrived: the code does not leave the turn, so
  the message still in the pooled buffer, one it received before, is sent out once more.
\<close>
theorem recvUnicast_error_resends_old:
  assumes "recvUnicast_handle X interf buf ReadError r w = (Inr (), w')"
    and "unicast_target X r w interf (heap w buf) = Some tgt"
  shows "wire w' = wire w @ [resent X r tgt (heap w buf)]"
proof -
  obtain u where p: "recvUnicast_process X r interf buf u = (Inr (), w')"
    and u: "heap u = heap w" "wire u = wire w" "IntOutName u = IntOutName w"
    using assms by (auto simp: recvUnicast_handle_def addC_def)
  have same: "unicast_target X r u interf b = unicast_target X r w interf b" for b
    by (simp add: unicast_target_def u)
  from process_spec [OF p] assms(2) show ?thesis unfolding same u by simp
qed

text \<open>
  A type octet that promises a version 1 or 2 report, on a packet that decodes to another
  layer, ends the process: the failed cast is only logged and its nil result is used.
\<close>
theorem recvUnicast_bad_cast_panics:
  assumes "overlay pkt (heap w buf) = t # ts"
    and "t = IGMPMembershipReportV1 \<or> t = IGMPMembershipReportV2"
    and "decodeIGMP X (t # ts) = Some l" and "\<forall>ig. l \<noteq> LayerV1or2 ig"
    and "IntOutName w interf = Some out"
  shows "fst (recvUnicast_handle X interf buf (ReadOk pkt cm src) r w) =
     Inl (Panic ''nil *layers.IGMPv1or2'')"
proof -
  have "sendIGMPv1or2 X r out l buf = die (Panic ''nil *layers.IGMPv1or2'')"
    using assms(4) by (cases l) (auto simp: sendIGMPv1or2_def)
  then have "recvUnicast_dispatch X r out buf t l = die (Panic ''nil *layers.IGMPv1or2'')"
    using assms(2) by (auto simp: recvUnicast_dispatch_def)
  with assms(1,3,5) show ?thesis
    by (simp add: recvUnicast_handle_def readInto_def addC_def recvUnicast_process_def bind_incC)
qed

subsection \<open>Buffers\<close>

lemma triple_dispatch:
  "triple (bufs_ok (b # H)) (recvUnicast_dispatch X r out b t l) (\<lambda>_. bufs_ok H)"
proof -
  have quiet: "triple (bufs_ok (b # H)) m (\<lambda>_. bufs_ok H)" if "keeps bufstate m" for m :: "unit act"
    by (rule triple_conseq [OF keeps_bufs [OF that]]) (auto intro: bufs_ok_release)
  have "keeps bufstate (sendIGMPv1or2 X r out l b)"
    by (cases l) (simp_all add: sendIGMPv1or2_def keeps_proxyUni keeps_simple)
  moreover have "triple (bufs_ok (b # H)) (sendIGMPv3 X r out b) (\<lambda>_. bufs_ok H)"
    unfolding sendIGMPv3_def
    by (rule triple_bind [OF _ poolPut_bufs_ok]) (simp add: keeps_bufs keeps_proxy)
  ultimately show ?thesis
    by (auto simp: recvUnicast_dispatch_def sendIGMPLeave_def
        intro!: quiet keeps_proxyUni keeps_incC) (simp add: bufstate_def)
qed

lemma triple_put:
  assumes "keeps bufstate m"
  shows "triple (bufs_ok (b # H)) (seqs [m, poolPut b]) (\<lambda>_. bufs_ok H)"
  unfolding seqs.simps
  by (rule triple_bind, rule keeps_bufs [OF assms], rule triple_bind, rule poolPut_bufs_ok)
    (simp add: triple_ret)

lemma triple_process:
  "triple (bufs_ok (b # H)) (recvUnicast_process X r interf b) (\<lambda>_. bufs_ok H)"
  unfolding recvUnicast_process_def
proof (rule triple_bind [where Q = "\<lambda>_. bufs_ok (b # H)"], simp add: keeps_bufs keeps_simple,
    split list.split, intro conjI allI impI triple_die)
  fix bs t ts
  show "triple (bufs_ok (b # H)) (bind (incC [''recvUnicastIGMP'', igmpTypeString X t, ''count'']) (\<lambda>_.
     case decodeIGMP X bs of
       None \<Rightarrow> seqs [incC [''recvUnicastIGMP'', ''deserializing'', ''error''], poolPut b]
     | Some igmpLayer \<Rightarrow>
     bind (reads IntOutName) (\<lambda>tab.
     case tab interf of
       None \<Rightarrow> seqs [incC [''recvUnicastIGMP'', ''Load'', ''error''], poolPut b]
     | Some out \<Rightarrow>
         seqs [recvUnicast_dispatch X r out b t igmpLayer,
               observeH [''recvUnicastIGMP'', ''sincePacketStartTime'', ''counter''],
               observeH [''recvUnicastIGMP'', ''sinceLoopStartTime'', ''counter'']]))) (\<lambda>_. bufs_ok H)"
  proof (rule triple_bind [where Q = "\<lambda>_. bufs_ok (b # H)"], simp add: keeps_bufs keeps_incC bufstate_def,
      rule triple_option, rule triple_put, simp add: keeps_incC bufstate_def,
      rule triple_bind [where Q = "\<lambda>_. bufs_ok (b # H)"], simp add: keeps_bufs keeps_simple,
      rule triple_option, rule triple_put, simp add: keeps_incC bufstate_def)
    fix l out
    have obs: "triple (bufs_ok H) (seqs [observeH [''recvUnicastIGMP'', ''sincePacketStartTime'', ''counter''],
        observeH [''recvUnicastIGMP'', ''sinceLoopStartTime'', ''counter'']]) (\<lambda>_. bufs_ok H)"
      by (rule keeps_bufs, rule keeps_seqs) (simp add: keeps_observeH bufstate_def)
    show "triple (bufs_ok (b # H)) (seqs [recvUnicast_dispatch X r out b t l,
               observeH [''recvUnicastIGMP'', ''sincePacketStartTime'', ''counter''],
               observeH [''recvUnicastIGMP'', ''sinceLoopStartTime'', ''counter'']]) (\<lambda>_. bufs_ok H)"
      by (simp only: seqs.simps(2) [where m = "recvUnicast_dispatch X r out b t l"])
        (rule triple_bind [OF triple_dispatch obs])
  qed
qed

lemma triple_unicast_handle:
  "triple (bufs_ok (b # H)) (recvUnicast_handle X interf b res r) (\<lambda>_. bufs_ok H)"
proof (cases res)
  case (ReadOk pkt cm src)
  show ?thesis
    unfolding ReadOk recvUnicast_handle_def read_result.case
    by (rule triple_bind, rule triple_preserves, rule readInto_bufs_ok,
        rule triple_bind [OF _ triple_process], simp add: keeps_bufs keeps_addC bufstate_def)
next
  case ReadError
  show ?thesis
    unfolding ReadError recvUnicast_handle_def read_result.case
    by (rule triple_bind [OF _ triple_process], simp add: keeps_bufs keeps_addC bufstate_def)
qed (simp add: recvUnicast_handle_def triple_put keeps_incC bufstate_def del: seqs.simps)

lemma triple_unicast_begin:
  "triple (bufs_ok H) (recvUnicast_begin X pick r) (\<lambda>b. bufs_ok (b # H))"
  unfolding recvUnicast_begin_def
proof (rule triple_bind)
  show "triple (bufs_ok H) (incC [''recvUnicastIGMP'', ''loops'', ''counter'']) (\<lambda>_. bufs_ok H)"
    by (simp add: keeps_bufs keeps_incC bufstate_def)
  show "triple (bufs_ok H) (case uCon r IN of None \<Rightarrow> die (Panic ''nil net.PacketConn'')
      | Some c \<Rightarrow> bind (ioOrFatal X ''recvUnicastIGMP SetReadDeadline err:'') (\<lambda>_. poolGet pick))
      (\<lambda>b. bufs_ok (b # H))" for x
    by (rule triple_option, rule triple_die, rule triple_bind [OF _ poolGet_bufs_ok])
      (simp add: keeps_bufs keeps_ioOrFatal bufstate_def)
qed

subsection \<open>Turns that do not end the process, and one that does\<close>

lemma proxyUni_returns:
  "io_ok X \<Longrightarrow> conRaw r out \<noteq> None \<Longrightarrow> returns (proxyUniToMultiv1or2 X r out d buf)"
  unfolding proxyUniToMultiv1or2_def setWriteDeadline_def writeTo_def
  by (auto simp del: seqs.simps intro!: returns_intros)

lemma proxy_dest_returns:
  assumes "io_ok X" "conRaw r out \<noteq> None" "destinationNetIP r dest = Inr ip"
  shows "returns (proxy X r out dest buf)"
  using assms unfolding proxy_def setWriteDeadline_def writeTo_def
  by (auto simp: ipv4Header_NetIP simp del: seqs.simps intro!: returns_intros returns_lift)

lemma queryHost_valid:
  "Addr_IsValid (unicastDst r) \<Longrightarrow> \<exists>ip. destinationNetIP r QueryHost = Inr ip"
  by (auto simp: destinationNetIP_def reporter_addr2NetIP_eq addr2NetIP_def)

text \<open>The layer the unicast receiver needs for a type.\<close>

definition layer_fits :: "u8 \<Rightarrow> gopacket_layer \<Rightarrow> bool" where
  "layer_fits t l =
     (if t = IGMPMembershipReportV1 \<or> t = IGMPMembershipReportV2 then
        (case l of LayerV1or2 ig \<Rightarrow> True | _ \<Rightarrow> False)
      else True)"

lemma dispatch_returns:
  assumes "io_ok X" "conRaw r out \<noteq> None" "Addr_IsValid (unicastDst r)" "layer_fits t l"
  shows "returns (recvUnicast_dispatch X r out buf t l)"
proof -
  have v3: "returns (sendIGMPv3 X r out buf)"
    unfolding sendIGMPv3_def
    using assms(1,2) queryHost_valid [OF assms(3)]
    by (auto intro!: returns_bind proxy_dest_returns destinationNetIP_group)
  have v12: "returns (sendIGMPv1or2 X r out l buf)"
    if "t = IGMPMembershipReportV1 \<or> t = IGMPMembershipReportV2"
    using that assms proxyUni_returns
    by (auto simp: sendIGMPv1or2_def layer_fits_def split: gopacket_layer.splits)
  show ?thesis
    using v3 v12 assms(1,2) proxyUni_returns by (auto simp: recvUnicast_dispatch_def sendIGMPLeave_def)
qed

lemma process_ok_at:
  assumes "io_ok X" "Addr_IsValid (unicastDst r)" "heap w buf = t # ts"
    and "\<And>l. decodeIGMP X (t # ts) = Some l \<Longrightarrow> layer_fits t l"
    and "\<And>out. IntOutName w interf = Some out \<Longrightarrow> conRaw r out \<noteq> None"
  shows "ok_at (recvUnicast_process X r interf buf) w"
proof -
  let ?u = "w\<lparr>pC := bump [''recvUnicastIGMP'', igmpTypeString X t, ''count''] 1 (pC w)\<rparr>"
  have "ok_at (case decodeIGMP X (t # ts) of
       None \<Rightarrow> seqs [incC [''recvUnicastIGMP'', ''deserializing'', ''error''], poolPut buf]
     | Some igmpLayer \<Rightarrow>
     bind (reads IntOutName) (\<lambda>tab.
     case tab interf of
       None \<Rightarrow> seqs [incC [''recvUnicastIGMP'', ''Load'', ''error''], poolPut buf]
     | Some out \<Rightarrow>
         seqs [recvUnicast_dispatch X r out buf t igmpLayer,
               observeH [''recvUnicastIGMP'', ''sincePacketStartTime'', ''counter''],
               observeH [''recvUnicastIGMP'', ''sinceLoopStartTime'', ''counter'']])) ?u"
  proof (cases "decodeIGMP X (t # ts)")
    case None
    then show ?thesis by (simp add: ok_at_returns returns_seqs del: seqs.simps)
  next
    case (Some l)
    have "ok_at (case IntOutName ?u interf of
       None \<Rightarrow> seqs [incC [''recvUnicastIGMP'', ''Load'', ''error''], poolPut buf]
     | Some out \<Rightarrow>
         seqs [recvUnicast_dispatch X r out buf t l,
               observeH [''recvUnicastIGMP'', ''sincePacketStartTime'', ''counter''],
               observeH [''recvUnicastIGMP'', ''sinceLoopStartTime'', ''counter'']]) ?u"
      using assms(1,2,5) dispatch_returns assms(4) [OF Some]
      by (cases "IntOutName w interf") (auto simp del: seqs.simps intro!: ok_at_returns returns_seqs)
    with Some show ?thesis by (simp add: ok_at_def del: seqs.simps)
  qed
  with assms(3) show ?thesis by (simp add: recvUnicast_process_def bind_incC ok_at_def)
qed

text \<open>
  A unicast receiver survives its input, read errors included, when system calls work, the
  fallback unicast destination is valid, the decoder gives every version 1 or 2 report its
  layer, and the outputs the selector may name have open raw connections.
\<close>
theorem recvUnicast_survives:
  assumes "io_ok X" and "Addr_IsValid (unicastDst r)" and "bufs_ok (buf # H) w"
    and "\<And>t b l. decodeIGMP X (t # b) = Some l \<Longrightarrow> layer_fits t l"
    and "\<And>out. IntOutName w interf = Some out \<Longrightarrow> conRaw r out \<noteq> None"
  shows "\<exists>w'. recvUnicast_handle X interf buf res r w = (Inr (), w')"
proof -
  have len: "length (heap w buf) = 200"
    using bufs_ok_length [OF assms(3)] by (simp add: maxIGMPPacketRecieveBytesCst_def)
  have go: "\<exists>w'. recvUnicast_process X r interf buf u = (Inr (), w')"
    if "length (heap u buf) = 200" "IntOutName u = IntOutName w" for u
  proof -
    from that(1) obtain t ts where "heap u buf = t # ts" by (cases "heap u buf") auto
    from process_ok_at [OF assms(1,2) this assms(4)] assms(5) that(2) show ?thesis
      by (auto simp: ok_at_def)
  qed
  show ?thesis
  proof (cases res)
    case (ReadOk pkt cm src)
    with len show ?thesis by (auto simp: recvUnicast_handle_def readInto_def addC_def intro!: go)
  qed (use len in \<open>auto simp: recvUnicast_handle_def incC_def poolPut_def addC_def intro!: go\<close>)
qed

text \<open>
  Failing over to the alternative outside interface kills the unicast proxy: once the
  selector has stored ALTOUT as the output of the inside, the first message to be re-sent ends
  the process, because the constructor opened no raw connection for ALTOUT.
\<close>
theorem recvUnicast_failover_dies:
  assumes "NewIGMPReporter X c w0 = (Inr r, w1)"
    and "unicast_target X r w interf (overlay pkt (heap w buf)) = Some (ALTOUT, ip)"
  shows "\<exists>e w'. recvUnicast_handle X interf buf (ReadOk pkt cm src) r w = (Inl e, w')"
proof -
  have "dom (conRaw r) = raws_of c" using NewIGMPReporter_built [OF assms(1)] by (simp add: built_def)
  moreover have "ALTOUT \<notin> raws_of c" by (auto simp: raws_of_def)
  ultimately have closed: "conRaw r ALTOUT = None" by blast
  obtain res w' where run: "recvUnicast_handle X interf buf (ReadOk pkt cm src) r w = (res, w')"
    by (cases "recvUnicast_handle X interf buf (ReadOk pkt cm src) r w")
  show ?thesis
  proof (cases res)
    case (Inr x)
    obtain u where p: "recvUnicast_process X r interf buf u = (Inr (), w')"
      and u: "heap u buf = overlay pkt (heap w buf)" "IntOutName u = IntOutName w"
      using run Inr by (auto simp: recvUnicast_handle_def readInto_def addC_def)
    have "unicast_target X r u interf b = unicast_target X r w interf b" for b
      by (simp add: unicast_target_def u)
    with process_spec [OF p] assms(2) closed u(1) show ?thesis by auto
  qed (use run in simp)
qed

subsection \<open>Witnesses\<close>

lemma sample_layer_fits: "decodeIGMP sample_externals (t # b) = Some l \<Longrightarrow> layer_fits t l"
  by (auto simp: sample_externals_def sample_decode_def layer_fits_def igmp_type_defs split: if_splits)

lemma sample_busy_out: "IntOutName (sample_busy sample_running) IN = Some OUT"
  by (simp add: sample_busy_def sample_running_def)

lemma sample_unicast_target:
  "unicast_target sample_externals sample_reporter (sample_busy sample_running) IN sample_stale =
     Some (OUT, [239, 1, 1, 1])"
  unfolding unicast_target_def sample_decodes sample_busy_out
  by (simp add: sample_stale_head igmp_type_defs)

lemma sample_process_runs:
  assumes "length (heap u 0) = 200" "IntOutName u = [OUT \<mapsto> IN, IN \<mapsto> OUT]"
  shows "\<exists>w'. recvUnicast_process sample_externals sample_reporter IN 0 u = (Inr (), w')"
proof -
  from assms(1) obtain t ts where "heap u 0 = t # ts" by (cases "heap u 0") auto
  moreover have "Addr_IsValid (unicastDst sample_reporter)" "conRaw sample_reporter OUT \<noteq> None"
    by (simp_all add: sample_reporter_def Addr_IsValid_def)
  ultimately have "ok_at (recvUnicast_process sample_externals sample_reporter IN 0) u"
    using assms(2) by (intro process_ok_at [OF sample_io _ _ sample_layer_fits]) auto
  then show ?thesis by (simp add: ok_at_def)
qed

definition sample_held :: "bytes \<Rightarrow> world" where
  "sample_held b = (sample_busy sample_running)\<lparr>heap := (\<lambda>_. b)\<rparr>"

theorem recvUnicast_resends_witness:
  "\<exists>w'. recvUnicast_handle sample_externals IN 0 (ReadOk sample_read None GNil) sample_reporter
      (sample_busy sample_running) = (Inr (), w') \<and>
     wire w' = [resent sample_externals sample_reporter (OUT, [239, 1, 1, 1]) sample_stale]"
proof -
  have "\<exists>w'. recvUnicast_handle sample_externals IN 0 (ReadOk sample_read None GNil)
      sample_reporter (sample_busy sample_running) = (Inr (), w')"
    unfolding recvUnicast_handle_def read_result.case readInto_def addC_def
    by (simp, rule sample_process_runs) (simp_all add: sample_busy_def sample_running_def)
  then obtain w' where run: "recvUnicast_handle sample_externals IN 0 (ReadOk sample_read None GNil)
      sample_reporter (sample_busy sample_running) = (Inr (), w')" by blast
  have "wire (sample_busy sample_running) = []" by (simp add: sample_busy_def receiver_defs)
  with recvUnicast_resends [OF run] run show ?thesis
    by (simp add: sample_overlay sample_unicast_target)
qed

theorem recvUnicast_error_resends_old_witness:
  "\<exists>w'. recvUnicast_handle sample_externals IN 0 ReadError sample_reporter
      (sample_held sample_stale) = (Inr (), w') \<and> length (wire w') = 1"
proof -
  have "length sample_stale = 200" by (simp add: sample_stale_def sample_report_def)
  then have "\<exists>w'. recvUnicast_handle sample_externals IN 0 ReadError sample_reporter
      (sample_held sample_stale) = (Inr (), w')"
    unfolding recvUnicast_handle_def read_result.case addC_def
    by (simp, intro sample_process_runs) (simp_all add: sample_held_def sample_busy_def sample_running_def)
  then obtain w' where run: "recvUnicast_handle sample_externals IN 0 ReadError sample_reporter
      (sample_held sample_stale) = (Inr (), w')" by blast
  have "unicast_target sample_externals sample_reporter (sample_held sample_stale) IN
      (heap (sample_held sample_stale) 0) = Some (OUT, [239, 1, 1, 1])"
    using sample_unicast_target by (simp add: unicast_target_def sample_held_def)
  from recvUnicast_error_resends_old [OF run this] run show ?thesis
    by (auto simp: sample_held_def sample_busy_def receiver_defs)
qed

theorem recvUnicast_bad_cast_panics_witness:
  "fst (recvUnicast_handle (sample_externals\<lparr>decodeIGMP := (\<lambda>_. Some LayerOther)\<rparr>) IN 0
     (ReadOk sample_read None GNil) sample_reporter (sample_busy sample_running)) =
   Inl (Panic ''nil *layers.IGMPv1or2'')"
  by (rule recvUnicast_bad_cast_panics [OF sample_overlay [unfolded sample_stale_head], of _ LayerOther])
    (simp_all add: igmp_type_defs sample_busy_out)

theorem recvUnicast_survives_witness:
  "\<exists>w'. recvUnicast_handle sample_externals IN 0 ReadError sample_reporter
     (sample_busy sample_running) = (Inr (), w')"
  by (rule recvUnicast_survives [OF sample_io _ sample_bufs(1) sample_layer_fits])
    (auto simp: sample_busy_out sample_reporter_def Addr_IsValid_def)

theorem recvUnicast_failover_dies_witness:
  "\<exists>e w'. recvUnicast_handle sample_externals IN 0 (ReadOk sample_read None GNil)
     sample_full_reporter
     ((sample_busy sample_full_running)\<lparr>IntOutName := [OUT \<mapsto> IN, IN \<mapsto> ALTOUT]\<rparr>) = (Inl e, w')"
proof -
  have "unicast_target sample_externals sample_full_reporter
      ((sample_busy sample_full_running)\<lparr>IntOutName := [OUT \<mapsto> IN, IN \<mapsto> ALTOUT]\<rparr>) IN sample_stale =
      Some (ALTOUT, [239, 1, 1, 1])"
    unfolding unicast_target_def sample_decodes
    by (simp add: sample_stale_head igmp_type_defs)
  then show ?thesis
    using sample_overlay [of sample_full_running 0]
    by (intro recvUnicast_failover_dies [OF sample_full_constructed]) (simp_all add: sample_busy_def)
qed

end
