(* ===== verification/Workers.thy ===== *)
theory Workers
  imports RecvUnicast
begin

text \<open>
  The goroutines that serve channels: the output selector (goIGMP_out_selector.go), the report
  and leave workers and the two testing workers (goIGMP_membership.go, goIGMP_leave.go), and the
  self-query goroutines that \<open>RunSelfQuery\<close> starts. Each worker's loop is: a counter, a
  \<open>select\<close> over its channel and \<open>ctx.Done()\<close> (the selector has no \<open>ctx\<close> and only
  receives), and a body. The bodies are modelled here; theory Run composes the loops.
\<close>

subsection \<open>The heads of the worker loops\<close>

text \<open>What a worker does at the top of each turn, before it can block.\<close>

definition outInterfaceSelector_head :: "unit act" where
  "outInterfaceSelector_head = incC [''outInterfaceSelector'', ''loops'', ''count'']"

definition readMembershipReportToNetworkCh_head :: "unit act" where
  "readMembershipReportToNetworkCh_head = incC [''readMembershipReportToNetworkCh'', ''loops'', ''count'']"

definition leaveToNetworkWorker_head :: "unit act" where
  "leaveToNetworkWorker_head = incC [''leaveToNetworkWorker'', ''loops'', ''count'']"

definition connectQueryToReport_head :: "unit act" where
  "connectQueryToReport_head = incC [''connectQueryToReport'', ''loops'', ''count'']"

definition testingReadMembershipReportsFromNetwork_head :: "unit act" where
  "testingReadMembershipReportsFromNetwork_head = incC [''testingReadMembershipReportsFromNetwork'', ''loops'', ''count'']"

lemmas head_defs [simp] =
  outInterfaceSelector_head_def
  readMembershipReportToNetworkCh_head_def
  leaveToNetworkWorker_head_def
  connectQueryToReport_head_def
  testingReadMembershipReportsFromNetwork_head_def

subsection \<open>The bodies of the workers\<close>

definition outInterfaceSelector_body :: "side \<Rightarrow> unit act" where
  "outInterfaceSelector_body outInt =
     seqs [upd (\<lambda>w. w\<lparr>IntOutName := (IntOutName w)(IN \<mapsto> outInt)\<rparr>),
           incC [''outInterfaceSelector'', side_String outInt, ''count''],
           upd (\<lambda>w. w\<lparr>pG := outInt\<rparr>),
           observeH [''outInterfaceSelector'', ''loop'', ''complete'']]"

definition readMembershipReportToNetworkCh_body ::
    "externals \<Rightarrow> IGMPReporter \<Rightarrow> MembershipItem list \<Rightarrow> unit act" where
  "readMembershipReportToNetworkCh_body X r groups =
     seqs [sendMembershipReport X r OUT groups,
           observeH [''readMembershipReportToNetworkCh'', ''loop'', ''complete'']]"

definition leaveToNetworkWorker_body ::
    "externals \<Rightarrow> IGMPReporter \<Rightarrow> MembershipItem list \<Rightarrow> unit act" where
  "leaveToNetworkWorker_body X r groups =
     seqs [sendLeave X r OUT groups, observeH [''leaveToNetworkWorker'', ''loop'', ''complete'']]"

text \<open>\<open>mi\<close> is declared and never assigned: the batch is always empty.\<close>

definition connectQueryToReport_body :: "externals \<Rightarrow> IGMPReporter \<Rightarrow> unit act" where
  "connectQueryToReport_body X r =
     (let mi = [] in
      seqs [sendMembershipReport X r OUT mi, observeH [''connectQueryToReport'', ''loop'', ''complete'']])"

definition testingReadMembershipReportsFromNetwork_body :: "MembershipItem list \<Rightarrow> unit act" where
  "testingReadMembershipReportsFromNetwork_body groups =
     observeH [''testingReadMembershipReportsFromNetwork'', ''loop'', ''complete'']"

subsection \<open>Receiving from a channel of the shared state\<close>

text \<open>
  \<open>get\<close> and \<open>put\<close> select the channel. A receive that succeeds at once, one that ends a wait,
  the start of a wait, and giving a wait up for \<open>ctx.Done()\<close>; \<open>None\<close> where it is not possible.
\<close>

type_synonym 'a chan_put = "('a chan option \<Rightarrow> 'a chan option) \<Rightarrow> world \<Rightarrow> world"

definition take_now ::
    "(world \<Rightarrow> 'a chan option) \<Rightarrow> 'a chan_put \<Rightarrow> world \<Rightarrow> ('a \<times> world) option" where
  "take_now get put w =
     (case get w of None \<Rightarrow> None
      | Some c \<Rightarrow> map_option (\<lambda>(x, c'). (x, put (\<lambda>_. Some c') w)) (recv_now c))"

definition take_parked ::
    "(world \<Rightarrow> 'a chan option) \<Rightarrow> 'a chan_put \<Rightarrow> world \<Rightarrow> ('a \<times> world) option" where
  "take_parked get put w =
     (case get w of None \<Rightarrow> None
      | Some c \<Rightarrow> map_option (\<lambda>(x, c'). (x, put (\<lambda>_. Some c') w)) (recv_parked c))"

definition park_on :: "(world \<Rightarrow> 'a chan option) \<Rightarrow> 'a chan_put \<Rightarrow> world \<Rightarrow> world option" where
  "park_on get put w =
     (case get w of None \<Rightarrow> Some w
      | Some c \<Rightarrow> map_option (\<lambda>c'. put (\<lambda>_. Some c') w) (park c))"

definition unpark_on :: "(world \<Rightarrow> 'a chan option) \<Rightarrow> 'a chan_put \<Rightarrow> world \<Rightarrow> world option" where
  "unpark_on get put w =
     (case get w of None \<Rightarrow> Some w
      | Some c \<Rightarrow> map_option (\<lambda>c'. put (\<lambda>_. Some c') w) (unpark c))"

subsection \<open>What the bodies do\<close>

text \<open>
  The output selector stores what it is told. It sets the inside's output and leaves the
  rest of the table alone; the gauge shows the value. The value is not checked: a client can make
  the inside, or a number that is no side at all, the output of the inside.
\<close>
theorem outInterfaceSelector_stores:
  "\<exists>w'. outInterfaceSelector_body v w = (Inr (), w') \<and> IntOutName w' = (IntOutName w)(IN \<mapsto> v) \<and>
     pG w' = v \<and> wire w' = wire w"
  by (simp add: outInterfaceSelector_body_def incC_def observeH_def)

text \<open>
  The testing worker that is meant to answer queries with reports never sends one: whatever
  it is run on, it returns and the wire is unchanged.
\<close>
theorem connectQueryToReport_sends_nothing:
  "\<exists>w'. connectQueryToReport_body X r w = (Inr (), w') \<and> wire w' = wire w"
  by (simp add: connectQueryToReport_body_def sendMembershipReport_def incC_def observeH_def)

subsection \<open>The self query\<close>

definition RunSelfQuery :: "IGMPReporter \<Rightarrow> side list" where
  "RunSelfQuery r = Interfaces r"

lemma selfQuery_setup_cases:
  assumes "selfQuery_setup X r interf w = (res, w')"
  shows "wire w' = wire w"
    and "res = Inr None \<longleftrightarrow> get0 0 (TimerDuration r) QUERY < minQueryDurationCst"
    and "res = Inr (Some (h, b)) \<Longrightarrow>
       serializeV1or2 X \<lparr>ig_Type = IGMPMembershipQuery, ig_MaxResponseTime = igmpQueryMaxResponseTimeCst,
         ig_GroupAddress = get0 [] (mapIPtoNetIP r) allZerosHosts, ig_Version = 2\<rparr> = Some b \<and>
       h = ipv4HeaderNetIP X (length b) (get0 [] (mapIPtoNetIP r) IGMPHosts)"
  using assms
  by (auto simp: selfQuery_setup_def bind_incC bind_lift observeH_def ipv4Header_dest
      split: if_splits option.splits sum.splits)

lemma selfQuery_tick_cases:
  assumes "selfQuery_tick X r interf h b w = (res, w')"
  shows "(res = Inr () \<and> conRaw r interf \<noteq> None \<and> wire w' = wire w @ [dgram r interf h b]) \<or>
         (\<exists>e. res = Inl e \<and> wire w' = wire w)"
proof -
  let ?w1 = "w\<lparr>pC := bump [''selfQuery'', ''loops'', ''count''] 1 (pC w)\<rparr>"
  have "seqs (setWriteDeadline X r interf ''selfQuery SetWriteDeadline err:''
      # writeTo X r interf h b ''selfQuery WriteTo err:''
      # [incC [''selfQuery'', ''WriteTo'', ''count''],
         addC [''selfQuery'', ''WriteToBytes'', ''count''] (length b),
         observeH [''selfQuery'', ''loopStartTime'', ''complete'']]) ?w1 = (res, w')"
    using assms unfolding selfQuery_tick_def
    by (simp only: seqs.simps(2) [where m = "incC [''selfQuery'', ''loops'', ''count'']"] bind_incC)
  from emit_cases [OF this seqs_metrics(1,2)] show ?thesis by simp
qed

text \<open>
  A self query is a general query. Where the goroutine of a side gets past its start, the
  query time is at least a second, and each tick that returns puts one IGMPv2 general query on
  the wire, through that side, addressed to 224.0.0.22.
\<close>
theorem selfQuery_spec:
  assumes "selfQuery_setup X r interf w0 = (Inr (Some (h, b)), w1)"
    and "selfQuery_tick X r interf h b w = (Inr (), w')"
  shows "minQueryDurationCst \<le> get0 0 (TimerDuration r) QUERY \<and>
     serializeV1or2 X \<lparr>ig_Type = IGMPMembershipQuery, ig_MaxResponseTime = igmpQueryMaxResponseTimeCst,
       ig_GroupAddress = get0 [] (mapIPtoNetIP r) allZerosHosts, ig_Version = 2\<rparr> = Some b \<and>
     wire w' = wire w @
       [dgram r interf (ipv4HeaderNetIP X (length b) (get0 [] (mapIPtoNetIP r) IGMPHosts)) b]"
  using selfQuery_setup_cases(2) [OF assms(1)] selfQuery_setup_cases(3) [OF assms(1) refl]
    selfQuery_tick_cases [OF assms(2)] by auto

text \<open>
  \<open>RunSelfQuery\<close> starts a goroutine for every interface, but a tick survives only on a side
  whose raw connection the configuration opened; on any other side, and always on the alternative
  outside interface, the first tick ends the process.
\<close>
theorem selfQuery_needs_raw:
  assumes "NewIGMPReporter X c w0 = (Inr r, w1)" and "interf \<in> set (RunSelfQuery r)"
    and "interf \<notin> raws_of c"
  shows "fst (selfQuery_tick X r interf h b w) = Inl (Panic ''nil *ipv4.RawConn'')"
proof -
  have "dom (conRaw r) = raws_of c" using NewIGMPReporter_built [OF assms(1)] by (simp add: built_def)
  with assms(3) have "conRaw r interf = None" by blast
  then show ?thesis by (simp add: selfQuery_tick_def setWriteDeadline_def incC_def)
qed

subsection \<open>Witnesses\<close>

theorem selfQuery_spec_witness:
  "\<exists>h b w1 w'. selfQuery_setup sample_externals sample_reporter OUT sample_running =
      (Inr (Some (h, b)), w1) \<and>
     selfQuery_tick sample_externals sample_reporter OUT h b w1 = (Inr (), w') \<and> b \<noteq> []"
proof -
  obtain h b w1 where s: "selfQuery_setup sample_externals sample_reporter OUT sample_running =
      (Inr (Some (h, b)), w1)"
    by (simp add: selfQuery_setup_def bind_incC bind_lift ipv4Header_dest receiver_defs
        minQueryDurationCst_def Second_def sample_serialize_def)
  obtain res w' where t: "selfQuery_tick sample_externals sample_reporter OUT h b w1 = (res, w')"
    by (cases "selfQuery_tick sample_externals sample_reporter OUT h b w1")
  have "res = Inr ()"
    using t by (simp add: selfQuery_tick_def setWriteDeadline_def writeTo_def incC_def addC_def
        observeH_def sample_reporter_def bind_apply ioOrFatal_apply sample_externals_def)
  with selfQuery_spec [OF s] s t show ?thesis
    by (fastforce simp: sample_externals_def sample_serialize_def)
qed

theorem selfQuery_needs_raw_witness:
  "fst (selfQuery_tick sample_externals sample_full_reporter ALTOUT
     (ipv4HeaderNetIP sample_externals 8 [224, 0, 0, 22]) [] sample_full_running) =
     Inl (Panic ''nil *ipv4.RawConn'')"
  by (rule selfQuery_needs_raw [OF sample_full_constructed])
    (simp_all add: RunSelfQuery_def sample_full_reporter_def raws_of_def)

end
