(* ===== verification/Run.thy ===== *)
theory Run
  imports Workers
begin

text \<open>
  \<open>Run\<close> (goIGMP.go): the goroutines a configuration starts, and the whole system as a step
  relation. A state has the goroutines (task, own copy of the reporter, program point), the
  shared \<open>world\<close>, the context, the wait group, whether \<open>Run\<close> has returned and whether the
  process is dead. The program points are where a goroutine can block; between two of them a
  goroutine runs one turn of its loop in one step, so turns of different goroutines interleave
  in every order, but the shared accesses inside one turn are not interleaved with others.
\<close>

subsection \<open>Goroutines\<close>

datatype task =
    RecvIGMP side destIP
  | RecvUnicast side
  | OutSelector
  | ReportsToNetwork
  | LeavesToNetwork
  | QueryToReport
  | ReadReports

datatype point = Fresh | Loop | Reading nat | Selecting | Waiting | Finished

record goroutine =
  task_of :: task
  self :: IGMPReporter
  at_point :: point

definition tasks_of :: "IGMPReporter \<Rightarrow> task list" where
  "tasks_of r =
     (if ProxyOutToIn (conf r) \<or> QueryNotify (conf r) \<or> MembershipReportsFromNetwork (conf r) then
        map (RecvIGMP OUT) (multicastGroups r) @
        (if AltOutExists r then map (RecvIGMP ALTOUT) (multicastGroups r) @ [OutSelector] else [])
      else []) @
     (if ProxyInToOut (conf r) then map (RecvIGMP IN) (multicastGroups r) else []) @
     (if UnicastProxyInToOut (conf r) then [RecvUnicast IN] else []) @
     (if MembershipReportsToNetwork (conf r) then [ReportsToNetwork] else []) @
     (if LeaveToNetwork (conf r) then [LeavesToNetwork] else []) @
     (if ConnectQueryToReport (Testing (conf r)) then [QueryToReport] else []) @
     (if MembershipReportsReader (Testing (conf r)) then [ReadReports] else [])"

fun is_receiver :: "task \<Rightarrow> bool" where
  "is_receiver (RecvIGMP s g) = True"
| "is_receiver (RecvUnicast s) = True"
| "is_receiver _ = False"

text \<open>What a goroutine does before its loop, and the head of a worker's loop.\<close>

fun start_action :: "task \<Rightarrow> IGMPReporter \<Rightarrow> unit act" where
  "start_action (RecvUnicast s) r = recvUnicast_start s r"
| "start_action _ r = ret ()"

fun head_action :: "task \<Rightarrow> unit act" where
  "head_action OutSelector = outInterfaceSelector_head"
| "head_action ReportsToNetwork = readMembershipReportToNetworkCh_head"
| "head_action LeavesToNetwork = leaveToNetworkWorker_head"
| "head_action QueryToReport = connectQueryToReport_head"
| "head_action ReadReports = testingReadMembershipReportsFromNetwork_head"
| "head_action _ = ret ()"

text \<open>The receive of a worker followed by its body: at once, and at the end of a wait.\<close>

definition then_body :: "('a \<Rightarrow> unit act) \<Rightarrow> ('a \<times> world) option \<Rightarrow> ((fatal + unit) \<times> world) option" where
  "then_body body t = map_option (\<lambda>(x, w). body x w) t"

fun receive_now :: "externals \<Rightarrow> task \<Rightarrow> IGMPReporter \<Rightarrow> world \<Rightarrow> ((fatal + unit) \<times> world) option" where
  "receive_now X OutSelector r w =
     then_body outInterfaceSelector_body
       (take_now OutInterfaceSelectorCh OutInterfaceSelectorCh_update w)"
| "receive_now X ReportsToNetwork r w =
     then_body (readMembershipReportToNetworkCh_body X r)
       (take_now MembershipReportToNetworkCh MembershipReportToNetworkCh_update w)"
| "receive_now X LeavesToNetwork r w =
     then_body (leaveToNetworkWorker_body X r) (take_now LeaveToNetworkCh LeaveToNetworkCh_update w)"
| "receive_now X QueryToReport r w =
     then_body (\<lambda>_. connectQueryToReport_body X r) (take_now QueryNotifyCh QueryNotifyCh_update w)"
| "receive_now X ReadReports r w =
     then_body testingReadMembershipReportsFromNetwork_body
       (take_now MembershipReportFromNetworkCh MembershipReportFromNetworkCh_update w)"
| "receive_now X _ r w = None"

fun receive_parked :: "externals \<Rightarrow> task \<Rightarrow> IGMPReporter \<Rightarrow> world \<Rightarrow> ((fatal + unit) \<times> world) option" where
  "receive_parked X OutSelector r w =
     then_body outInterfaceSelector_body
       (take_parked OutInterfaceSelectorCh OutInterfaceSelectorCh_update w)"
| "receive_parked X ReportsToNetwork r w =
     then_body (readMembershipReportToNetworkCh_body X r)
       (take_parked MembershipReportToNetworkCh MembershipReportToNetworkCh_update w)"
| "receive_parked X LeavesToNetwork r w =
     then_body (leaveToNetworkWorker_body X r) (take_parked LeaveToNetworkCh LeaveToNetworkCh_update w)"
| "receive_parked X QueryToReport r w =
     then_body (\<lambda>_. connectQueryToReport_body X r) (take_parked QueryNotifyCh QueryNotifyCh_update w)"
| "receive_parked X ReadReports r w =
     then_body testingReadMembershipReportsFromNetwork_body
       (take_parked MembershipReportFromNetworkCh MembershipReportFromNetworkCh_update w)"
| "receive_parked X _ r w = None"

fun park_task :: "task \<Rightarrow> world \<Rightarrow> world option" where
  "park_task OutSelector w = park_on OutInterfaceSelectorCh OutInterfaceSelectorCh_update w"
| "park_task ReportsToNetwork w = park_on MembershipReportToNetworkCh MembershipReportToNetworkCh_update w"
| "park_task LeavesToNetwork w = park_on LeaveToNetworkCh LeaveToNetworkCh_update w"
| "park_task QueryToReport w = park_on QueryNotifyCh QueryNotifyCh_update w"
| "park_task ReadReports w = park_on MembershipReportFromNetworkCh MembershipReportFromNetworkCh_update w"
| "park_task _ w = None"

fun unpark_task :: "task \<Rightarrow> world \<Rightarrow> world option" where
  "unpark_task OutSelector w = unpark_on OutInterfaceSelectorCh OutInterfaceSelectorCh_update w"
| "unpark_task ReportsToNetwork w = unpark_on MembershipReportToNetworkCh MembershipReportToNetworkCh_update w"
| "unpark_task LeavesToNetwork w = unpark_on LeaveToNetworkCh LeaveToNetworkCh_update w"
| "unpark_task QueryToReport w = unpark_on QueryNotifyCh QueryNotifyCh_update w"
| "unpark_task ReadReports w = unpark_on MembershipReportFromNetworkCh MembershipReportFromNetworkCh_update w"
| "unpark_task _ w = None"

subsection \<open>One step of one goroutine\<close>

text \<open>
  \<open>go_step X done p w q w'\<close>: with the context cancelled or not (\<open>done\<close>), goroutine \<open>p\<close> takes
  the world from \<open>w\<close> to \<open>w'\<close> and becomes \<open>q\<close>, or ends the process (\<open>Inl\<close>). The selector has
  no case for the context. A goroutine waits only if no case of its \<open>select\<close> is ready.
\<close>

inductive go_step ::
    "externals \<Rightarrow> bool \<Rightarrow> goroutine \<Rightarrow> world \<Rightarrow> fatal + goroutine \<Rightarrow> world \<Rightarrow> bool" for X where
  start: "at_point p = Fresh \<Longrightarrow> start_action (task_of p) (self p) w = (r, w') \<Longrightarrow>
     go_step X done p w (map_sum id (\<lambda>_. p\<lparr>at_point := Loop\<rparr>) r) w'"
| stop: "at_point p = Loop \<Longrightarrow> is_receiver (task_of p) \<Longrightarrow>
     go_step X True p w (Inr (p\<lparr>at_point := Finished\<rparr>)) w"
| begin_recv: "at_point p = Loop \<Longrightarrow> task_of p = RecvIGMP s g \<Longrightarrow>
     recvIGMP_begin X s g pick (self p) w = (r, w') \<Longrightarrow>
     go_step X False p w (map_sum id (\<lambda>b. p\<lparr>at_point := Reading b\<rparr>) r) w'"
| handle_recv: "at_point p = Reading b \<Longrightarrow> task_of p = RecvIGMP s g \<Longrightarrow>
     recvIGMP_handle X s g b res (self p) w = (r, w') \<Longrightarrow>
     go_step X done p w (map_sum id (\<lambda>me. p\<lparr>self := me, at_point := Loop\<rparr>) r) w'"
| begin_unicast: "at_point p = Loop \<Longrightarrow> task_of p = RecvUnicast s \<Longrightarrow>
     recvUnicast_begin X pick (self p) w = (r, w') \<Longrightarrow>
     go_step X False p w (map_sum id (\<lambda>b. p\<lparr>at_point := Reading b\<rparr>) r) w'"
| handle_unicast: "at_point p = Reading b \<Longrightarrow> task_of p = RecvUnicast s \<Longrightarrow>
     recvUnicast_handle X s b res (self p) w = (r, w') \<Longrightarrow>
     go_step X done p w (map_sum id (\<lambda>_. p\<lparr>at_point := Loop\<rparr>) r) w'"
| head: "at_point p = Loop \<Longrightarrow> \<not> is_receiver (task_of p) \<Longrightarrow>
     head_action (task_of p) w = (r, w') \<Longrightarrow>
     go_step X done p w (map_sum id (\<lambda>_. p\<lparr>at_point := Selecting\<rparr>) r) w'"
| select_recv: "at_point p = Selecting \<Longrightarrow> receive_now X (task_of p) (self p) w = Some (r, w') \<Longrightarrow>
     go_step X done p w (map_sum id (\<lambda>_. p\<lparr>at_point := Loop\<rparr>) r) w'"
| select_done: "at_point p = Selecting \<Longrightarrow> task_of p \<noteq> OutSelector \<Longrightarrow>
     go_step X True p w (Inr (p\<lparr>at_point := Finished\<rparr>)) w"
| select_wait: "at_point p = Selecting \<Longrightarrow> \<not> done \<or> task_of p = OutSelector \<Longrightarrow>
     park_task (task_of p) w = Some w' \<Longrightarrow>
     go_step X done p w (Inr (p\<lparr>at_point := Waiting\<rparr>)) w'"
| wake_recv: "at_point p = Waiting \<Longrightarrow> receive_parked X (task_of p) (self p) w = Some (r, w') \<Longrightarrow>
     go_step X done p w (map_sum id (\<lambda>_. p\<lparr>at_point := Loop\<rparr>) r) w'"
| wake_done: "at_point p = Waiting \<Longrightarrow> task_of p \<noteq> OutSelector \<Longrightarrow>
     unpark_task (task_of p) w = Some w' \<Longrightarrow>
     go_step X True p w (Inr (p\<lparr>at_point := Finished\<rparr>)) w'"

subsection \<open>The client\<close>

text \<open>
  What the importing program may do with the channels of the reporter: send reports, leaves and
  sides when there is room, and take queries and reports that are there.
\<close>

inductive client_step :: "world \<Rightarrow> world \<Rightarrow> bool" where
  send_report: "try_send_ref items (MembershipReportToNetworkCh w) = (True, ch) \<Longrightarrow>
     client_step w (w\<lparr>MembershipReportToNetworkCh := ch\<rparr>)"
| send_leave: "try_send_ref items (LeaveToNetworkCh w) = (True, ch) \<Longrightarrow>
     client_step w (w\<lparr>LeaveToNetworkCh := ch\<rparr>)"
| send_side: "try_send_ref v (OutInterfaceSelectorCh w) = (True, ch) \<Longrightarrow>
     client_step w (w\<lparr>OutInterfaceSelectorCh := ch\<rparr>)"
| take_query: "take_now QueryNotifyCh QueryNotifyCh_update w = Some (x, w') \<Longrightarrow> client_step w w'"
| take_report: "take_now MembershipReportFromNetworkCh MembershipReportFromNetworkCh_update w = Some (x, w')
     \<Longrightarrow> client_step w w'"

text \<open>
  A client goroutine may also block in a receive of queries or reports, be woken by a value, and
  give the receive up for another case of its \<open>select\<close>. The state is the world and the numbers of
  client goroutines blocked on either channel.
\<close>

inductive client_wait :: "world \<times> nat \<times> nat \<Rightarrow> world \<times> nat \<times> nat \<Rightarrow> bool" where
  wait_query: "park_on QueryNotifyCh QueryNotifyCh_update w = Some w' \<Longrightarrow>
     client_wait (w, q, n) (w', Suc q, n)"
| wake_query: "take_parked QueryNotifyCh QueryNotifyCh_update w = Some (x, w') \<Longrightarrow>
     client_wait (w, Suc q, n) (w', q, n)"
| leave_query: "unpark_on QueryNotifyCh QueryNotifyCh_update w = Some w' \<Longrightarrow>
     client_wait (w, Suc q, n) (w', q, n)"
| wait_report: "park_on MembershipReportFromNetworkCh MembershipReportFromNetworkCh_update w = Some w' \<Longrightarrow>
     client_wait (w, q, n) (w', q, Suc n)"
| wake_report: "take_parked MembershipReportFromNetworkCh MembershipReportFromNetworkCh_update w = Some (y, w')
     \<Longrightarrow> client_wait (w, q, Suc n) (w', q, n)"
| leave_report: "unpark_on MembershipReportFromNetworkCh MembershipReportFromNetworkCh_update w = Some w' \<Longrightarrow>
     client_wait (w, q, Suc n) (w', q, n)"

subsection \<open>The system\<close>

record sys =
  reporter :: IGMPReporter
  todo :: "task list"
  procs :: "goroutine list"
  shared :: world
  cancelled :: bool
  wg :: nat
  returned :: bool
  dead :: "fatal option"
  queryWaiters :: nat
  reportWaiters :: nat

definition Run_init :: "IGMPReporter \<Rightarrow> world \<Rightarrow> sys" where
  "Run_init r w = \<lparr>reporter = r, todo = tasks_of r, procs = [], shared = w, cancelled = False,
     wg = 0, returned = False, dead = None, queryWaiters = 0, reportWaiters = 0\<rparr>"

definition wg_after :: "goroutine \<Rightarrow> nat \<Rightarrow> nat" where
  "wg_after q n = (if at_point q = Finished then n - 1 else n)"

inductive sys_step :: "externals \<Rightarrow> sys \<Rightarrow> sys \<Rightarrow> bool" for X where
  spawn: "dead s = None \<Longrightarrow> todo s = t # ts \<Longrightarrow>
     sys_step X s (s\<lparr>todo := ts, wg := Suc (wg s),
       procs := procs s @ [\<lparr>task_of = t, self = reporter s, at_point = Fresh\<rparr>]\<rparr>)"
| go: "dead s = None \<Longrightarrow> i < length (procs s) \<Longrightarrow>
     go_step X (cancelled s) (procs s ! i) (shared s) (Inr q) w' \<Longrightarrow>
     sys_step X s (s\<lparr>procs := (procs s)[i := q], shared := w', wg := wg_after q (wg s)\<rparr>)"
| die: "dead s = None \<Longrightarrow> i < length (procs s) \<Longrightarrow>
     go_step X (cancelled s) (procs s ! i) (shared s) (Inl e) w' \<Longrightarrow>
     sys_step X s (s\<lparr>shared := w', dead := Some e\<rparr>)"
| client: "dead s = None \<Longrightarrow> client_step (shared s) w' \<Longrightarrow> sys_step X s (s\<lparr>shared := w'\<rparr>)"
| client_waits: "dead s = None \<Longrightarrow>
     client_wait (shared s, queryWaiters s, reportWaiters s) (w', q, n) \<Longrightarrow>
     sys_step X s (s\<lparr>shared := w', queryWaiters := q, reportWaiters := n\<rparr>)"
| cancel: "dead s = None \<Longrightarrow> sys_step X s (s\<lparr>cancelled := True\<rparr>)"
| wait_done: "dead s = None \<Longrightarrow> todo s = [] \<Longrightarrow> wg s = 0 \<Longrightarrow> sys_step X s (s\<lparr>returned := True\<rparr>)"

inductive reachable :: "externals \<Rightarrow> sys \<Rightarrow> sys \<Rightarrow> bool" for X s0 where
  refl: "reachable X s0 s0"
| step: "reachable X s0 s \<Longrightarrow> sys_step X s s' \<Longrightarrow> reachable X s0 s'"

inductive_cases go_stepE: "go_step X d p w q w'"
inductive_cases sys_stepE: "sys_step X s s'"
inductive_cases client_stepE: "client_step w w'"
inductive_cases client_waitE: "client_wait a a'"
inductive_simps go_step_finished: "go_step X d (p\<lparr>at_point := Finished\<rparr>) w q w'"

end
