(* ===== verification/Closed.thy ===== *)
theory Closed
  imports Run
begin

text \<open>
  One induction for all invariants of the shared state. The locale \<open>world_effects\<close> states what an
  invariant \<open>I\<close> of the \<open>world\<close> owes to the primitive effects of the senders and receivers: it does
  not look at the buffers and the system-call counter, and it survives a count under the right
  number of label values and a write by a reporter \<open>ok_r\<close>. \<open>world_base\<close> adds the receives and waits
  on channels, the sends of the client, the selector's store and the receivers' switch on the
  message type, the one place that tells the client about a packet; inside it, every handler, every
  goroutine step, every client step and every system step keeps \<open>I\<close>. \<open>world_closed\<close> is the contract of
  an invariant that survives every channel operation and every count, and so the switch, and
  \<open>world_inv\<close> that of one that does not look at the metrics at all; both are sublocales. The
  invariants of theories Wire, Telemetry and Notify are interpretations.
\<close>

definition seen where
  "seen w = (wire w, IntOutName w, QueryNotifyCh w, MembershipReportFromNetworkCh w,
     MembershipReportToNetworkCh w, LeaveToNetworkCh w, OutInterfaceSelectorCh w)"

definition still where
  "still w = (seen w, pC w, pH w, pCrecvIGMP w, pHrecvIGMP w, registered w)"

lemmas still_defs = still_def seen_def

text \<open>One operation on a channel.\<close>

definition chan_op :: "'a chan \<Rightarrow> 'a chan \<Rightarrow> bool" where
  "chan_op c c' \<longleftrightarrow>
     (\<exists>x. c' = snd (try_send x c)) \<or> (\<exists>x. recv_now c = Some (x, c')) \<or>
     (\<exists>x. recv_parked c = Some (x, c')) \<or> park c = Some c' \<or> unpark c = Some c'"

text \<open>The operations that put nothing in.\<close>

definition chan_take :: "'a chan \<Rightarrow> 'a chan \<Rightarrow> bool" where
  "chan_take c c' \<longleftrightarrow>
     (\<exists>x. recv_now c = Some (x, c')) \<or> (\<exists>x. recv_parked c = Some (x, c')) \<or>
     park c = Some c' \<or> unpark c = Some c'"

lemma chan_take_op: "chan_take c c' \<Longrightarrow> chan_op c c'"
  by (auto simp: chan_take_def chan_op_def)

lemma chan_take_shrinks: "chan_take c c' \<Longrightarrow> length (chQueue c') \<le> length (chQueue c)"
  by (auto simp: chan_take_def recv_now_def recv_parked_def park_def unpark_def
      split: if_splits list.splits)

lemma chan_op_ok: "chan_op c c' \<Longrightarrow> chan_ok c \<Longrightarrow> chan_ok c'"
  by (auto simp: chan_op_def intro: chan_ok_intros)

lemma chan_op_cap: "chan_op c c' \<Longrightarrow> chCap c' = chCap c"
  by (auto simp: chan_op_def try_send_def recv_now_def recv_parked_def park_def unpark_def
      split: if_splits list.splits)

lemma preserves_bind_lift:
  "(\<And>x. r = Inr x \<Longrightarrow> preserves I (f x)) \<Longrightarrow> preserves I (bind (lift r) f)"
  by (cases r) (auto simp: preserves_def bind_def)

lemma preserves_list_case:
  "preserves I m1 \<Longrightarrow> (\<And>x xs. preserves I (m2 x xs)) \<Longrightarrow>
   preserves I (case l of [] \<Rightarrow> m1 | x # xs \<Rightarrow> m2 x xs)"
  by (cases l) auto

lemma preserves_layer:
  "(\<And>ig. preserves g (m1 ig)) \<Longrightarrow> (\<And>grs. preserves g (m2 grs)) \<Longrightarrow> preserves g m3 \<Longrightarrow>
   preserves g (case l of LayerV1or2 ig \<Rightarrow> m1 ig | LayerIGMP grs \<Rightarrow> m2 grs | LayerOther \<Rightarrow> m3)"
  by (cases l) auto

lemma take_now_op:
  "take_now get put w = Some (x, w') \<Longrightarrow> \<exists>c c'. get w = Some c \<and> chan_take c c' \<and> w' = put (\<lambda>_. Some c') w"
  by (auto simp: take_now_def chan_take_def split: option.splits)

lemma take_parked_op:
  "take_parked get put w = Some (x, w') \<Longrightarrow>
     \<exists>c c'. get w = Some c \<and> chan_take c c' \<and> w' = put (\<lambda>_. Some c') w"
  by (auto simp: take_parked_def chan_take_def split: option.splits)

lemma park_on_op:
  "park_on get put w = Some w' \<Longrightarrow>
     w' = w \<or> (\<exists>c c'. get w = Some c \<and> chan_take c c' \<and> w' = put (\<lambda>_. Some c') w)"
  by (auto simp: park_on_def chan_take_def split: option.splits)

lemma unpark_on_op:
  "unpark_on get put w = Some w' \<Longrightarrow>
     w' = w \<or> (\<exists>c c'. get w = Some c \<and> chan_take c c' \<and> w' = put (\<lambda>_. Some c') w)"
  by (auto simp: unpark_on_def chan_take_def split: option.splits)

lemma send_op:
  "try_send_ref x r = (True, ch) \<Longrightarrow> \<exists>c c'. r = Some c \<and> chan_op c c' \<and> ch = Some c'"
  by (auto simp: try_send_ref_def chan_op_def split: option.splits prod.splits) (metis snd_conv)+

lemma then_body_Some:
  "then_body body t = Some y \<longleftrightarrow> (\<exists>x w. t = Some (x, w) \<and> y = body x w)"
  by (auto simp: then_body_def)

text \<open>The counters of what is told to the client, which only the switch touches.\<close>

definition told_labels :: "string list" where
  "told_labels = [''IGMPMembershipQuery'', ''QueryNotifyCh'', ''MembershipReportFromNetworkCh'']"

locale world_effects =
  fixes X :: externals
    and ok_r :: "IGMPReporter \<Rightarrow> bool"
    and I :: "world \<Rightarrow> bool"
  assumes emit: "I w \<Longrightarrow> ok_r r \<Longrightarrow> conRaw r i \<noteq> None \<Longrightarrow>
      I (w\<lparr>wire := wire w @ [dgram r i (ipv4HeaderNetIP X (length p) d) p]\<rparr>)"
    and ok_querier: "ok_r r \<Longrightarrow> ok_r (r\<lparr>querierSourceIP := a\<rparr>)"
    and quiet: "still w' = still w \<Longrightarrow> I w \<Longrightarrow> I w'"
    and count: "I w \<Longrightarrow> labelled metric_pC l \<Longrightarrow> I (w\<lparr>pC := bump l n (pC w)\<rparr>)"
    and observe: "I w \<Longrightarrow> labelled metric_pH l \<Longrightarrow> I (w\<lparr>pH := bump l 1 (pH w)\<rparr>)"
    and count_recv: "I w \<Longrightarrow> labelled metric_pCrecvIGMP l \<Longrightarrow> hd l \<notin> set told_labels \<Longrightarrow>
      I (w\<lparr>pCrecvIGMP := bump l n (pCrecvIGMP w)\<rparr>)"
    and observe_recv: "I w \<Longrightarrow> labelled metric_pHrecvIGMP l \<Longrightarrow>
      I (w\<lparr>pHrecvIGMP := bump l 1 (pHrecvIGMP w)\<rparr>)"
begin

lemma keeps_still: "keeps still m \<Longrightarrow> preserves I m"
  by (rule preserves_keeps) (auto intro: quiet)

lemma p_counts [intro]:
  "length l = 3 \<Longrightarrow> preserves I (incC l)" "length l = 3 \<Longrightarrow> preserves I (addC l n)"
  "length l = 3 \<Longrightarrow> preserves I (observeH l)"
  "a \<notin> set told_labels \<Longrightarrow> preserves I (incR [a, b, c, d])"
  "a \<notin> set told_labels \<Longrightarrow> preserves I (addR [a, b, c, d] n)"
  "preserves I (observeR [a, b, c, d])"
  by (simp_all add: preserves_def incC_def addC_def observeH_def incR_def addR_def observeR_def
      count observe [unfolded One_nat_def] count_recv observe_recv [unfolded One_nat_def])

lemma p_quiet [intro]:
  "preserves I (poolPut b)" "preserves I (poolGet pk)" "preserves I (readInto b d)"
  "preserves I (ioOrFatal X' msg)" "preserves I (setWriteDeadline X' r i msg)"
  "preserves I (recvUnicast_start s r)" "preserves I (upd (\<lambda>w. w\<lparr>pG := v\<rparr>))"
  by (rule keeps_still; simp add: still_defs keeps_poolPut keeps_poolGet keeps_readInto
      keeps_ioOrFatal keeps_setWriteDeadline keeps_upd recvUnicast_start_def keeps_simple split: option.split)+

lemmas p_simple = p_counts p_quiet

lemma p_writeTo:
  assumes "ok_r r" "h = ipv4HeaderNetIP X (length p) d"
  shows "preserves I (writeTo X' r i h p msg)"
proof (cases "conRaw r i")
  case (Some c)
  have "I (snd (writeTo X' r i h p msg w))" if "I w" for w
  proof -
    let ?w = "w\<lparr>ioCount := Suc (ioCount w)\<rparr>"
    have q: "I ?w" using that by (rule quiet [rotated]) (simp add: still_defs)
    show ?thesis
      using writeTo_fails [OF Some, of X' w h p msg] writeTo_works [OF Some, of X' w h p msg] q
        emit [OF q assms(1), of i p d] Some assms(2)
      by (cases "ioFails X' (ioCount w)") simp_all
  qed
  then show ?thesis by (simp add: preserves_def)
qed (simp add: writeTo_def preserves_simple)

lemma ipv4Header_form:
  "ipv4Header X r n dest = Inr h \<Longrightarrow> \<exists>d. h = ipv4HeaderNetIP X n d"
  by (cases "destinationNetIP r dest") (auto simp: ipv4Header_NetIP)

lemmas p_rules = preserves_bind preserves_simple preserves_if preserves_option preserves_sum
  preserves_seqs preserves_let preserves_list_case preserves_layer

lemma p_proxy: "ok_r r \<Longrightarrow> preserves I (proxy X r i dest b)"
  unfolding proxy_def
  by (intro preserves_bind preserves_bind_lift p_simple preserves_simple preserves_seqs)
    (auto dest!: ipv4Header_form intro: p_writeTo)

lemma p_proxyUni: "ok_r r \<Longrightarrow> preserves I (proxyUniToMultiv1or2 X r i dest b)"
  unfolding proxyUniToMultiv1or2_def
  by (intro preserves_bind p_simple preserves_simple preserves_seqs) (auto intro: p_writeTo)

lemma p_report_item: "ok_r r \<Longrightarrow> preserves I (sendReport_item X r i m)"
  unfolding sendReport_item_def
  by (intro preserves_sum preserves_option preserves_bind_lift preserves_simple preserves_seqs)
    (auto dest!: ipv4Header_form intro: p_writeTo)

lemma p_leave_item: "ok_r r \<Longrightarrow> preserves I (sendLeave_item X r i m)"
  unfolding sendLeave_item_def
  by (intro preserves_sum preserves_option preserves_bind_lift preserves_simple preserves_seqs)
    (auto dest!: ipv4Header_form intro: p_writeTo)

lemma p_sends:
  assumes "ok_r r"
  shows "preserves I (sendMembershipReport X r i ms)" "preserves I (sendLeave X r i ms)"
  unfolding sendMembershipReport_def sendLeave_def
  by (intro preserves_seqs;
      auto simp: list_all_iff simp del: seqs.simps
        intro!: preserves_seqs p_report_item p_leave_item assms)+

lemma p_filter: "preserves I (recvIGMP_filter r i g b cm src)"
  unfolding recvIGMP_filter_def ignoreOnNonActiveOutOrAltInterface_def
  by (intro p_rules p_simple) (auto simp: told_labels_def intro: p_simple)

lemma p_recv_proxy: "ok_r r \<Longrightarrow> preserves I (recvIGMP_proxy X r i g b)"
  unfolding recvIGMP_proxy_def
  by (intro p_rules p_simple p_proxy) (auto simp: told_labels_def intro: p_simple)

end

locale world_base = world_effects +
  assumes take_query: "I w \<Longrightarrow> QueryNotifyCh w = Some q \<Longrightarrow> chan_take q q' \<Longrightarrow>
      I (w\<lparr>QueryNotifyCh := Some q'\<rparr>)"
    and take_from: "I w \<Longrightarrow> MembershipReportFromNetworkCh w = Some c \<Longrightarrow> chan_take c c' \<Longrightarrow>
      I (w\<lparr>MembershipReportFromNetworkCh := Some c'\<rparr>)"
    and op_to: "I w \<Longrightarrow> MembershipReportToNetworkCh w = Some c \<Longrightarrow> chan_op c c' \<Longrightarrow>
      I (w\<lparr>MembershipReportToNetworkCh := Some c'\<rparr>)"
    and op_leave: "I w \<Longrightarrow> LeaveToNetworkCh w = Some c \<Longrightarrow> chan_op c c' \<Longrightarrow>
      I (w\<lparr>LeaveToNetworkCh := Some c'\<rparr>)"
    and op_select: "I w \<Longrightarrow> OutInterfaceSelectorCh w = Some s \<Longrightarrow> chan_op s s' \<Longrightarrow>
      I (w\<lparr>OutInterfaceSelectorCh := Some s'\<rparr>)"
    and store: "I w \<Longrightarrow> OutInterfaceSelectorCh w \<noteq> None \<Longrightarrow> I (w\<lparr>IntOutName := (IntOutName w)(IN \<mapsto> v)\<rparr>)"
    and switch: "ok_r r \<Longrightarrow> preserves I (recvIGMP_switch r i g b m t l)"
begin

lemma p_packet:
  assumes "ok_r r"
  shows "preserves I (recvIGMP_packet X r i g b m)"
proof -
  have after: "preserves I (\<lambda>u. bind (recvIGMP_switch r i g b m t l) (\<lambda>sw. case sw of None \<Rightarrow> ret r
     | Some r' \<Rightarrow> bind (recvIGMP_proxy X r' i g b) (\<lambda>finished. if finished then
           bind (seqs [observeR [''sincePacketStartTime'', side_String i, groupString r' g, ''counter''], observeR [''sinceLoopStartTime'', side_String i, groupString r' g, ''counter'']])
             (\<lambda>_. ret r')
         else ret r')) u)" for t l
    unfolding preserves_def
  proof (intro allI impI)
    fix w assume w: "I w"
    obtain res v where sw: "recvIGMP_switch r i g b m t l w = (res, v)"
      by (cases "recvIGMP_switch r i g b m t l w")
    have v: "I v" using preservesD [OF switch [OF assms] w sw] .
    have fin: "preserves I (bind (recvIGMP_proxy X r' i g b) (\<lambda>finished. if finished then
           bind (seqs [observeR [''sincePacketStartTime'', side_String i, groupString r' g, ''counter''], observeR [''sinceLoopStartTime'', side_String i, groupString r' g, ''counter'']])
             (\<lambda>_. ret r')
         else ret r'))" if "ok_r r'" for r'
      using that by (intro p_rules p_recv_proxy) (auto intro: p_simple)
    have "ok_r r'" if "res = Inr (Some r')" for r'
      using switch_Some [OF sw [unfolded that]] assms ok_querier by (auto split: if_splits)
    with fin v sw show "I (snd (bind (recvIGMP_switch r i g b m t l) (\<lambda>sw. case sw of None \<Rightarrow> ret r
     | Some r' \<Rightarrow> bind (recvIGMP_proxy X r' i g b) (\<lambda>finished. if finished then
           bind (seqs [observeR [''sincePacketStartTime'', side_String i, groupString r' g, ''counter''], observeR [''sinceLoopStartTime'', side_String i, groupString r' g, ''counter'']])
             (\<lambda>_. ret r')
         else ret r')) w))"
      by (cases res) (auto simp: preserves_def simp del: seqs.simps split: option.split)
  qed
  show ?thesis
    unfolding recvIGMP_packet_def
    by (intro p_rules p_simple after) (auto simp: told_labels_def intro: p_simple)
qed

lemma p_handle:
  assumes "ok_r r"
  shows "preserves I (recvIGMP_handle X i g b res r)"
proof (cases res)
  case (ReadOk pkt cm src)
  show ?thesis
    unfolding ReadOk recvIGMP_handle_def read_result.case
    by (intro p_rules p_simple p_filter p_packet assms; simp add: told_labels_def)
qed (auto simp: recvIGMP_handle_def told_labels_def simp del: seqs.simps intro!: p_rules p_simple)

lemma p_begin: "preserves I (recvIGMP_begin X i g pk r)" "preserves I (recvUnicast_begin X pk r)"
  unfolding recvIGMP_begin_def recvUnicast_begin_def by (intro p_rules p_simple; simp add: told_labels_def)+

lemma p_process:
  assumes "ok_r r"
  shows "preserves I (recvUnicast_process X r i b)"
  unfolding recvUnicast_process_def recvUnicast_dispatch_def sendIGMPv1or2_def sendIGMPv3_def
    sendIGMPLeave_def
  by (intro p_rules p_simple; simp add: p_simple;
      intro conjI p_rules p_simple impI p_proxy p_proxyUni assms)

lemma p_unicast_handle:
  assumes "ok_r r"
  shows "preserves I (recvUnicast_handle X i b res r)"
  by (cases res) (auto simp: recvUnicast_handle_def simp del: seqs.simps
      intro!: preserves_bind p_simple p_process assms preserves_seqs)

lemma p_selector:
  assumes "I w" "OutInterfaceSelectorCh w \<noteq> None"
  shows "I (snd (outInterfaceSelector_body v w))"
proof -
  let ?rest = "seqs [incC [''outInterfaceSelector'', side_String v, ''count''], upd (\<lambda>w. w\<lparr>pG := v\<rparr>),
    observeH [''outInterfaceSelector'', ''loop'', ''complete'']]"
  have "outInterfaceSelector_body v w = ?rest (w\<lparr>IntOutName := (IntOutName w)(IN \<mapsto> v)\<rparr>)"
    by (simp add: outInterfaceSelector_body_def)
  moreover have "preserves I ?rest"
    by (rule preserves_seqs) (auto simp del: seqs.simps)
  ultimately show ?thesis using store [OF assms] by (simp add: preserves_def del: seqs.simps)
qed

lemma p_bodies:
  "ok_r r \<Longrightarrow> preserves I (readMembershipReportToNetworkCh_body X r ms)"
  "ok_r r \<Longrightarrow> preserves I (leaveToNetworkWorker_body X r ms)"
  "ok_r r \<Longrightarrow> preserves I (connectQueryToReport_body X r)"
  "preserves I (testingReadMembershipReportsFromNetwork_body ms)"
proof -
  show "ok_r r \<Longrightarrow> preserves I (readMembershipReportToNetworkCh_body X r ms)"
    "ok_r r \<Longrightarrow> preserves I (leaveToNetworkWorker_body X r ms)"
    "ok_r r \<Longrightarrow> preserves I (connectQueryToReport_body X r)"
    unfolding readMembershipReportToNetworkCh_body_def leaveToNetworkWorker_body_def
      connectQueryToReport_body_def Let_def
    by (rule preserves_seqs, simp add: p_simple p_sends)+
  show "preserves I (testingReadMembershipReportsFromNetwork_body ms)"
    unfolding testingReadMembershipReportsFromNetwork_body_def by (simp add: p_simple)
qed

lemma body_sel:
  "(res, w') = outInterfaceSelector_body v (w\<lparr>OutInterfaceSelectorCh := Some c\<rparr>) \<Longrightarrow>
     I (w\<lparr>OutInterfaceSelectorCh := Some c\<rparr>) \<Longrightarrow> I w'"
proof -
  let ?w = "w\<lparr>OutInterfaceSelectorCh := Some c\<rparr>"
  assume run: "(res, w') = outInterfaceSelector_body v ?w" and i: "I ?w"
  have "w' = snd (outInterfaceSelector_body v ?w)" using run by (metis snd_conv)
  with p_selector [OF i] show "I w'" by simp
qed

lemma p_receive_now:
  "receive_now X t r w = Some (res, w') \<Longrightarrow> ok_r r \<Longrightarrow> I w \<Longrightarrow> I w'"
  by (cases t)
    (auto simp: then_body_Some dest!: take_now_op
      dest: preservesD [OF p_bodies(1), OF _ _ sym] preservesD [OF p_bodies(2), OF _ _ sym]
        preservesD [OF p_bodies(3), OF _ _ sym] preservesD [OF p_bodies(4), OF _ sym] body_sel
        take_query take_from op_to op_leave op_select chan_take_op)

lemma p_receive_parked:
  "receive_parked X t r w = Some (res, w') \<Longrightarrow> ok_r r \<Longrightarrow> I w \<Longrightarrow> I w'"
  by (cases t)
    (auto simp: then_body_Some dest!: take_parked_op
      dest: preservesD [OF p_bodies(1), OF _ _ sym] preservesD [OF p_bodies(2), OF _ _ sym]
        preservesD [OF p_bodies(3), OF _ _ sym] preservesD [OF p_bodies(4), OF _ sym] body_sel
        take_query take_from op_to op_leave op_select chan_take_op)

lemma p_park: "park_task t w = Some w' \<Longrightarrow> I w \<Longrightarrow> I w'"
  by (cases t) (auto dest!: park_on_op intro: take_query take_from op_to op_leave op_select chan_take_op)

lemma p_unpark: "unpark_task t w = Some w' \<Longrightarrow> I w \<Longrightarrow> I w'"
  by (cases t) (auto dest!: unpark_on_op intro: take_query take_from op_to op_leave op_select chan_take_op)

lemma p_start: "preserves I (start_action t r)"
  by (cases t) (auto intro: p_simple preserves_simple)

lemma p_head: "preserves I (head_action t)"
  by (cases t) (auto intro: p_simple preserves_simple)

lemma p_client: "client_step w w' \<Longrightarrow> I w \<Longrightarrow> I w'"
  by (erule client_stepE)
    (auto dest!: take_now_op send_op intro: take_query take_from op_to op_leave op_select chan_take_op)

lemma p_client_wait: "client_wait (w, q, n) (w', q', n') \<Longrightarrow> I w \<Longrightarrow> I w'"
  by (erule client_waitE)
    (auto dest!: park_on_op unpark_on_op take_parked_op intro: take_query take_from)

lemma p_go_step:
  assumes "go_step X d p w q w'" "ok_r (self p)" "I w"
  shows "I w'"
  using assms(1)
proof cases
  case (start r) with assms(3) p_start show ?thesis by (metis preservesD)
next
  case (begin_recv s g pick r) with assms(3) p_begin(1) show ?thesis by (metis preservesD)
next
  case (handle_recv b s g res r) with assms(2,3) p_handle show ?thesis by (metis preservesD)
next
  case (begin_unicast s pick r) with assms(3) p_begin(2) show ?thesis by (metis preservesD)
next
  case (handle_unicast b s res r) with assms(2,3) p_unicast_handle show ?thesis by (metis preservesD)
next
  case (head r) with assms(3) p_head show ?thesis by (metis preservesD)
next
  case (select_recv r) with assms(2,3) p_receive_now show ?thesis by blast
next
  case (wake_recv r) with assms(2,3) p_receive_parked show ?thesis by blast
next
  case select_wait with assms(3) p_park show ?thesis by blast
next
  case wake_done with assms(3) p_unpark show ?thesis by blast
qed (use assms(3) in simp_all)

lemma p_sys_step:
  assumes "sys_step X s s'" "\<forall>p \<in> set (procs s). ok_r (self p)" "I (shared s)"
  shows "I (shared s')"
  using assms(1)
proof cases
  case (go i q w') with assms(2,3) p_go_step show ?thesis by simp
next
  case (die i e w') with assms(2,3) p_go_step show ?thesis by simp
next
  case (client w') with assms(3) p_client show ?thesis by simp
next
  case (client_waits w' q n) with assms(3) p_client_wait show ?thesis by simp
qed (use assms(3) in simp_all)

end

text \<open>Invariants that survive every channel operation.\<close>

locale world_frame =
  fixes X :: externals
    and ok_r :: "IGMPReporter \<Rightarrow> bool"
    and I :: "world \<Rightarrow> bool"
  assumes emit: "I w \<Longrightarrow> ok_r r \<Longrightarrow> conRaw r i \<noteq> None \<Longrightarrow>
      I (w\<lparr>wire := wire w @ [dgram r i (ipv4HeaderNetIP X (length p) d) p]\<rparr>)"
    and op_query: "I w \<Longrightarrow> QueryNotifyCh w = Some q \<Longrightarrow> chan_op q q' \<Longrightarrow>
      I (w\<lparr>QueryNotifyCh := Some q'\<rparr>)"
    and op_from: "I w \<Longrightarrow> MembershipReportFromNetworkCh w = Some c \<Longrightarrow> chan_op c c' \<Longrightarrow>
      I (w\<lparr>MembershipReportFromNetworkCh := Some c'\<rparr>)"
    and op_to: "I w \<Longrightarrow> MembershipReportToNetworkCh w = Some c \<Longrightarrow> chan_op c c' \<Longrightarrow>
      I (w\<lparr>MembershipReportToNetworkCh := Some c'\<rparr>)"
    and op_leave: "I w \<Longrightarrow> LeaveToNetworkCh w = Some c \<Longrightarrow> chan_op c c' \<Longrightarrow>
      I (w\<lparr>LeaveToNetworkCh := Some c'\<rparr>)"
    and op_select: "I w \<Longrightarrow> OutInterfaceSelectorCh w = Some s \<Longrightarrow> chan_op s s' \<Longrightarrow>
      I (w\<lparr>OutInterfaceSelectorCh := Some s'\<rparr>)"
    and store: "I w \<Longrightarrow> OutInterfaceSelectorCh w \<noteq> None \<Longrightarrow> I (w\<lparr>IntOutName := (IntOutName w)(IN \<mapsto> v)\<rparr>)"
    and ok_querier: "ok_r r \<Longrightarrow> ok_r (r\<lparr>querierSourceIP := a\<rparr>)"

locale world_closed = world_frame +
  assumes quiet: "still w' = still w \<Longrightarrow> I w \<Longrightarrow> I w'"
    and count: "I w \<Longrightarrow> labelled metric_pC l \<Longrightarrow> I (w\<lparr>pC := bump l n (pC w)\<rparr>)"
    and observe: "I w \<Longrightarrow> labelled metric_pH l \<Longrightarrow> I (w\<lparr>pH := bump l 1 (pH w)\<rparr>)"
    and count_recv: "I w \<Longrightarrow> labelled metric_pCrecvIGMP l \<Longrightarrow>
      I (w\<lparr>pCrecvIGMP := bump l n (pCrecvIGMP w)\<rparr>)"
    and observe_recv: "I w \<Longrightarrow> labelled metric_pHrecvIGMP l \<Longrightarrow>
      I (w\<lparr>pHrecvIGMP := bump l 1 (pHrecvIGMP w)\<rparr>)"

sublocale world_closed \<subseteq> effects: world_effects
  by unfold_locales (auto intro: emit ok_querier quiet count observe [unfolded One_nat_def] count_recv
      observe_recv [unfolded One_nat_def])

context world_closed
begin

lemma p_incR: "preserves I (incR [a, b, c, d])"
  by (simp add: preserves_def incR_def count_recv)

lemma p_notifyQuery: "preserves I (notifyQuery r i g)"
proof -
  have "preserves I (\<lambda>w. let (sent, ch) = try_send_ref () (QueryNotifyCh w)
      in (Inr sent, w\<lparr>QueryNotifyCh := ch\<rparr>))"
    unfolding preserves_def
  proof (intro allI impI)
    fix w assume w: "I w"
    show "I (snd (let (sent, ch) = try_send_ref () (QueryNotifyCh w) in (Inr sent, w\<lparr>QueryNotifyCh := ch\<rparr>)))"
    proof (cases "QueryNotifyCh w")
      case None
      with w show ?thesis by (auto simp: try_send_ref_def still_defs intro: quiet [rotated])
    next
      case (Some c)
      have "chan_op c (snd (try_send () c))" by (auto simp: chan_op_def)
      with op_query [OF w Some] Some show ?thesis
        by (auto simp: try_send_ref_def split: prod.splits)
    qed
  qed
  then show ?thesis unfolding notifyQuery_def by (intro effects.p_rules p_incR)
qed

lemma p_notifyReports: "preserves I (notifyReports r i g ms)"
proof -
  have "preserves I (\<lambda>w. let (sent, ch) = try_send_ref ms (MembershipReportFromNetworkCh w)
      in (Inr sent, w\<lparr>MembershipReportFromNetworkCh := ch\<rparr>))"
    unfolding preserves_def
  proof (intro allI impI)
    fix w assume w: "I w"
    show "I (snd (let (sent, ch) = try_send_ref ms (MembershipReportFromNetworkCh w)
        in (Inr sent, w\<lparr>MembershipReportFromNetworkCh := ch\<rparr>)))"
    proof (cases "MembershipReportFromNetworkCh w")
      case None
      with w show ?thesis by (auto simp: try_send_ref_def still_defs intro: quiet [rotated])
    next
      case (Some c)
      have "chan_op c (snd (try_send ms c))" by (auto simp: chan_op_def)
      with op_from [OF w Some] Some show ?thesis
        by (auto simp: try_send_ref_def split: prod.splits)
    qed
  qed
  then show ?thesis unfolding notifyReports_def by (intro effects.p_rules p_incR)
qed

lemma p_switch: "preserves I (recvIGMP_switch r i g b m t l)"
  unfolding recvIGMP_switch_def IGMPv3GroupRecordsToMembershipItem_def
  by (intro effects.p_rules p_incR effects.p_simple p_notifyQuery p_notifyReports)
    (auto intro: p_incR effects.p_simple)

end

sublocale world_closed \<subseteq> base: world_base
  by unfold_locales
    (auto intro: op_query op_from op_to op_leave op_select store p_switch chan_take_op)

locale world_inv = world_frame +
  assumes seen_only: "seen w' = seen w \<Longrightarrow> I w \<Longrightarrow> I w'"

sublocale world_inv \<subseteq> world_closed
proof
  fix w w' :: world
  assume "still w' = still w" and "I w"
  then show "I w'" by (auto simp: still_def intro: seen_only)
qed (auto simp: seen_def intro: seen_only)

end
