(* ===== verification/System.thy ===== *)
theory System
  imports Closed "HOL-Library.Multiset"
begin

text \<open>
  The running system: invariants of every reachable state of \<open>Run\<close>, whatever the interleaving,
  the packets, the client and the moment of cancellation; how \<open>Run\<close> returns; and the
  configurations with which it cannot work. \<open>launched\<close> names the starting points: a fresh
  process, a constructor that returned, \<open>Run\<close> about to start its goroutines.
\<close>

subsection \<open>Starting points\<close>

definition boot :: "world \<Rightarrow> bool" where
  "boot w \<longleftrightarrow> wire w = [] \<and> bytePool w = [] \<and> nextBuf w = 0 \<and> pC w = (\<lambda>_. 0) \<and> pH w = (\<lambda>_. 0) \<and>
     pCrecvIGMP w = (\<lambda>_. 0) \<and> pHrecvIGMP w = (\<lambda>_. 0)"

lemma sample_boot: "boot sample_world"
  by (simp add: boot_def sample_world_def)

definition launched :: "externals \<Rightarrow> Config \<Rightarrow> sys \<Rightarrow> bool" where
  "launched X c s \<longleftrightarrow>
     (\<exists>w0 r w1. boot w0 \<and> NewIGMPReporter X c w0 = (Inr r, w1) \<and> s = Run_init r w1)"

lemma keeps_newReporter:
  assumes "\<And>w x. f (w\<lparr>ioCount := x\<rparr>) = f w" "\<And>w x. f (w\<lparr>IntOutName := x\<rparr>) = f w"
    "\<And>w x. f (w\<lparr>QueryNotifyCh := x\<rparr>) = f w" "\<And>w x. f (w\<lparr>MembershipReportFromNetworkCh := x\<rparr>) = f w"
    "\<And>w x. f (w\<lparr>MembershipReportToNetworkCh := x\<rparr>) = f w" "\<And>w x. f (w\<lparr>LeaveToNetworkCh := x\<rparr>) = f w"
    "\<And>w x. f (w\<lparr>OutInterfaceSelectorCh := x\<rparr>) = f w"
  shows "keeps f (newReporter X c)"
proof -
  have "keeps f (addInterface X i r)" for i r
    unfolding addInterface_def by (intro keeps_bind keeps_simple keeps_split)
  moreover have "keeps f (initChannels X c)"
    unfolding initChannels_def
    by (intro keeps_bind keeps_simple keeps_if keeps_upd) (simp add: assms)
  ultimately show ?thesis
    unfolding newReporter_def
    by (intro keeps_bind keeps_simple keeps_if keeps_foldM keeps_openSockets keeps_upd) (simp_all add: assms)
qed

lemma keeps_NewIGMPReporter:
  assumes "keeps f (newReporter X c)" "\<And>w x. f (w\<lparr>registered := x\<rparr>) = f w"
  shows "keeps f (NewIGMPReporter X c)"
  using assms by (simp add: keeps_def NewIGMPReporter_apply)

lemma NewIGMPReporter_registers:
  assumes "NewIGMPReporter X c w = (Inr r, w')"
  shows "registered w' = registered w @ reporter_metrics"
proof -
  have "keeps registered (newReporter X c)" by (rule keeps_newReporter) simp_all
  with assms show ?thesis
    by (auto simp: NewIGMPReporter_apply dest: keepsD split: if_splits)
qed

lemma launched_boot:
  assumes "launched X c s"
  obtains r w1 where "s = Run_init r w1" "built c r" "built_world c w1" "wire w1 = []" "bufs_ok [] w1"
    "labels_fit w1" "set reporter_metrics \<subseteq> set (registered w1)" "pCrecvIGMP w1 = (\<lambda>_. 0)"
proof -
  from assms obtain w0 r w1 where s: "boot w0" "NewIGMPReporter X c w0 = (Inr r, w1)" "s = Run_init r w1"
    by (auto simp: launched_def)
  have "wire w1 = wire w0" "bytePool w1 = bytePool w0" "nextBuf w1 = nextBuf w0"
    "pC w1 = pC w0" "pH w1 = pH w0" "pCrecvIGMP w1 = pCrecvIGMP w0" "pHrecvIGMP w1 = pHrecvIGMP w0"
    by (rule keepsD [OF keeps_NewIGMPReporter [OF keeps_newReporter] s(2)]; simp)+
  with s(1) have "wire w1 = []" "bufs_ok [] w1" "labels_fit w1" "pCrecvIGMP w1 = (\<lambda>_. 0)"
    by (simp_all add: boot_def bufs_ok_def labels_fit_def)
  moreover have "set reporter_metrics \<subseteq> set (registered w1)"
    using NewIGMPReporter_registers [OF s(2)] by simp
  ultimately show ?thesis
    using s by (intro that) (auto intro: NewIGMPReporter_built NewIGMPReporter_world)
qed

subsection \<open>Invariants of the system\<close>

locale sys_invariant =
  fixes X :: externals and J :: "sys \<Rightarrow> bool"
  assumes step: "J s \<Longrightarrow> sys_step X s s' \<Longrightarrow> J s'"
begin

lemma always: "reachable X s0 s \<Longrightarrow> J s0 \<Longrightarrow> J s"
  by (induction rule: reachable.induct) (auto intro: step)

end

lemma sys_step_reporter: "sys_step X s s' \<Longrightarrow> reporter s' = reporter s"
  by (erule sys_stepE) simp_all

lemma reachable_reporter: "reachable X s0 s \<Longrightarrow> reporter s = reporter s0"
  by (induction rule: reachable.induct) (auto dest: sys_step_reporter)

text \<open>Which copy of the reporter a goroutine works on.\<close>

definition copy_ok :: "IGMPReporter \<Rightarrow> goroutine \<Rightarrow> bool" where
  "copy_ok r p \<longleftrightarrow> (\<exists>a. self p = r\<lparr>querierSourceIP := a\<rparr>) \<and>
     ((\<forall>i g. task_of p \<noteq> RecvIGMP i g) \<longrightarrow> self p = r)"

lemma copy_ok_point [simp]: "copy_ok r (p\<lparr>at_point := x\<rparr>) = copy_ok r p"
  by (simp add: copy_ok_def)

lemma querier_update_id: "r\<lparr>querierSourceIP := querierSourceIP r\<rparr> = r"
  by simp

lemma packet_self:
  assumes "recvIGMP_packet X r i g b m w = (Inr r', w')"
  shows "\<exists>a. r' = r\<lparr>querierSourceIP := a\<rparr>"
proof -
  have id: "r = r\<lparr>querierSourceIP := querierSourceIP r\<rparr>" by simp
  from assms show ?thesis
  proof (cases rule: packet_cases)
    case (handled t ts l u v f x)
    with switch_Some [OF handled(4)] id show ?thesis by metis
  qed (use id in blast)+
qed

lemma handle_self:
  assumes "recvIGMP_handle X i g b res r w = (Inr r', w')"
  shows "\<exists>a. r' = r\<lparr>querierSourceIP := a\<rparr>"
proof -
  have "r' = r \<or> (\<exists>m u v. recvIGMP_packet X r i g b m u = (Inr r', v))"
    using assms
    by (cases res) (auto simp: recvIGMP_handle_def bind_eq_Inr split: if_splits option.splits)
  then show ?thesis using packet_self by (metis querier_update_id)
qed

lemma go_step_task: "go_step X d p w (Inr q) w' \<Longrightarrow> task_of q = task_of p"
  by (erule go_stepE) (auto simp: map_sum_def split: sum.splits)

lemma go_step_live: "go_step X d p w q w' \<Longrightarrow> at_point p \<noteq> Finished"
  by (erule go_stepE) auto

lemma go_step_copy:
  assumes "go_step X d p w (Inr q) w'" "copy_ok r p"
  shows "copy_ok r q"
  using assms(1)
proof cases
  case (handle_recv b s g res r')
  then obtain me where me: "r' = Inr me" "q = p\<lparr>self := me, at_point := Loop\<rparr>" by (cases r') auto
  with handle_recv handle_self obtain a where "me = (self p)\<lparr>querierSourceIP := a\<rparr>" by blast
  with me assms(2) handle_recv show ?thesis by (auto simp: copy_ok_def)
qed (use assms(2) in \<open>auto simp: map_sum_def split: sum.splits\<close>)

definition copies_ok :: "sys \<Rightarrow> bool" where
  "copies_ok s \<longleftrightarrow> (\<forall>p \<in> set (procs s). copy_ok (reporter s) p)"

interpretation copies: sys_invariant X copies_ok for X
proof
  fix s s' assume J: "copies_ok s" and st: "sys_step X s s'"
  from st show "copies_ok s'"
  proof cases
    case (spawn t ts)
    with J show ?thesis
      by (auto simp: copies_ok_def copy_ok_def intro: exI [of _ "querierSourceIP (reporter s)"])
  next
    case (go i q w')
    from J go(3) have "copy_ok (reporter s) (procs s ! i)" by (auto simp: copies_ok_def)
    with go_step_copy go(4) have "copy_ok (reporter s) q" by blast
    with J go(1) show ?thesis by (auto simp: copies_ok_def dest!: set_update_subset_insert [THEN subsetD])
  qed (use J in \<open>auto simp: copies_ok_def\<close>)
qed

text \<open>The goroutines are those of the configuration; the wait group counts the live ones.\<close>

definition live :: "goroutine list \<Rightarrow> nat" where
  "live ps = length (filter (\<lambda>p. at_point p \<noteq> Finished) ps)"

definition accounting :: "sys \<Rightarrow> bool" where
  "accounting s \<longleftrightarrow>
     map task_of (procs s) @ todo s = tasks_of (reporter s) \<and> wg s = live (procs s) \<and>
     (returned s \<longrightarrow> todo s = [] \<and> wg s = 0)"

lemma live_update:
  "i < length ps \<Longrightarrow> at_point (ps ! i) \<noteq> Finished \<Longrightarrow>
   live (ps[i := q]) = (if at_point q = Finished then live ps - 1 else live ps) \<and> 0 < live ps"
proof (induction ps arbitrary: i)
  case (Cons p ps)
  show ?case
  proof (cases i)
    case 0
    with Cons.prems show ?thesis by (simp add: live_def)
  next
    case (Suc j)
    with Cons.prems Cons.IH [of j] show ?thesis by (auto simp: live_def)
  qed
qed simp

interpretation account: sys_invariant X accounting for X
proof
  fix s s' assume J: "accounting s" and st: "sys_step X s s'"
  from st show "accounting s'"
  proof cases
    case (spawn t ts)
    with J show ?thesis by (auto simp: accounting_def live_def)
  next
    case (go i q w')
    from go_step_live [OF go(4)] go(3) have l: "at_point (procs s ! i) \<noteq> Finished" by simp
    from go_step_task [OF go(4)] go(3)
    have "map task_of ((procs s)[i := q]) = map task_of (procs s)"
      by (simp add: map_update list_update_same_conv)
    with J go(1) live_update [OF go(3) l, of q] show ?thesis
      by (auto simp: accounting_def wg_after_def)
  qed (use J in \<open>auto simp: accounting_def\<close>)
qed

end
