(* ===== verification/Reach.thy ===== *)
theory Reach
  imports System
begin

text \<open>
  Building reachable states: lemmas that extend a run by one step or by the steps every run
  starts with, and the concrete run of the sample configuration on which the witnesses of the
  system's properties stand.
\<close>

lemma reach_spawn:
  "reachable X s0 s \<Longrightarrow> dead s = None \<Longrightarrow> todo s = t # ts \<Longrightarrow>
   reachable X s0 (s\<lparr>todo := ts, wg := Suc (wg s),
     procs := procs s @ [\<lparr>task_of = t, self = reporter s, at_point = Fresh\<rparr>]\<rparr>)"
  by (rule reachable.step, assumption, rule spawn)

lemma reach_go:
  "reachable X s0 s \<Longrightarrow> dead s = None \<Longrightarrow> i < length (procs s) \<Longrightarrow>
   go_step X (cancelled s) (procs s ! i) (shared s) (Inr q) w' \<Longrightarrow>
   reachable X s0 (s\<lparr>procs := (procs s)[i := q], shared := w', wg := wg_after q (wg s)\<rparr>)"
  by (rule reachable.step, assumption, rule go)

lemma reach_client:
  "reachable X s0 s \<Longrightarrow> dead s = None \<Longrightarrow> client_step (shared s) w' \<Longrightarrow>
   reachable X s0 (s\<lparr>shared := w'\<rparr>)"
  by (rule reachable.step, assumption, rule client)

lemma reach_cancel: "reachable X s0 s \<Longrightarrow> dead s = None \<Longrightarrow> reachable X s0 (s\<lparr>cancelled := True\<rparr>)"
  by (rule reachable.step, assumption, rule cancel)

lemma reachable_trans: "reachable X s1 s2 \<Longrightarrow> reachable X s0 s1 \<Longrightarrow> reachable X s0 s2"
  by (induction rule: reachable.induct) (auto intro: reachable.step)

text \<open>All goroutines spawned, none of them run.\<close>

definition fresh_procs :: "IGMPReporter \<Rightarrow> task list \<Rightarrow> goroutine list" where
  "fresh_procs r ts = map (\<lambda>t. \<lparr>task_of = t, self = r, at_point = Fresh\<rparr>) ts"

definition started :: "IGMPReporter \<Rightarrow> world \<Rightarrow> sys" where
  "started r w = (Run_init r w)\<lparr>todo := [], wg := length (tasks_of r), procs := fresh_procs r (tasks_of r)\<rparr>"

lemma reach_spawns:
  "reachable X s0 s \<Longrightarrow> dead s = None \<Longrightarrow>
   reachable X s0 (s\<lparr>todo := [], wg := wg s + length (todo s),
     procs := procs s @ fresh_procs (reporter s) (todo s)\<rparr>)"
proof (induction "todo s" arbitrary: s)
  case Nil
  then have same: "s\<lparr>todo := []\<rparr> = s" by (cases s) simp
  with Nil show ?case by (simp add: fresh_procs_def same flip: Nil.hyps)
next
  case (Cons t ts)
  let ?s = "s\<lparr>todo := ts, wg := Suc (wg s),
     procs := procs s @ [\<lparr>task_of = t, self = reporter s, at_point = Fresh\<rparr>]\<rparr>"
  have "reachable X s0 ?s" using Cons.prems Cons.hyps(2) [symmetric] by (rule reach_spawn)
  from Cons.hyps(1) [of ?s, OF _ this] Cons.prems Cons.hyps(2) [symmetric] show ?case
    by (simp add: fresh_procs_def)
qed

lemma reach_started: "reachable X (Run_init r w) (started r w)"
  using reach_spawns [OF reachable.refl, of "Run_init r w" X]
  by (simp add: started_def Run_init_def)

lemma started_simps [simp]:
  "reporter (started r w) = r" "todo (started r w) = []" "shared (started r w) = w"
  "cancelled (started r w) = False" "dead (started r w) = None" "returned (started r w) = False"
  "length (procs (started r w)) = length (tasks_of r)"
  "i < length (tasks_of r) \<Longrightarrow>
     procs (started r w) ! i = \<lparr>task_of = tasks_of r ! i, self = r, at_point = Fresh\<rparr>"
  by (simp_all add: started_def Run_init_def fresh_procs_def)

text \<open>A goroutine gets to its loop; a receiver begins a turn; a worker gets to its \<open>select\<close>.\<close>

lemma reach_loop:
  assumes "reachable X s0 s" "dead s = None" "i < length (procs s)" "at_point (procs s ! i) = Fresh"
    and "\<And>sd. task_of (procs s ! i) \<noteq> RecvUnicast sd"
  shows "reachable X s0 (s\<lparr>procs := (procs s)[i := (procs s ! i)\<lparr>at_point := Loop\<rparr>]\<rparr>)"
proof -
  have "start_action (task_of (procs s ! i)) (self (procs s ! i)) (shared s) = (Inr (), shared s)"
    using assms(5) by (cases "task_of (procs s ! i)") auto
  from go_step.start [OF assms(4) this, of X "cancelled s"]
  show ?thesis using reach_go [OF assms(1-3)] by (fastforce simp: wg_after_def)
qed

lemma reach_reading:
  assumes "reachable X s0 s" "dead s = None" "i < length (procs s)" "at_point (procs s ! i) = Fresh"
    and "task_of (procs s ! i) = RecvIGMP sd g" "\<not> cancelled s" "io_ok X"
    and "mConn (self (procs s ! i)) sd g \<noteq> None"
  obtains b w' where "reachable X s0 (s\<lparr>procs := (procs s)[i := (procs s ! i)\<lparr>at_point := Reading b\<rparr>],
     shared := w'\<rparr>)"
proof -
  let ?p = "(procs s ! i)\<lparr>at_point := Loop\<rparr>" and ?s = "s\<lparr>procs := (procs s)[i := (procs s ! i)\<lparr>at_point := Loop\<rparr>]\<rparr>"
  have 1: "reachable X s0 ?s" by (rule reach_loop [OF assms(1-4)]) (simp add: assms(5))
  from begin_returns [OF assms(7,8)] obtain b w' where
    "recvIGMP_begin X sd g 0 (self (procs s ! i)) (shared s) = (Inr b, w')"
    unfolding returns_def by blast
  then have "go_step X False ?p (shared s) (Inr (?p\<lparr>at_point := Reading b\<rparr>)) w'"
    using go_step.begin_recv [where p = ?p and pick = 0 and r = "Inr b"] assms(5) by fastforce
  with reach_go [OF 1, where i = i and q = "?p\<lparr>at_point := Reading b\<rparr>" and w' = w'] assms(2,3,6)
  have "reachable X s0 (s\<lparr>procs := (procs s)[i := (procs s ! i)\<lparr>at_point := Reading b\<rparr>], shared := w'\<rparr>)"
    by (simp add: wg_after_def)
  then show ?thesis by (rule that)
qed

subsection \<open>The sample run\<close>

lemma launch_sample: "launched sample_externals sample_config (Run_init sample_reporter sample_running)"
  unfolding launched_def
  using sample_constructed by (intro exI conjI) (auto simp: boot_def sample_world_def)

lemma sample_tasks:
  "tasks_of sample_reporter = [RecvIGMP OUT allHosts, RecvIGMP OUT allRouters, RecvIGMP OUT IGMPHosts,
     RecvUnicast IN, LeavesToNetwork]"
  by (simp add: tasks_of_def receiver_defs the_multicastGroups_def)

end
