(* ===== verification/Ownership.thy ===== *)
theory Ownership
  imports Reach
begin

text \<open>
  The receive buffers under concurrency. \<open>recvIGMP\<close> and \<open>recvUnicastIGMP\<close> share one
  \<open>sync.Pool\<close>; a buffer is held by a goroutine from the \<open>Get\<close> of a turn to its \<open>Put\<close>. The
  invariant: whatever the interleaving, the buffers held by the goroutines and those in the pool
  are all different, and all have the length of a fresh one. The turns' lemmas of theories Relay
  and RecvUnicast are its cases.
\<close>

definition held_of :: "goroutine \<Rightarrow> nat list" where
  "held_of p = (case at_point p of Reading b \<Rightarrow> [b] | _ \<Rightarrow> [])"

definition held :: "goroutine list \<Rightarrow> nat list" where
  "held ps = concat (map held_of ps)"

lemma held_of_point [simp]:
  "held_of (p\<lparr>at_point := Fresh\<rparr>) = []" "held_of (p\<lparr>at_point := Loop\<rparr>) = []"
  "held_of (p\<lparr>at_point := Selecting\<rparr>) = []" "held_of (p\<lparr>at_point := Waiting\<rparr>) = []"
  "held_of (p\<lparr>at_point := Finished\<rparr>) = []" "held_of (p\<lparr>at_point := Reading b\<rparr>) = [b]"
  by (simp_all add: held_of_def)

lemma held_of_nil: "(\<And>b. at_point p \<noteq> Reading b) \<Longrightarrow> held_of p = []"
  by (cases "at_point p") (auto simp: held_of_def)

lemma held_update:
  "i < length ps \<Longrightarrow> \<exists>H. mset (held ps) = mset (held_of (ps ! i) @ H) \<and>
     mset (held (ps[i := q])) = mset (held_of q @ H)"
proof -
  assume i: "i < length ps"
  let ?H = "concat (map held_of (take i ps)) @ concat (map held_of (drop (Suc i) ps))"
  from i have "ps = take i ps @ ps ! i # drop (Suc i) ps" by (rule id_take_nth_drop)
  then have "held ps = concat (map held_of (take i ps)) @ held_of (ps ! i)
      @ concat (map held_of (drop (Suc i) ps))"
    unfolding held_def by (metis concat.simps(2) concat_append list.simps(9) map_append)
  then have "mset (held ps) = mset (held_of (ps ! i) @ ?H)" by simp
  moreover from i have "mset (held (ps[i := q])) = mset (held_of q @ ?H)"
    by (simp add: held_def upd_conv_take_nth_drop)
  ultimately show ?thesis by blast
qed

lemma bufs_ok_mset: "mset H = mset H' \<Longrightarrow> bufs_ok H w \<Longrightarrow> bufs_ok H' w"
  by (metis bufs_ok_def distinct_append mset_eq_imp_distinct_iff mset_eq_setD set_append)

text \<open>One step of a goroutine, with the buffers \<open>H\<close> held by the others.\<close>

lemma bodies_bufs:
  "preserves (bufs_ok H) (readMembershipReportToNetworkCh_body X r ms)"
  "preserves (bufs_ok H) (leaveToNetworkWorker_body X r ms)"
  "preserves (bufs_ok H) (connectQueryToReport_body X r)"
  "preserves (bufs_ok H) (testingReadMembershipReportsFromNetwork_body ms)"
  "preserves (bufs_ok H) (outInterfaceSelector_body v)"
proof -
  have h: "keeps bufstate (observeH l)" for l by (simp add: keeps_observeH bufstate_def)
  have s: "keeps bufstate (sendMembershipReport X r i ms)" "keeps bufstate (sendLeave X r i ms)" for i ms
    by (simp_all add: keeps_sendMembershipReport keeps_sendLeave)
  have u: "preserves (bufs_ok H) (seqs [m, m'])" if "keeps bufstate m" "keeps bufstate m'" for m m'
    using that by (intro preserves_bufs_ok keeps_seqs) simp
  show "preserves (bufs_ok H) (readMembershipReportToNetworkCh_body X r ms)"
    "preserves (bufs_ok H) (leaveToNetworkWorker_body X r ms)"
    "preserves (bufs_ok H) (connectQueryToReport_body X r)"
    unfolding readMembershipReportToNetworkCh_body_def leaveToNetworkWorker_body_def
      connectQueryToReport_body_def Let_def by (rule u, rule s, rule h)+
  show "preserves (bufs_ok H) (testingReadMembershipReportsFromNetwork_body ms)"
    unfolding testingReadMembershipReportsFromNetwork_body_def by (rule preserves_bufs_ok, rule h)
  show "preserves (bufs_ok H) (outInterfaceSelector_body v)"
    by (simp add: preserves_def outInterfaceSelector_body_def incC_def observeH_def bufs_ok_def)
qed

lemma bufs_ok_chan [simp]:
  "bufs_ok H (w\<lparr>QueryNotifyCh := a\<rparr>) = bufs_ok H w"
  "bufs_ok H (w\<lparr>MembershipReportFromNetworkCh := b\<rparr>) = bufs_ok H w"
  "bufs_ok H (w\<lparr>MembershipReportToNetworkCh := b\<rparr>) = bufs_ok H w"
  "bufs_ok H (w\<lparr>LeaveToNetworkCh := b\<rparr>) = bufs_ok H w"
  "bufs_ok H (w\<lparr>OutInterfaceSelectorCh := c\<rparr>) = bufs_ok H w"
  by (simp_all add: bufs_ok_def)

lemma body_bufs:
  "(res, w') = body w \<Longrightarrow> preserves (bufs_ok H) body \<Longrightarrow> bufs_ok H w \<Longrightarrow> bufs_ok H w'"
  by (metis preservesD)

lemma receive_bufs:
  "receive_now X t r w = Some (x, w') \<Longrightarrow> bufs_ok H w \<Longrightarrow> bufs_ok H w'"
  "receive_parked X t r w = Some (x, w') \<Longrightarrow> bufs_ok H w \<Longrightarrow> bufs_ok H w'"
  by (cases t; clarsimp simp: then_body_Some dest!: take_now_op take_parked_op;
      erule body_bufs, rule bodies_bufs, simp)+

lemma park_bufs:
  "park_task t w = Some w' \<Longrightarrow> bufs_ok H w' = bufs_ok H w"
  "unpark_task t w = Some w' \<Longrightarrow> bufs_ok H w' = bufs_ok H w"
  by (cases t; auto dest!: park_on_op unpark_on_op)+

lemma client_bufs: "client_step w w' \<Longrightarrow> bufs_ok H w' = bufs_ok H w"
  by (erule client_stepE) (auto dest!: take_now_op)

lemma client_wait_bufs: "client_wait (w, q, n) (w', q', n') \<Longrightarrow> bufs_ok H w' = bufs_ok H w"
  by (erule client_waitE) (auto dest!: park_on_op unpark_on_op take_parked_op)

lemma quiet_bufs:
  "preserves (bufs_ok H) (start_action t r)" "preserves (bufs_ok H) (head_action t)"
  by (rule preserves_bufs_ok; cases t;
      simp add: recvUnicast_start_def keeps_simple keeps_incC bufstate_def split: option.split)+

lemma go_step_bufs:
  assumes "go_step X d p w (Inr q) w'" "bufs_ok (held_of p @ H) w"
  shows "bufs_ok (held_of q @ H) w'"
  using assms(1)
proof cases
  case (start r)
  with assms(2) preservesD [OF quiet_bufs(1)] show ?thesis by (cases r) (auto simp: held_of_nil)
next
  case (begin_recv s g pick r)
  with assms(2) tripleD [OF triple_begin] show ?thesis by (cases r) (auto simp: held_of_nil)
next
  case (handle_recv b s g res r)
  with assms(2) tripleD [OF triple_handle] show ?thesis by (cases r) (auto simp: held_of_def)
next
  case (begin_unicast s pick r)
  with assms(2) tripleD [OF triple_unicast_begin] show ?thesis by (cases r) (auto simp: held_of_nil)
next
  case (handle_unicast b s res r)
  with assms(2) tripleD [OF triple_unicast_handle] show ?thesis by (cases r) (auto simp: held_of_def)
next
  case (head r)
  with assms(2) preservesD [OF quiet_bufs(2)] show ?thesis by (cases r) (auto simp: held_of_nil)
next
  case (select_recv r)
  with assms(2) receive_bufs show ?thesis by (cases r) (auto simp: held_of_nil)
next
  case (wake_recv r)
  with assms(2) receive_bufs show ?thesis by (cases r) (auto simp: held_of_nil)
qed (use assms(2) park_bufs in \<open>auto simp: held_of_nil\<close>)

definition buffers_ok :: "sys \<Rightarrow> bool" where
  "buffers_ok s \<longleftrightarrow> (dead s = None \<longrightarrow> bufs_ok (held (procs s)) (shared s))"

interpretation buffers: sys_invariant X buffers_ok for X
proof
  fix s s' assume J: "buffers_ok s" and st: "sys_step X s s'"
  from st show "buffers_ok s'"
  proof cases
    case (go i q w')
    from held_update [OF go(3)] obtain H where
      H: "mset (held (procs s)) = mset (held_of (procs s ! i) @ H)"
        "mset (held ((procs s)[i := q])) = mset (held_of q @ H)" by metis
    from J go(2) bufs_ok_mset [OF H(1)] have "bufs_ok (held_of (procs s ! i) @ H) (shared s)"
      by (simp add: buffers_ok_def)
    from go_step_bufs [OF go(4) this] bufs_ok_mset [OF H(2) [symmetric]] go(1) show ?thesis
      by (simp add: buffers_ok_def)
  next
    case (client w')
    with J client_bufs show ?thesis by (simp add: buffers_ok_def)
  next
    case (client_waits w' q n)
    with J client_wait_bufs show ?thesis by (simp add: buffers_ok_def held_def)
  qed (use J in \<open>auto simp: buffers_ok_def held_def held_of_def\<close>)
qed

lemma buffers_launched:
  assumes "launched X c s0" "reachable X s0 s" "dead s = None"
  shows "bufs_ok (held (procs s)) (shared s)"
proof -
  from assms(1) obtain r w where s0: "s0 = Run_init r w" "bufs_ok [] w" by (rule launched_boot)
  then have "buffers_ok s0" by (simp add: buffers_ok_def Run_init_def held_def)
  from buffers.always [OF assms(2) this] assms(3) show ?thesis by (simp add: buffers_ok_def)
qed

lemma held_front:
  assumes "bufs_ok (held ps) w" "i < length ps" "at_point (ps ! i) = Reading b"
  shows "\<exists>H. bufs_ok (b # H) w"
proof -
  from held_update [OF assms(2)] obtain H where "mset (held ps) = mset (held_of (ps ! i) @ H)" by blast
  from bufs_ok_mset [OF this assms(1)] assms(3) show ?thesis by (auto simp: held_of_def)
qed

lemma held_nth:
  "i < length ps \<Longrightarrow> at_point (ps ! i) = Reading b \<Longrightarrow> b \<in> set (held ps)"
  unfolding held_def by (auto simp: held_of_def intro!: bexI [OF _ nth_mem])

lemma held_distinct:
  "distinct (held ps) \<Longrightarrow> i < j \<Longrightarrow> j < length ps \<Longrightarrow> at_point (ps ! i) = Reading b \<Longrightarrow>
   at_point (ps ! j) = Reading c \<Longrightarrow> b \<noteq> c"
proof (induction ps arbitrary: i j)
  case (Cons p ps)
  show ?case
  proof (cases i)
    case 0
    with Cons.prems have "b \<in> set (held_of p)" "c \<in> set (held ps)"
      using held_nth [of "j - 1" ps c] by (auto simp: held_of_def nth_Cons')
    with Cons.prems(1) show ?thesis by (auto simp: held_def)
  next
    case (Suc k)
    with Cons.prems Cons.IH [of k "j - 1"] show ?thesis by (auto simp: held_def nth_Cons')
  qed
qed simp

text \<open>
  C7: No two goroutines ever work in the same receive buffer. In every state the running system
  reaches, two receivers that are between their read and the end of their turn hold different
  buffers, neither is in the pool where a third could fetch it, and both still have the 200 bytes
  of a fresh one. This is what keeps one receiver's packet out of another's datagram although
  error paths, filters and proxying all hand buffers back separately.
\<close>
theorem buffers_exclusive:
  assumes "launched X c s0" and "reachable X s0 s" and "dead s = None"
    and "i < j" and "j < length (procs s)"
    and "at_point (procs s ! i) = Reading b" and "at_point (procs s ! j) = Reading b'"
  shows "b \<noteq> b' \<and> b \<notin> set (bytePool (shared s)) \<and> b' \<notin> set (bytePool (shared s)) \<and>
     length (heap (shared s) b) = maxIGMPPacketRecieveBytesCst \<and>
     length (heap (shared s) b') = maxIGMPPacketRecieveBytesCst"
proof -
  note ok = buffers_launched [OF assms(1-3)]
  have in_held: "b \<in> set (held (procs s))" "b' \<in> set (held (procs s))"
    using assms(4-7) held_nth [of i] held_nth [of j] by simp_all
  from held_distinct [OF _ assms(4-7)] ok have "b \<noteq> b'" by (simp add: bufs_ok_def)
  with ok in_held show ?thesis by (auto simp: bufs_ok_def)
qed

theorem buffers_exclusive_witness:
  "\<exists>s b b'. reachable sample_externals (Run_init sample_reporter sample_running) s \<and> dead s = None \<and>
     at_point (procs s ! 0) = Reading b \<and> at_point (procs s ! 1) = Reading b' \<and> b \<noteq> b'"
proof -
  let ?X = "sample_externals" and ?init = "Run_init sample_reporter sample_running"
    and ?st = "started sample_reporter sample_running"
  note tasks = sample_tasks allHosts_def allRouters_def
  have sock: "mConn sample_reporter OUT allHosts \<noteq> None" "mConn sample_reporter OUT allRouters \<noteq> None"
    by (simp_all add: mConn_def groupAddr_def receiver_defs sample_joins_def)
  obtain b w1 where 1: "reachable ?X ?init (?st\<lparr>procs := (procs ?st)[0 := (procs ?st ! 0)\<lparr>at_point := Reading b\<rparr>],
      shared := w1\<rparr>)" (is "reachable _ _ ?one")
    by (rule reach_reading [OF reach_started [of ?X sample_reporter sample_running], where i = 0 and sd = OUT and g = allHosts])
      (simp_all add: sample_tasks sample_io sock)
  obtain b' w2 where 2: "reachable ?X ?init (?one\<lparr>procs := (procs ?one)[1 := (procs ?one ! 1)\<lparr>at_point := Reading b'\<rparr>],
      shared := w2\<rparr>)" (is "reachable _ _ ?two")
    by (rule reach_reading [OF 1, where i = 1 and sd = OUT and g = allRouters])
      (simp_all add: sample_tasks sample_io sock)
  have points: "at_point (procs ?two ! 0) = Reading b" "at_point (procs ?two ! 1) = Reading b'"
    by (simp_all add: sample_tasks)
  have "b \<noteq> b'"
    using buffers_exclusive [OF launch_sample 2, of 0 1 b b'] points by (simp add: sample_tasks)
  with 2 points show ?thesis by (intro exI [of _ ?two] exI [of _ b] exI [of _ b']) simp
qed

end
