(* ===== verification/Wire.thy ===== *)
theory Wire
  imports Reach
begin

text \<open>
  What the running system does to the outside: every datagram is well formed and leaves through
  a socket the configuration opened, the channels stay within their capacity, and the selector
  table keeps its shape. All three are interpretations of the locale \<open>world_inv\<close> and so of \<open>world_base\<close>, which
  carries them from one handler to every reachable state: it is a sublocale of \<open>sys_invariant\<close>.
\<close>

subsection \<open>From a world invariant to the reachable states\<close>

text \<open>
  A closed property of the world, with the copies of the reporter the goroutines work on, is an
  invariant of the system.
\<close>

context world_base
begin

lemma ok_r_copy: "copy_ok r p \<Longrightarrow> ok_r r \<Longrightarrow> ok_r (self p)"
  using ok_querier by (auto simp: copy_ok_def)

definition whole :: "sys \<Rightarrow> bool" where
  "whole s \<longleftrightarrow> copies_ok s \<and> ok_r (reporter s) \<and> I (shared s)"

end

sublocale world_base \<subseteq> system: sys_invariant X whole
proof
  fix s s' assume J: "whole s" and st: "sys_step X s s'"
  then have "\<forall>p \<in> set (procs s). ok_r (self p)"
    by (auto simp: whole_def copies_ok_def intro: ok_r_copy)
  with J st show "whole s'"
    using p_sys_step copies.step sys_step_reporter unfolding whole_def by metis
qed

context world_base
begin

lemma always_launched:
  assumes "launched X c s0" "reachable X s0 s"
    and "\<And>r w. built c r \<Longrightarrow> built_world c w \<Longrightarrow> wire w = [] \<Longrightarrow> labels_fit w \<Longrightarrow>
      set reporter_metrics \<subseteq> set (registered w) \<Longrightarrow> pCrecvIGMP w = (\<lambda>_. 0) \<Longrightarrow> reporter s0 = r \<Longrightarrow> ok_r r \<and> I w"
  shows "I (shared s) \<and> reporter s = reporter s0"
proof -
  from assms(1) obtain r w where s0: "s0 = Run_init r w" "built c r" "built_world c w" "wire w = []"
    "labels_fit w" "set reporter_metrics \<subseteq> set (registered w)" "pCrecvIGMP w = (\<lambda>_. 0)"
    by (rule launched_boot)
  then have "whole s0"
    using assms(3) [of r w] by (simp add: whole_def Run_init_def copies_ok_def)
  with system.always [OF assms(2)] reachable_reporter [OF assms(2)] show ?thesis
    by (simp add: whole_def)
qed

end

subsection \<open>Datagrams\<close>

definition compliant :: "externals \<Rightarrow> datagram \<Rightarrow> bool" where
  "compliant X d \<longleftrightarrow>
     h_TTL (dg_hdr d) = 1 \<and> h_Protocol (dg_hdr d) = 2 \<and> h_TOS (dg_hdr d) = 0xc0 \<and>
     h_Options (dg_hdr d) = [0x94, 0x04, 0, 0] \<and> h_Version (dg_hdr d) = ipv4_Version X \<and>
     h_TotalLen (dg_hdr d) = ipv4_HeaderLen X + length (dg_payload d)"

definition via_own_socket :: "IGMPReporter \<Rightarrow> datagram \<Rightarrow> bool" where
  "via_own_socket r d \<longleftrightarrow> conRaw r (dg_via d) \<noteq> None \<and> dg_cm d = ContMsg r (dg_via d)"

interpretation wire: world_inv X "\<lambda>r'. conRaw r' = conRaw r \<and> ContMsg r' = ContMsg r"
  "\<lambda>w. \<forall>d \<in> set (wire w). compliant X d \<and> via_own_socket r d" for X r
  by unfold_locales
    (auto simp: seen_def compliant_def via_own_socket_def dgram_def ipv4HeaderNetIP_def ttlCst_def
      igmpIPProtocolNumber_def dscpCst_def routerAlert_def)

text \<open>
  C2: Everything the program ever sends is a link-local IGMP datagram in the form RFC 3376 asks
  for: time to live 1, protocol 2, type of service 0xc0, the router-alert option, and as total length
  that of a header without options and the payload. It leaves through a side whose sending socket the
  configuration opens, with the control message of that side's own interface. This holds in every
  state of the running system: proxied, re-sent, reported and withdrawn memberships alike.
\<close>
theorem wire_compliant:
  assumes "launched X c s0" and "reachable X s0 s" and "d \<in> set (wire (shared s))"
  shows "compliant X d \<and> dg_via d \<in> raws_of c \<and>
     (\<exists>m. dg_cm d = Some m \<and> NetIFIndex (reporter s) (cm_IfIndex m) \<noteq> None)"
proof -
  from assms(1) obtain r w where s0: "s0 = Run_init r w" "built c r" by (rule launched_boot)
  from wire.base.always_launched [OF assms(1,2), of r] s0
  have inv: "\<forall>d \<in> set (wire (shared s)). compliant X d \<and> via_own_socket r d" "reporter s = r"
    by (simp_all add: Run_init_def)
  with assms(3) have d: "compliant X d" "conRaw r (dg_via d) \<noteq> None" "dg_cm d = ContMsg r (dg_via d)"
    by (simp_all add: via_own_socket_def)
  from d(2) s0(2) have via: "dg_via d \<in> raws_of c" by (auto simp: built_def)
  then have "dg_via d \<in> dom (ContMsg r)"
    using s0(2) by (auto simp: built_def raws_of_def split: if_splits)
  then obtain m where m: "ContMsg r (dg_via d) = Some m" by blast
  with s0(2) have "NetIFIndex r (cm_IfIndex m) \<noteq> None" by (auto simp: built_def ifaces_ok_def)
  with d m via inv show ?thesis by simp
qed

subsection \<open>Channels\<close>

definition chan_within :: "Config \<Rightarrow> 'a chan option \<Rightarrow> bool" where
  "chan_within c ch = (case ch of None \<Rightarrow> True | Some k \<Rightarrow> chan_ok k \<and> int (chCap k) = ChannelSize c)"

definition channels_within :: "Config \<Rightarrow> world \<Rightarrow> bool" where
  "channels_within c w \<longleftrightarrow>
     chan_within c (QueryNotifyCh w) \<and> chan_within c (MembershipReportFromNetworkCh w) \<and>
     chan_within c (MembershipReportToNetworkCh w) \<and> chan_within c (LeaveToNetworkCh w) \<and>
     chan_within c (OutInterfaceSelectorCh w)"

interpretation channels: world_inv X "\<lambda>_. True" "channels_within c" for X c
  by unfold_locales
    (auto simp: seen_def channels_within_def chan_within_def chan_op_cap intro: chan_op_ok)

text \<open>
  No channel ever holds more than the configured size plus one value per goroutine that is
  blocked receiving from it, and its capacity never changes: the receivers' notifications, the
  client's requests and the workers' receives keep the bound in every interleaving.
\<close>
theorem channels_bounded:
  assumes "launched X c s0" and "reachable X s0 s"
  shows "channels_within c (shared s)"
  using channels.base.always_launched [OF assms(1,2), of c]
  by (auto simp: channels_within_def chan_within_def built_world_def fresh_chan_def chan_ok_def)

subsection \<open>The selector table\<close>

interpretation table: world_inv X "\<lambda>_. True" "\<lambda>w. \<exists>v. IntOutName w = [OUT \<mapsto> IN, IN \<mapsto> v]" for X
  by unfold_locales (auto simp: seen_def fun_eq_iff)

interpretation fixed_table: world_inv X "\<lambda>_. True"
  "\<lambda>w. OutInterfaceSelectorCh w = None \<and> IntOutName w = [OUT \<mapsto> IN, IN \<mapsto> OUT]" for X
  by unfold_locales (auto simp: seen_def)

lemma table_launched:
  assumes "launched X c s0" and "reachable X s0 s"
  shows "\<exists>v. IntOutName (shared s) = [OUT \<mapsto> IN, IN \<mapsto> v]"
  using table.base.always_launched [OF assms] by (auto simp: built_world_def)

lemma fixed_table_launched:
  assumes "launched X c s0" and "reachable X s0 s" and "\<not> has_alt c"
  shows "IntOutName (shared s) = [OUT \<mapsto> IN, IN \<mapsto> OUT]"
  using fixed_table.base.always_launched [OF assms(1,2)] assms(3) by (auto simp: built_world_def)

text \<open>
  C38: The selector table keeps its shape. What comes in from the outside is always relayed to the
  inside; only the output of the inside ever changes, and without an alternative outside interface
  not even that: it stays the outside.
\<close>
theorem selector_table_shape:
  assumes "launched X c s0" and "reachable X s0 s"
  shows "\<exists>v. IntOutName (shared s) = [OUT \<mapsto> IN, IN \<mapsto> v] \<and> (v = OUT \<or> has_alt c)"
  using table_launched [OF assms] fixed_table_launched [OF assms] by blast

subsection \<open>Witnesses\<close>

definition sample_item :: MembershipItem where
  "sample_item = \<lparr>Sources = [], Group = Addr4 239 1 1 1\<rparr>"

lemma sample_leave_runs:
  "\<exists>w' d. leaveToNetworkWorker_body sample_externals sample_reporter [sample_item] w = (Inr (), w') \<and>
     wire w' = wire w @ [d]"
  by (simp add: leaveToNetworkWorker_body_def sendLeave_def sendLeave_item_def sample_item_def
      addr2NetIP_def Addr_IsValid_def sample_externals_def sample_serialize_def leaveDest_def
      ipv4Header_dest bind_lift setWriteDeadline_def writeTo_def incC_def addC_def observeH_def
      bind_apply ioOrFatal_apply sample_reporter_def sample_config_def IGMPHosts_def allRouters_def QueryHost_def)

lemma sample_send:
  obtains s s' d where "reachable sample_externals (Run_init sample_reporter sample_running) s"
    "sys_step sample_externals s s'" "dead s' = None" "wire (shared s) = []" "wire (shared s') = [d]"
proof -
  let ?X = "sample_externals" and ?init = "Run_init sample_reporter sample_running"
    and ?st = "started sample_reporter sample_running"
  define p where "p = \<lparr>task_of = LeavesToNetwork, self = sample_reporter, at_point = Loop\<rparr>"
  have 1: "reachable ?X ?init (?st\<lparr>procs := (procs ?st)[4 := p]\<rparr>)"
    using reach_loop [OF reach_started [of ?X sample_reporter sample_running], of 4]
    by (simp add: sample_tasks p_def)
  obtain w1 where h: "head_action LeavesToNetwork sample_running = (Inr (), w1)"
    and w1: "w1 = sample_running\<lparr>pC := pC w1\<rparr>" by (auto simp: incC_def)
  have 2: "reachable ?X ?init (?st\<lparr>procs := (procs ?st)[4 := p\<lparr>at_point := Selecting\<rparr>], shared := w1\<rparr>)"
    using reach_go [OF 1, of 4 "p\<lparr>at_point := Selecting\<rparr>" w1]
      go_step.head [of p sample_running "Inr ()" w1 ?X False] h
    by (simp add: sample_tasks p_def wg_after_def)
  let ?c = "sample_chan\<lparr>chQueue := [[sample_item]]\<rparr>"
  let ?w2 = "w1\<lparr>LeaveToNetworkCh := Some ?c\<rparr>"
  have "client_step w1 ?w2"
    by (rule send_leave [of "[sample_item]"])
      (subst w1, simp add: try_send_ref_def try_send_def receiver_defs sample_chan_def)
  from reach_client [OF 2, of ?w2] this
  have 3: "reachable ?X ?init (?st\<lparr>procs := (procs ?st)[4 := p\<lparr>at_point := Selecting\<rparr>], shared := ?w2\<rparr>)"
    by simp
  from sample_leave_runs obtain w3 d where b: "leaveToNetworkWorker_body ?X sample_reporter [sample_item]
      (?w2\<lparr>LeaveToNetworkCh := Some sample_chan\<rparr>) = (Inr (), w3)" and d: "wire w3 = wire w1 @ [d]"
    by fastforce
  have "receive_now ?X LeavesToNetwork sample_reporter ?w2 = Some (Inr (), w3)"
    using b by (simp add: then_body_Some take_now_def recv_now_def sample_chan_def)
  with go [of "?st\<lparr>procs := (procs ?st)[4 := p\<lparr>at_point := Selecting\<rparr>], shared := ?w2\<rparr>" 4 ?X p w3]
    go_step.select_recv [of "p\<lparr>at_point := Selecting\<rparr>" ?X ?w2 "Inr ()" w3 False]
  have "sys_step ?X (?st\<lparr>procs := (procs ?st)[4 := p\<lparr>at_point := Selecting\<rparr>], shared := ?w2\<rparr>)
      (?st\<lparr>procs := (procs ?st)[4 := p], shared := w3\<rparr>)"
    by (simp add: sample_tasks p_def wg_after_def)
  from 3 this show ?thesis
  proof (rule that)
    have "wire w1 = []" by (subst w1) (simp add: receiver_defs)
    with d show "wire (shared (?st\<lparr>procs := (procs ?st)[4 := p\<lparr>at_point := Selecting\<rparr>], shared := ?w2\<rparr>)) = []"
      "wire (shared (?st\<lparr>procs := (procs ?st)[4 := p], shared := w3\<rparr>)) = [d]" by simp_all
  qed simp
qed

lemma sample_wire:
  obtains s d where "reachable sample_externals (Run_init sample_reporter sample_running) s"
    "dead s = None" "wire (shared s) = [d]"
  by (rule sample_send) (rule that, erule reachable.step)

theorem wire_compliant_witness:
  "\<exists>s d. reachable sample_externals (Run_init sample_reporter sample_running) s \<and>
     wire (shared s) = [d] \<and> compliant sample_externals d \<and> dg_via d \<in> {OUT, IN}"
proof -
  obtain s d where s: "reachable sample_externals (Run_init sample_reporter sample_running) s"
    "wire (shared s) = [d]" by (rule sample_wire)
  from wire_compliant [OF launch_sample s(1), of d] s show ?thesis
    by (auto simp: raws_of_def split: if_splits)
qed

theorem channels_bounded_witness:
  "\<exists>s. reachable sample_externals (Run_init sample_reporter sample_running) s \<and> wire (shared s) \<noteq> [] \<and>
     channels_within sample_config (shared s)"
proof -
  obtain s d where s: "reachable sample_externals (Run_init sample_reporter sample_running) s"
    "wire (shared s) = [d]" by (rule sample_wire)
  from channels_bounded [OF launch_sample s(1)] s show ?thesis by auto
qed

theorem selector_table_shape_witness:
  "\<exists>s. reachable sample_externals (Run_init sample_reporter sample_running) s \<and> wire (shared s) \<noteq> [] \<and>
     IntOutName (shared s) = [OUT \<mapsto> IN, IN \<mapsto> OUT]"
proof -
  obtain s d where s: "reachable sample_externals (Run_init sample_reporter sample_running) s"
    "wire (shared s) = [d]" by (rule sample_wire)
  from selector_table_shape [OF launch_sample s(1)] s show ?thesis
    by (auto simp: has_alt_def sample_config_def)
qed

end
