(* ===== verification/Survival.thy ===== *)
theory Survival
  imports Ownership Wire
begin

text \<open>
  Which configurations can run: that a receiver of a launched system survives its input in every
  reachable state, and the configurations whose receivers or workers are bound to end the process
  because the constructor opened no socket for them.
\<close>

lemma launched_facts:
  assumes "launched X c s0" "reachable X s0 s"
  obtains r where "reporter s = r" "built c r" "copies_ok s" "accounting s"
proof -
  from assms(1) obtain r w where s0: "s0 = Run_init r w" "built c r" by (rule launched_boot)
  have "copies_ok s0" "accounting s0"
    by (simp_all add: s0 copies_ok_def accounting_def Run_init_def live_def)
  moreover have "reporter s = reporter s0"
    using assms(2) by (induction) (auto dest: sys_step_reporter)
  ultimately show ?thesis
    using that [of r] s0 copies.always [OF assms(2)] account.always [OF assms(2)]
    by (simp add: Run_init_def)
qed

lemma proc_task:
  "accounting s \<Longrightarrow> i < length (procs s) \<Longrightarrow> task_of (procs s ! i) \<in> set (tasks_of (reporter s))"
  by (metis accounting_def Un_iff image_eqI list.set_map nth_mem set_append)

lemma proc_copy:
  "copies_ok s \<Longrightarrow> i < length (procs s) \<Longrightarrow> copy_ok (reporter s) (procs s ! i)"
  by (simp add: copies_ok_def)

lemma tasks_groups:
  "RecvIGMP sd g \<in> set (tasks_of r) \<Longrightarrow> g \<in> set (multicastGroups r)"
  by (auto simp: tasks_of_def split: if_splits)

lemma built_groups: "built c r \<Longrightarrow> multicastGroups r = the_multicastGroups"
  by (simp add: built_def ready_def sock_inv_def)

lemma group_not_query: "g \<in> set the_multicastGroups \<Longrightarrow> g \<noteq> QueryHost"
  by (auto simp: the_multicastGroups_def allHosts_def allRouters_def IGMPHosts_def QueryHost_def)

text \<open>The sides a configuration listens on, against the sides \<open>Run\<close> starts receivers for.\<close>

lemma tasks_sides:
  "built c r \<Longrightarrow> RecvIGMP sd g \<in> set (tasks_of r) \<longleftrightarrow> g \<in> set the_multicastGroups \<and>
     (sd = OUT \<and> (ProxyOutToIn c \<or> QueryNotify c \<or> MembershipReportsFromNetwork c) \<or>
      sd = ALTOUT \<and> has_alt c \<and> (ProxyOutToIn c \<or> QueryNotify c \<or> MembershipReportsFromNetwork c) \<or>
      sd = IN \<and> ProxyInToOut c)"
  by (frule built_groups) (auto simp: tasks_of_def built_def)

lemma mConn_opened:
  assumes "built c r" "g \<in> set the_multicastGroups"
  shows "mConn r sd g \<noteq> None \<longleftrightarrow> sd \<in> joins_of c"
proof -
  from assms(1) have t: "tables_ok r" and o: "opened r = joins_of c \<times> group_addrs"
    by (simp_all add: built_def ready_def sock_inv_def)
  from group_addrs_tables [OF t] assms(2) have "groupAddr r g \<in> group_addrs" by blast
  moreover have "mConn r sd g \<noteq> None \<longleftrightarrow> (sd, groupAddr r g) \<in> opened r"
    by (simp add: mConn_joined opened_def)
  ultimately show ?thesis by (simp add: o)
qed

lemma mConn_copy: "mConn (r\<lparr>querierSourceIP := a\<rparr>) = mConn r"
  by (simp add: fun_eq_iff mConn_def groupAddr_def split: option.split)

subsection \<open>Receivers that survive\<close>

lemma relay_outputs_open:
  assumes "built c r" "\<not> has_alt c" "IntOutName w = [OUT \<mapsto> IN, IN \<mapsto> OUT]"
    and "IntOutName w i = Some out" "proxyIt r i"
  shows "conRaw r out \<noteq> None"
proof -
  have "out \<in> raws_of c"
    using assms by (auto simp: raws_of_def proxyIt_def built_def split: if_splits)
  with assms(1) show ?thesis by (auto simp: built_def)
qed

text \<open>
  C13: Without an alternative outside interface a multicast receiver never brings the program down
  on well-formed input. In every reachable state, whatever else is going on, a receiver that gets
  a packet with a control message handles it to the end: every output it may be relayed to has a
  socket, its buffer is its own, and the buffer is long enough to hold the type.
\<close>
theorem receivers_survive:
  assumes "launched X c s0" and "reachable X s0 s" and "dead s = None"
    and "\<not> has_alt c" and "io_ok X"
    and "\<And>t b l. decodeIGMP X (t # b) = Some l \<Longrightarrow> layer_sane t l"
    and "i < length (procs s)" and "task_of (procs s ! i) = RecvIGMP sd g"
    and "at_point (procs s ! i) = Reading b" and "sane_ip (cm_Dst m)"
  shows "\<exists>me w'. recvIGMP_handle X sd g b (ReadOk pkt (Some m) (GAddr a)) (self (procs s ! i)) (shared s)
     = (Inr me, w')"
proof -
  from assms(1,2) obtain r where r: "reporter s = r" "built c r" "copies_ok s" "accounting s"
    by (rule launched_facts)
  from proc_copy [OF r(3) assms(7)] r(1) obtain q where me: "self (procs s ! i) = r\<lparr>querierSourceIP := q\<rparr>"
    by (auto simp: copy_ok_def)
  from proc_task [OF r(4) assms(7)] r assms(8) have "g \<in> set the_multicastGroups"
    using tasks_sides by simp
  then have g: "g \<noteq> QueryHost" by (rule group_not_query)
  obtain H where buf: "bufs_ok (b # H) (shared s)"
    using held_front [OF buffers_launched [OF assms(1-3)] assms(7,9)] by blast
  have raw: "conRaw (self (procs s ! i)) out \<noteq> None"
    if "IntOutName (shared s) sd = Some out" "proxyIt (self (procs s ! i)) sd" for out
    using relay_outputs_open [OF r(2) assms(4) fixed_table_launched [OF assms(1,2,4)] that(1)] that(2)
    by (simp add: me proxyIt_def)
  show ?thesis by (rule handle_ok [OF assms(5) g buf assms(10,6) raw])
qed

subsection \<open>Configurations that cannot run\<close>

text \<open>
  C29: The constructor and \<open>Run\<close> disagree about the alternative outside interface. Every
  receiver that \<open>Run\<close> starts has its socket, except those of ALTOUT when the configuration only
  listens (query notification or reports from the network) and neither proxies nor sends reports:
  then \<open>Run\<close> starts three receivers for ALTOUT whose socket was never opened.
\<close>
theorem receivers_have_sockets_iff:
  assumes "NewIGMPReporter X c w0 = (Inr r, w1)" and "RecvIGMP sd g \<in> set (tasks_of r)"
  shows "mConn r sd g = None \<longleftrightarrow>
     sd = ALTOUT \<and> \<not> (ProxyOutToIn c \<or> ProxyInToOut c \<or> MembershipReportsToNetwork c)"
proof -
  note b = NewIGMPReporter_built [OF assms(1)]
  from assms(2) tasks_sides [OF b] have g: "g \<in> set the_multicastGroups"
    and sides: "sd = OUT \<and> (ProxyOutToIn c \<or> QueryNotify c \<or> MembershipReportsFromNetwork c) \<or>
      sd = ALTOUT \<and> has_alt c \<or> sd = IN \<and> ProxyInToOut c" by auto
  from mConn_opened [OF b g] have "mConn r sd g = None \<longleftrightarrow> sd \<notin> joins_of c" by blast
  with sides show ?thesis by (auto simp: joins_of_def)
qed

text \<open>
  Such a receiver ends the process in its first turn. In every reachable state in which it
  stands at the head of its loop and the context is not cancelled, its only step is the nil
  dereference of its missing socket.
\<close>
theorem socketless_receiver_panics:
  assumes "launched X c s0" and "reachable X s0 s"
    and "\<not> (ProxyOutToIn c \<or> ProxyInToOut c \<or> MembershipReportsToNetwork c)"
    and "i < length (procs s)" and "task_of (procs s ! i) = RecvIGMP ALTOUT g"
    and "at_point (procs s ! i) = Loop"
    and "go_step X False (procs s ! i) (shared s) q w'"
  shows "q = Inl (Panic ''nil *ipv4.PacketConn'')"
proof -
  from assms(1,2) obtain r where r: "reporter s = r" "built c r" "copies_ok s" "accounting s"
    by (rule launched_facts)
  from proc_copy [OF r(3) assms(4)] r(1) obtain a where me: "self (procs s ! i) = r\<lparr>querierSourceIP := a\<rparr>"
    by (auto simp: copy_ok_def)
  from proc_task [OF r(4) assms(4)] r assms(5) have "g \<in> set the_multicastGroups"
    using tasks_sides by simp
  from mConn_opened [OF r(2) this, of ALTOUT] assms(3)
  have none: "mConn (self (procs s ! i)) ALTOUT g = None"
    by (auto simp: me mConn_copy joins_of_def split: if_splits)
  show ?thesis
    using assms(7) by cases (use assms(5,6) none in \<open>auto simp: recvIGMP_begin_def incR_def\<close>)
qed

text \<open>
  C39: Enabling leaves does not open the sending socket. If neither reports, nor proxying from
  the inside (multicast or unicast) are enabled, the leave worker ends the process on the first
  leave the client asks for.
\<close>
theorem leave_without_socket_dies:
  assumes "NewIGMPReporter X c w0 = (Inr r, w1)"
    and "\<not> (UnicastProxyInToOut c \<or> ProxyInToOut c \<or> MembershipReportsToNetwork c)"
  shows "\<exists>e w'. leaveToNetworkWorker_body X r (m # ms) w = (Inl e, w')"
proof -
  have "dom (conRaw r) = raws_of c" using NewIGMPReporter_built [OF assms(1)] by (simp add: built_def)
  with assms(2) have "OUT \<notin> dom (conRaw r)" by (simp add: raws_of_def)
  then have none: "conRaw r OUT = None" by blast
  have item: "\<exists>e u. sendLeave_item X r OUT m v = (Inl e, u)" for v
    by (auto simp: sendLeave_item_def bind_lift setWriteDeadline_def none split: sum.split option.split)
  let ?v = "w\<lparr>pC := bump [''sendLeave'', ''start'', ''count''] 1 (pC w)\<rparr>"
  from item [of ?v] obtain e u where "sendLeave_item X r OUT m ?v = (Inl e, u)" by blast
  then show ?thesis
    by (simp add: leaveToNetworkWorker_body_def sendLeave_def incC_def bind_apply)
qed

subsection \<open>Witnesses\<close>

theorem receivers_survive_witness:
  "\<exists>s b me w'. reachable sample_externals (Run_init sample_reporter sample_running) s \<and>
     at_point (procs s ! 0) = Reading b \<and>
     recvIGMP_handle sample_externals OUT allHosts b
       (ReadOk sample_read (Some (sample_cm 4)) (GAddr (IPAddrP [10, 0, 0, 7] [])))
       (self (procs s ! 0)) (shared s) = (Inr me, w')"
proof -
  let ?X = "sample_externals" and ?init = "Run_init sample_reporter sample_running"
    and ?st = "started sample_reporter sample_running"
  have sock: "mConn sample_reporter OUT allHosts \<noteq> None"
    by (simp add: mConn_def groupAddr_def receiver_defs sample_joins_def)
  obtain b w where r: "reachable ?X ?init (?st\<lparr>procs := (procs ?st)[0 := (procs ?st ! 0)\<lparr>at_point := Reading b\<rparr>],
      shared := w\<rparr>)" (is "reachable _ _ ?a")
    by (rule reach_reading [OF reach_started [of ?X sample_reporter sample_running], where i = 0 and sd = OUT
        and g = allHosts]) (simp_all add: sample_tasks sample_io sock)
  have "\<not> has_alt sample_config" by (simp add: has_alt_def sample_config_def)
  from receivers_survive [where i = 0 and sd = OUT and g = allHosts and b = b and m = "sample_cm 4",
      OF launch_sample r _ this sample_io sample_layer_sane]
  have "\<exists>me w'. recvIGMP_handle ?X OUT allHosts b (ReadOk sample_read (Some (sample_cm 4))
      (GAddr (IPAddrP [10, 0, 0, 7] []))) (self (procs ?a ! 0)) (shared ?a) = (Inr me, w')"
    using sample_sane_cm by (simp add: sample_tasks)
  moreover have "at_point (procs ?a ! 0) = Reading b" by (simp add: sample_tasks)
  ultimately show ?thesis using r by (intro exI [of _ ?a] exI [of _ b]) blast
qed

text \<open>A configuration that only listens, with an alternative outside interface.\<close>

definition sample_listen :: Config where
  "sample_listen = sample_config\<lparr>AltOutIntName := ''gre12'', ProxyOutToIn := False,
     UnicastProxyInToOut := False, QueryNotify := True\<rparr>"

lemma sample_listen_runs:
  obtains r w where "NewIGMPReporter sample_externals sample_listen sample_world = (Inr r, w)" "built sample_listen r"
    "tasks_of r = map (RecvIGMP OUT) the_multicastGroups @ map (RecvIGMP ALTOUT) the_multicastGroups @
       [OutSelector, LeavesToNetwork]"
proof -
  obtain r w where run: "NewIGMPReporter sample_externals sample_listen sample_world = (Inr r, w)"
    by (rule sample_builds [of sample_listen]) (simp_all add: sample_listen_def sample_defs)
  note b = NewIGMPReporter_built [OF run]
  have "conf r = sample_listen" "AltOutExists r" "multicastGroups r = the_multicastGroups"
    using b built_groups [OF b] by (simp_all add: built_def sample_listen_def has_alt_def)
  then have "tasks_of r = map (RecvIGMP OUT) the_multicastGroups @ map (RecvIGMP ALTOUT) the_multicastGroups @
       [OutSelector, LeavesToNetwork]"
    by (simp add: tasks_of_def sample_listen_def sample_config_def)
  with run b show ?thesis by (rule that)
qed

theorem receivers_have_sockets_iff_witness:
  "\<exists>r w. NewIGMPReporter sample_externals sample_listen sample_world = (Inr r, w) \<and>
     RecvIGMP ALTOUT allHosts \<in> set (tasks_of r) \<and> mConn r ALTOUT allHosts = None"
proof -
  obtain r w where r: "NewIGMPReporter sample_externals sample_listen sample_world = (Inr r, w)"
    "tasks_of r = map (RecvIGMP OUT) the_multicastGroups @ map (RecvIGMP ALTOUT) the_multicastGroups @
       [OutSelector, LeavesToNetwork]"
    by (rule sample_listen_runs)
  then have t: "RecvIGMP ALTOUT allHosts \<in> set (tasks_of r)" by (simp add: the_multicastGroups_def)
  from receivers_have_sockets_iff [OF r(1) this] r(1) t show ?thesis
    by (simp add: sample_listen_def sample_config_def)
qed

theorem socketless_receiver_panics_witness:
  "\<exists>r w s w'. launched sample_externals sample_listen (Run_init r w) \<and>
     reachable sample_externals (Run_init r w) s \<and>
     go_step sample_externals False (procs s ! 3) (shared s) (Inl (Panic ''nil *ipv4.PacketConn'')) w'"
proof -
  obtain r w where r: "NewIGMPReporter sample_externals sample_listen sample_world = (Inr r, w)"
    "tasks_of r = map (RecvIGMP OUT) the_multicastGroups @ map (RecvIGMP ALTOUT) the_multicastGroups @
       [OutSelector, LeavesToNetwork]" and b: "built sample_listen r"
    by (rule sample_listen_runs)
  have l: "launched sample_externals sample_listen (Run_init r w)"
    using r(1) unfolding launched_def by (intro exI conjI) (auto simp: boot_def sample_world_def)
  let ?st = "started r w" and ?p = "\<lparr>task_of = RecvIGMP ALTOUT allHosts, self = r, at_point = Loop\<rparr>"
  have i: "3 < length (tasks_of r)" "tasks_of r ! 3 = RecvIGMP ALTOUT allHosts"
    by (simp_all add: r(2) the_multicastGroups_def)
  have "reachable sample_externals (Run_init r w) (?st\<lparr>procs := (procs ?st)[3 := ?p]\<rparr>)" (is "reachable _ _ ?s")
    using reach_loop [OF reach_started [of sample_externals r w], of 3] i by simp
  note s = this
  obtain q w' where q: "recvIGMP_begin sample_externals ALTOUT allHosts 0 r w = (q, w')" by fastforce
  have g: "go_step sample_externals False (procs ?s ! 3) (shared ?s) (map_sum id (\<lambda>b. ?p\<lparr>at_point := Reading b\<rparr>) q) w'"
    using go_step.begin_recv [of ?p ALTOUT allHosts sample_externals 0 w q w'] q i by simp
  have "map_sum id (\<lambda>b. ?p\<lparr>at_point := Reading b\<rparr>) q = Inl (Panic ''nil *ipv4.PacketConn'')"
    by (rule socketless_receiver_panics [OF l s _ _ _ _ g])
      (simp_all add: i sample_listen_def sample_config_def)
  with g have "go_step sample_externals False (procs ?s ! 3) (shared ?s) (Inl (Panic ''nil *ipv4.PacketConn'')) w'"
    by (simp only:)
  with l s show ?thesis by blast
qed

theorem leave_without_socket_dies_witness:
  "\<exists>r w e w'. NewIGMPReporter sample_externals sample_listen sample_world = (Inr r, w) \<and>
     leaveToNetworkWorker_body sample_externals r [sample_item] w = (Inl e, w')"
proof -
  obtain r w where r: "NewIGMPReporter sample_externals sample_listen sample_world = (Inr r, w)"
    by (rule sample_listen_runs)
  from leave_without_socket_dies [OF r] r show ?thesis
    by (simp add: sample_listen_def sample_config_def)
qed

end
