(* ===== verification/Shutdown.thy ===== *)
theory Shutdown
  imports Survival
begin

text \<open>
  How \<open>Run\<close> ends. After the context is cancelled, the goroutines and \<open>Run\<close> itself can take only
  a bounded number of steps, and they do not stop before the wait group is at zero: so \<open>Run\<close>
  returns, unless the process ends or the output selector is running, which never looks at the
  context. Three parts: a summary \<open>stat\<close> of the channels a worker waits on, the effort that every
  step uses up, and the absence of lost wake-ups, without which a blocked worker could not leave.
\<close>

subsection \<open>A summary of the channels\<close>

text \<open>Per worker, the number of values queued on its channel and of goroutines blocked on it.\<close>

definition load :: "'a chan option \<Rightarrow> (nat \<times> nat) option" where
  "load ch = map_option (\<lambda>c. (length (chQueue c), chWaiting c)) ch"

fun stat :: "world \<Rightarrow> task \<Rightarrow> (nat \<times> nat) option" where
  "stat w ReportsToNetwork = load (MembershipReportToNetworkCh w)"
| "stat w LeavesToNetwork = load (LeaveToNetworkCh w)"
| "stat w QueryToReport = load (QueryNotifyCh w)"
| "stat w ReadReports = load (MembershipReportFromNetworkCh w)"
| "stat w _ = None"

definition worker_tasks :: "task list" where
  "worker_tasks = [ReportsToNetwork, LeavesToNetwork, QueryToReport, ReadReports]"

text \<open>\<open>stat_chans\<close> is what \<open>stat\<close> looks at.\<close>

definition stat_chans where
  "stat_chans w = (QueryNotifyCh w, MembershipReportFromNetworkCh w, MembershipReportToNetworkCh w,
     LeaveToNetworkCh w)"

lemma stat_cong: "stat_chans w' = stat_chans w \<Longrightarrow> stat w' = stat w"
proof
  fix t assume "stat_chans w' = stat_chans w"
  then show "stat w' t = stat w t" by (cases t) (simp_all add: stat_chans_def)
qed

lemma stat_keeps: "keeps stat_chans m \<Longrightarrow> m w = (x, w') \<Longrightarrow> stat w' = stat w"
  by (rule stat_cong) (rule keepsD)

lemma stat_chan_simps [simp]:
  "stat (w\<lparr>MembershipReportToNetworkCh := c\<rparr>) = (stat w)(ReportsToNetwork := load c)"
  "stat (w\<lparr>LeaveToNetworkCh := c\<rparr>) = (stat w)(LeavesToNetwork := load c)"
  "stat (w\<lparr>QueryNotifyCh := q\<rparr>) = (stat w)(QueryToReport := load q)"
  "stat (w\<lparr>MembershipReportFromNetworkCh := c\<rparr>) = (stat w)(ReadReports := load c)"
  "stat (w\<lparr>OutInterfaceSelectorCh := s\<rparr>) = stat w"
proof -
  have ext: "(\<And>t. f t = g t) \<Longrightarrow> f = g" for f g :: "task \<Rightarrow> (nat \<times> nat) option" by blast
  show "stat (w\<lparr>MembershipReportToNetworkCh := c\<rparr>) = (stat w)(ReportsToNetwork := load c)"
    by (rule ext, case_tac t) simp_all
  show "stat (w\<lparr>LeaveToNetworkCh := c\<rparr>) = (stat w)(LeavesToNetwork := load c)"
    by (rule ext, case_tac t) simp_all
  show "stat (w\<lparr>QueryNotifyCh := q\<rparr>) = (stat w)(QueryToReport := load q)"
    by (rule ext, case_tac t) simp_all
  show "stat (w\<lparr>MembershipReportFromNetworkCh := c\<rparr>) = (stat w)(ReadReports := load c)"
    by (rule ext, case_tac t) simp_all
  show "stat (w\<lparr>OutInterfaceSelectorCh := s\<rparr>) = stat w"
    by (rule ext, case_tac t) simp_all
qed

lemma stat_bodies:
  "keeps stat_chans (readMembershipReportToNetworkCh_body X r ms)"
  "keeps stat_chans (leaveToNetworkWorker_body X r ms)"
  "keeps stat_chans (connectQueryToReport_body X r)"
  "keeps stat_chans (testingReadMembershipReportsFromNetwork_body ms)"
  "keeps stat_chans (outInterfaceSelector_body v)"
proof -
  have h: "keeps stat_chans (observeH l)" for l by (simp add: keeps_observeH stat_chans_def)
  have f: "send_frame stat_chans" by (simp add: send_frame_def stat_chans_def)
  note s = keeps_sendMembershipReport [OF f] keeps_sendLeave [OF f]
  have u: "keeps stat_chans (seqs [m, m'])" if "keeps stat_chans m" "keeps stat_chans m'" for m m'
    using that by (intro keeps_seqs) simp
  show "keeps stat_chans (readMembershipReportToNetworkCh_body X r ms)"
    "keeps stat_chans (leaveToNetworkWorker_body X r ms)"
    "keeps stat_chans (connectQueryToReport_body X r)"
    unfolding readMembershipReportToNetworkCh_body_def leaveToNetworkWorker_body_def
      connectQueryToReport_body_def Let_def by (rule u, rule s, rule h)+
  show "keeps stat_chans (testingReadMembershipReportsFromNetwork_body ms)"
    unfolding testingReadMembershipReportsFromNetwork_body_def by (rule h)
  show "keeps stat_chans (outInterfaceSelector_body v)"
    by (simp add: keeps_def outInterfaceSelector_body_def incC_def observeH_def stat_chans_def)
qed

lemma body_stat: "body v = (res, w') \<Longrightarrow> keeps stat_chans body \<Longrightarrow> stat w' = stat v"
  by (rule stat_keeps)

lemma load_recv_now:
  "recv_now c = Some (x, c') \<Longrightarrow> \<exists>n k. load (Some c) = Some (Suc n, k) \<and> load (Some c') = Some (n, k)"
  by (auto simp: recv_now_def load_def min_def split: if_splits)

lemma load_recv_parked:
  "recv_parked c = Some (x, c') \<Longrightarrow>
     \<exists>n k. load (Some c) = Some (Suc n, Suc k) \<and> load (Some c') = Some (n, k)"
  by (auto simp: recv_parked_fifo load_def gr0_conv_Suc)

lemma load_park:
  "park c = Some c' \<Longrightarrow> \<exists>n k. load (Some c) = Some (n, k) \<and> load (Some c') = Some (n, Suc k)"
  by (auto simp: park_def load_def split: if_splits)

lemma load_unpark:
  "unpark c = Some c' \<Longrightarrow> \<exists>n k. load (Some c) = Some (n, Suc k) \<and> load (Some c') = Some (n, k)"
  by (auto simp: unpark_def load_def gr0_conv_Suc split: if_splits)

lemma receive_now_stat:
  assumes "receive_now X t r w = Some (res, w')" "t \<noteq> OutSelector"
  shows "\<exists>n k. stat w t = Some (Suc n, k) \<and> stat w' = (stat w)(t \<mapsto> (n, k))"
  using assms
  by (cases t)
    (auto simp: then_body_Some take_now_def split: option.splits
      dest!: load_recv_now body_stat [OF sym, OF _ stat_bodies(1)] body_stat [OF sym, OF _ stat_bodies(2)]
        body_stat [OF sym, OF _ stat_bodies(3)] body_stat [OF sym, OF _ stat_bodies(4)])

lemma receive_parked_stat:
  assumes "receive_parked X t r w = Some (res, w')" "t \<noteq> OutSelector"
  shows "\<exists>n k. stat w t = Some (Suc n, Suc k) \<and> stat w' = (stat w)(t \<mapsto> (n, k))"
  using assms
  by (cases t)
    (auto simp: then_body_Some take_parked_def split: option.splits
      dest!: load_recv_parked body_stat [OF sym, OF _ stat_bodies(1)] body_stat [OF sym, OF _ stat_bodies(2)]
        body_stat [OF sym, OF _ stat_bodies(3)] body_stat [OF sym, OF _ stat_bodies(4)])

lemma selector_stat:
  "receive_now X OutSelector r w = Some (res, w') \<Longrightarrow> stat w' = stat w"
  "receive_parked X OutSelector r w = Some (res, w') \<Longrightarrow> stat w' = stat w"
  by (auto simp: then_body_Some take_now_def take_parked_def split: option.splits
      dest!: body_stat [OF sym, OF _ stat_bodies(5)])

lemma park_stat:
  assumes "park_task t w = Some w'" "t \<noteq> OutSelector"
  shows "(stat w t = None \<and> w' = w) \<or>
     (\<exists>n k. stat w t = Some (n, k) \<and> stat w' = (stat w)(t \<mapsto> (n, Suc k)))"
  using assms by (cases t) (auto simp: park_on_def load_def [of None] split: option.splits dest!: load_park)

lemma unpark_stat:
  assumes "unpark_task t w = Some w'" "t \<noteq> OutSelector"
  shows "(stat w t = None \<and> w' = w) \<or>
     (\<exists>n k. stat w t = Some (n, Suc k) \<and> stat w' = (stat w)(t \<mapsto> (n, k)))"
  using assms by (cases t) (auto simp: unpark_on_def load_def [of None] split: option.splits dest!: load_unpark)

lemma park_selector: "park_task OutSelector w = Some w' \<Longrightarrow> stat w' = stat w"
  by (auto simp: park_on_def split: option.splits)

text \<open>A receiver's turn adds at most one value to one channel, and wakes or blocks nobody.\<close>

definition bumped :: "world \<Rightarrow> world \<Rightarrow> bool" where
  "bumped w w' \<longleftrightarrow> stat w' = stat w \<or>
     (\<exists>t n k. stat w t = Some (n, k) \<and> stat w' = (stat w)(t \<mapsto> (Suc n, k)))"

lemma load_told:
  "load (told x ch) = load ch \<or> (\<exists>n k. load ch = Some (n, k) \<and> load (told x ch) = Some (Suc n, k))"
  by (auto simp: told_def try_send_ref_def try_send_def load_def Let_def split: option.splits)

lemma stat_id [simp]:
  "(stat w)(QueryToReport := load (QueryNotifyCh w)) = stat w"
  "(stat w)(ReadReports := load (MembershipReportFromNetworkCh w)) = stat w"
  by (simp_all flip: stat.simps)

lemma told_bumped:
  assumes "QueryNotifyCh w' = told q (QueryNotifyCh w)"
    "MembershipReportFromNetworkCh w' = told m (MembershipReportFromNetworkCh w)"
    "MembershipReportToNetworkCh w' = MembershipReportToNetworkCh w"
    "LeaveToNetworkCh w' = LeaveToNetworkCh w" "q = None \<or> m = None"
  shows "bumped w w'"
proof -
  let ?u = "w\<lparr>QueryNotifyCh := QueryNotifyCh w', MembershipReportFromNetworkCh := MembershipReportFromNetworkCh w'\<rparr>"
  have "stat w' = stat ?u" using assms by (intro stat_cong) (simp add: stat_chans_def)
  then have st: "stat w' = (stat w)(QueryToReport := load (told q (QueryNotifyCh w)),
      ReadReports := load (told m (MembershipReportFromNetworkCh w)))"
    by (simp add: assms(1,2))
  show ?thesis
  proof (cases "m = None")
    case True
    with load_told [of q "QueryNotifyCh w"] st show ?thesis
      by (auto simp: bumped_def fun_upd_twist [of QueryToReport ReadReports] intro!: exI [of _ QueryToReport])
  next
    case False
    with assms(5) load_told [of m "MembershipReportFromNetworkCh w"] st show ?thesis
      by (auto simp: bumped_def intro!: exI [of _ ReadReports])
  qed
qed

lemma switch_bumped:
  assumes "recvIGMP_switch r i g b m t l w = (Inr sw, w')"
  shows "bumped w w'"
proof -
  have "MembershipReportToNetworkCh w' = MembershipReportToNetworkCh w" "LeaveToNetworkCh w' = LeaveToNetworkCh w"
    using keepsD [OF keeps_switch assms, of MembershipReportToNetworkCh]
      keepsD [OF keeps_switch assms, of LeaveToNetworkCh] by simp_all
  moreover have "reported_items IGMPMembershipQuery l = None"
    by (cases l) (simp_all add: reported_items_def igmp_type_defs)
  ultimately show ?thesis
    using switch_told [OF assms] by (intro told_bumped) (assumption | auto split: if_splits)+
qed

lemma bumped_cong: "bumped w w' \<Longrightarrow> stat v = stat w \<Longrightarrow> stat v' = stat w' \<Longrightarrow> bumped v v'"
  by (simp add: bumped_def)

lemma bumped_refl: "stat w' = stat w \<Longrightarrow> bumped w w'"
  by (simp add: bumped_def)

lemma stat_metrics [simp]:
  "stat (w\<lparr>pC := a\<rparr>) = stat w" "stat (w\<lparr>pCrecvIGMP := a\<rparr>) = stat w"
  "stat (w\<lparr>pHrecvIGMP := a\<rparr>) = stat w" "stat (w\<lparr>bytePool := p\<rparr>) = stat w"
  "stat (w\<lparr>heap := h\<rparr>) = stat w"
  by (rule stat_cong, simp add: stat_chans_def)+

lemma recv_proxy_stat: "recvIGMP_proxy X r i g b w = (x, w') \<Longrightarrow> stat w' = stat w"
  by (rule stat_keeps, rule keeps_recv_proxy_any) (simp_all add: stat_chans_def send_frame_def)

lemma packet_bumped:
  assumes "recvIGMP_packet X r i g b m w = (Inr r', w')"
  shows "bumped w w'"
  using assms
proof (cases rule: packet_cases)
  case (undecoded t ts u)
  then show ?thesis by (intro bumped_refl) (auto simp: incR_def poolPut_def)
next
  case (cast t ts l u)
  from bumped_cong [OF switch_bumped [OF cast(5)], of w w'] cast show ?thesis by simp
next
  case (handled t ts l u v f x)
  have "stat w' = stat v" using recv_proxy_stat [OF handled(5)] handled(6) by auto
  with bumped_cong [OF switch_bumped [OF handled(4)], of w w'] handled(3) show ?thesis by simp
qed

lemma handle_bumped:
  assumes "recvIGMP_handle X i g b res r w = (Inr r', w')"
  shows "bumped w w'"
proof (cases res)
  case (ReadOk pkt cm src)
  from assms obtain n u goOn v where
    "readInto b pkt w = (Inr n, u)"
    and fl: "recvIGMP_filter r i g b cm src (snd (addR [''n'', side_String i, groupString r g, ''counter''] n u)) = (Inr goOn, v)"
    and rest: "(if goOn then (case cm of None \<Rightarrow> ret r
        | Some m \<Rightarrow> recvIGMP_packet X r i g b m) else ret r) v = (Inr r', w')"
    unfolding ReadOk recvIGMP_handle_def read_result.case
    by (auto simp: bind_eq_Inr addR_def cong: if_cong)
  then have u: "stat (snd (addR [''n'', side_String i, groupString r g, ''counter''] n u)) = stat w"
    by (auto simp: readInto_def addR_def)
  have "stat v = stat w"
    using stat_keeps [OF keeps_filter_any fl] u by (simp add: stat_chans_def)
  moreover have "bumped v w'"
    using rest by (auto intro: packet_bumped bumped_refl split: if_splits option.splits)
  ultimately show ?thesis by (auto intro: bumped_cong)
qed (use assms in \<open>auto simp: recvIGMP_handle_def bind_eq_Inr incR_def poolPut_def intro!: bumped_refl\<close>)

lemma unicast_handle_stat:
  assumes "recvUnicast_handle X i b res r w = (x, w')"
  shows "stat w' = stat w"
  by (rule stat_keeps [where m = "recvUnicast_handle X i b res r", OF _ assms], rule keeps_unicast_handle)
    (simp_all add: send_frame_def stat_chans_def)

subsection \<open>Effort\<close>

fun weight :: "point \<Rightarrow> nat" where
  "weight Fresh = 3"
| "weight Loop = 2"
| "weight (Reading b) = 6"
| "weight Selecting = 1"
| "weight Waiting = 1"
| "weight Finished = 0"

definition queued :: "world \<Rightarrow> nat" where
  "queued w = sum_list (map (\<lambda>t. case stat w t of None \<Rightarrow> 0 | Some (n, k) \<Rightarrow> n) worker_tasks)"

lemma queued_cong: "stat w' = stat w \<Longrightarrow> queued w' = queued w"
  by (simp add: queued_def)

lemma queued_consumed:
  "stat w t = Some (Suc n, k) \<Longrightarrow> stat w' = (stat w)(t \<mapsto> (n, k')) \<Longrightarrow> queued w = Suc (queued w')"
  by (cases t) (simp_all add: queued_def worker_tasks_def)

lemma queued_same:
  "stat w t = Some (n, k) \<Longrightarrow> stat w' = (stat w)(t \<mapsto> (n, k')) \<Longrightarrow> queued w' = queued w"
  by (cases t) (simp_all add: queued_def worker_tasks_def)

lemma queued_bumped:
  assumes "bumped w w'"
  shows "queued w' \<le> Suc (queued w)"
proof -
  have "queued w' = Suc (queued w)" if "stat w t = Some (n, k)" "stat w' = (stat w)(t \<mapsto> (Suc n, k))" for t n k
    using that by (cases t) (simp_all add: queued_def worker_tasks_def)
  moreover consider "stat w' = stat w"
    | t n k where "stat w t = Some (n, k)" "stat w' = (stat w)(t \<mapsto> (Suc n, k))"
    using assms unfolding bumped_def by blast
  ultimately show ?thesis using queued_cong by (metis le_refl le_SucI)
qed

lemma start_stat: "start_action t r w = (x, w') \<Longrightarrow> w' = w"
  by (cases t) (auto simp: recvUnicast_start_def split: option.splits)

lemma begin_stat:
  "recvIGMP_begin X i g pk r w = (x, w') \<Longrightarrow> stat w' = stat w"
  "recvUnicast_begin X pk r w = (x, w') \<Longrightarrow> stat w' = stat w"
proof -
  have q: "keeps stat_chans (incC l)" "keeps stat_chans (incR l)" "keeps stat_chans (poolGet pk)"
    "keeps stat_chans (ioOrFatal X msg)" for l k kd msg
    by (simp_all add: keeps_incC keeps_incR keeps_poolGet keeps_ioOrFatal stat_chans_def)
  have k: "keeps stat_chans (recvIGMP_begin X i g pk r)" "keeps stat_chans (recvUnicast_begin X pk r)"
    unfolding recvIGMP_begin_def recvUnicast_begin_def
    by (intro keeps_bind keeps_option keeps_simple q)+
  show "recvIGMP_begin X i g pk r w = (x, w') \<Longrightarrow> stat w' = stat w" by (rule stat_keeps [OF k(1)])
  show "recvUnicast_begin X pk r w = (x, w') \<Longrightarrow> stat w' = stat w" by (rule stat_keeps [OF k(2)])
qed

lemma head_stat: "head_action t w = (x, w') \<Longrightarrow> stat w' = stat w"
  by (cases t) (auto simp: incC_def)

text \<open>After the cancellation every step of a goroutine other than the selector's uses up effort.\<close>

lemma go_step_effort:
  assumes "go_step X True p w (Inr q) w'" "task_of p \<noteq> OutSelector"
  shows "weight (at_point q) + 3 * queued w' < weight (at_point p) + 3 * queued w"
  using assms(1)
proof cases
  case (start r)
  then have "w' = w" using start_stat by blast
  with start show ?thesis by (cases r) auto
next
  case (handle_recv b s g res r)
  then obtain me where me: "r = Inr me" "q = p\<lparr>self := me, at_point := Loop\<rparr>" by (cases r) auto
  with handle_recv have "bumped w w'" using handle_bumped by blast
  from queued_bumped [OF this] me handle_recv show ?thesis by simp
next
  case (handle_unicast b s res r)
  with queued_cong [OF unicast_handle_stat] show ?thesis by (cases r) auto
next
  case (head r)
  with queued_cong [OF head_stat] show ?thesis by (cases r) auto
next
  case (select_recv r)
  from receive_now_stat [OF select_recv(3) assms(2)] obtain n k where
    "stat w (task_of p) = Some (Suc n, k)" "stat w' = (stat w)(task_of p \<mapsto> (n, k))" by blast
  with queued_consumed select_recv show ?thesis by (cases r) auto
next
  case (wake_recv r)
  from receive_parked_stat [OF wake_recv(3) assms(2)] obtain n k where
    "stat w (task_of p) = Some (Suc n, Suc k)" "stat w' = (stat w)(task_of p \<mapsto> (n, k))" by blast
  with queued_consumed wake_recv show ?thesis by (cases r) auto
next
  case wake_done
  from unpark_stat [OF wake_done(4) assms(2)] wake_done show ?thesis
    by (auto simp: queued_same)
qed (use assms(2) in simp_all)

subsection \<open>The effort left to a system\<close>

definition effort :: "sys \<Rightarrow> nat" where
  "effort s =
     (if dead s \<noteq> None then 0
      else Suc (4 * length (todo s) + sum_list (map (\<lambda>p. weight (at_point p)) (procs s))
             + 3 * queued (shared s)))"

text \<open>
  The steps of the program itself: a goroutine is started, takes a step, or ends the process.
  (The other steps of the system are the client's, the cancellation, and \<open>Run\<close>'s return.)
\<close>

definition own_step :: "externals \<Rightarrow> sys \<Rightarrow> sys \<Rightarrow> bool" where
  "own_step X s s' \<longleftrightarrow>
     sys_step X s s' \<and> (todo s' \<noteq> todo s \<or> procs s' \<noteq> procs s \<or> dead s' \<noteq> dead s)"

definition selector_free :: "sys \<Rightarrow> bool" where
  "selector_free s \<longleftrightarrow> OutSelector \<notin> set (todo s) \<and> (\<forall>p \<in> set (procs s). task_of p \<noteq> OutSelector)"

lemma sum_list_upd:
  "i < length xs \<Longrightarrow> sum_list (map f (xs[i := y])) + f (xs ! i) = sum_list (map f xs) + (f y :: nat)"
proof (induction xs arbitrary: i)
  case (Cons x xs)
  show ?case
  proof (cases i)
    case (Suc j)
    with Cons.IH [of j] Cons.prems show ?thesis by simp
  qed simp
qed simp

lemma own_step_effort:
  assumes "own_step X s s'" "cancelled s" "selector_free s"
  shows "effort s' < effort s \<and> cancelled s' \<and> selector_free s' \<and> reporter s' = reporter s"
proof -
  from assms(1) have st: "sys_step X s s'"
    and ch: "todo s' \<noteq> todo s \<or> procs s' \<noteq> procs s \<or> dead s' \<noteq> dead s"
    by (simp_all add: own_step_def)
  from st show ?thesis
  proof cases
    case (spawn t ts)
    with assms(2,3) show ?thesis by (auto simp: effort_def selector_free_def)
  next
    case (go i q w')
    have t: "task_of (procs s ! i) \<noteq> OutSelector" using assms(3) go(3) by (simp add: selector_free_def)
    from go(4) assms(2) have g: "go_step X True (procs s ! i) (shared s) (Inr q) w'" by simp
    from go_step_effort [OF g t]
    have lt: "weight (at_point q) + 3 * queued w' < weight (at_point (procs s ! i)) + 3 * queued (shared s)" .
    have "task_of q \<noteq> OutSelector" using go_step_task [OF g] t by simp
    then have "selector_free s'"
      using assms(3) go(1) by (auto simp: selector_free_def dest!: set_update_subset_insert [THEN subsetD])
    with lt sum_list_upd [OF go(3), of "\<lambda>p. weight (at_point p)" q] go(1,2) assms(2) show ?thesis
      by (simp add: effort_def)
  next
    case (die i e w')
    with assms(2,3) show ?thesis by (simp add: effort_def selector_free_def)
  qed (use ch in simp_all)
qed

subsection \<open>No lost wake-ups\<close>

text \<open>A channel counts exactly the goroutines that are blocked on it, the client's included.\<close>

definition waits_on :: "task \<Rightarrow> goroutine \<Rightarrow> nat" where
  "waits_on t p = (if task_of p = t \<and> at_point p = Waiting then 1 else 0)"

definition waiters :: "task \<Rightarrow> goroutine list \<Rightarrow> nat" where
  "waiters t ps = sum_list (map (waits_on t) ps)"

definition blocked :: "world \<Rightarrow> task \<Rightarrow> nat option" where
  "blocked w t = map_option snd (stat w t)"

definition point_ok :: "goroutine \<Rightarrow> bool" where
  "point_ok p \<longleftrightarrow> (case at_point p of Reading b \<Rightarrow> is_receiver (task_of p)
     | Selecting \<Rightarrow> \<not> is_receiver (task_of p) | Waiting \<Rightarrow> \<not> is_receiver (task_of p) | _ \<Rightarrow> True)"

fun clients_on :: "nat \<Rightarrow> nat \<Rightarrow> task \<Rightarrow> nat" where
  "clients_on q n QueryToReport = q"
| "clients_on q n ReadReports = n"
| "clients_on q n _ = 0"

definition wakeups_ok :: "sys \<Rightarrow> bool" where
  "wakeups_ok s \<longleftrightarrow> (\<forall>p \<in> set (procs s). point_ok p) \<and>
     (dead s = None \<longrightarrow> (\<forall>t k. blocked (shared s) t = Some k \<longrightarrow>
       k = waiters t (procs s) + clients_on (queryWaiters s) (reportWaiters s) t))"

lemma park_receiver: "is_receiver t \<Longrightarrow> park_task t w = None"
  by (cases t) simp_all

lemma go_step_point_ok: "go_step X d p w (Inr q) w' \<Longrightarrow> point_ok q"
  by (erule go_stepE) (auto simp: point_ok_def map_sum_def park_receiver split: sum.splits)

lemma blocked_selector [simp]: "blocked w OutSelector = None"
  by (simp add: blocked_def)

lemma blocked_cong: "stat w' = stat w \<Longrightarrow> blocked w' = blocked w"
  by (simp add: fun_eq_iff blocked_def)

lemma blocked_bumped: "bumped w w' \<Longrightarrow> blocked w' = blocked w"
  by (auto simp: bumped_def blocked_def fun_eq_iff)

lemma go_step_blocked:
  assumes "go_step X d p w (Inr q) w'" "blocked w' t = Some k'"
  shows "\<exists>k. blocked w t = Some k \<and> k' + waits_on t p = k + waits_on t q"
proof -
  have same: ?thesis if "blocked w' = blocked w" "waits_on t p = waits_on t q"
    using that assms(2) by simp
  from assms(1) show ?thesis
  proof cases
    case (start r)
    then have "w' = w" using start_stat by blast
    with start show ?thesis by (intro same) (cases r; auto simp: waits_on_def)+
  next
    case (handle_recv b s g res r)
    then obtain me where me: "r = Inr me" "q = p\<lparr>self := me, at_point := Loop\<rparr>" by (cases r) auto
    with handle_recv have "bumped w w'" using handle_bumped by blast
    with me handle_recv show ?thesis by (intro same) (auto simp: waits_on_def blocked_bumped)
  next
    case (handle_unicast b s res r)
    with blocked_cong [OF unicast_handle_stat] show ?thesis
      by (intro same) (cases r; auto simp: waits_on_def)+
  next
    case (head r)
    with blocked_cong [OF head_stat] show ?thesis by (intro same) (cases r; auto simp: waits_on_def)+
  next
    case (select_recv r)
    then have q: "q = p\<lparr>at_point := Loop\<rparr>" by (cases r) auto
    have "blocked w' = blocked w"
    proof (cases "task_of p = OutSelector")
      case True
      with select_recv show ?thesis by (metis blocked_cong selector_stat(1))
    next
      case False
      from receive_now_stat [OF select_recv(3) False] show ?thesis
        by (auto simp: blocked_def fun_eq_iff)
    qed
    with q select_recv show ?thesis by (intro same) (auto simp: waits_on_def)
  next
    case (begin_recv sd g pick r)
    with blocked_cong [OF begin_stat(1)] show ?thesis by (intro same) (cases r; auto simp: waits_on_def)+
  next
    case (begin_unicast sd pick r)
    with blocked_cong [OF begin_stat(2)] show ?thesis by (intro same) (cases r; auto simp: waits_on_def)+
  next
    case select_wait
    show ?thesis
    proof (cases "task_of p = OutSelector")
      case True
      with select_wait park_selector have "blocked w' = blocked w" by (metis blocked_cong)
      with True select_wait assms(2) show ?thesis by (cases "t = OutSelector") (auto simp: waits_on_def)
    next
      case False
      from park_stat [OF select_wait(4) False] select_wait assms(2) show ?thesis
        by (auto simp: blocked_def waits_on_def split: if_splits)
    qed
  next
    case (wake_recv r)
    then have q: "q = p\<lparr>at_point := Loop\<rparr>" by (cases r) auto
    show ?thesis
    proof (cases "task_of p = OutSelector")
      case True
      with wake_recv have "blocked w' = blocked w" by (metis blocked_cong selector_stat(2))
      with True q assms(2) show ?thesis by (cases "t = OutSelector") (auto simp: waits_on_def)
    next
      case False
      from receive_parked_stat [OF wake_recv(3) False] q wake_recv assms(2) show ?thesis
        by (auto simp: blocked_def waits_on_def split: if_splits)
    qed
  next
    case wake_done
    from unpark_stat [OF wake_done(5,4)] wake_done assms(2) show ?thesis
      by (auto simp: blocked_def waits_on_def split: if_splits)
  qed (intro same; simp add: waits_on_def)+
qed

lemma load_send:
  "try_send_ref x c = (True, ch) \<Longrightarrow> map_option snd (load ch) = map_option snd (load c)"
  by (auto simp: try_send_ref_def try_send_def load_def Let_def split: option.splits if_splits)

lemma load_take:
  "recv_now c = Some (x, c') \<Longrightarrow> map_option snd (load (Some c')) = map_option snd (load (Some c))"
  by (auto dest: load_recv_now)

lemma client_blocked: "client_step w w' \<Longrightarrow> blocked w' = blocked w"
  by (erule client_stepE)
    (auto simp: take_now_def blocked_def fun_eq_iff load_send load_take split: option.splits)

lemma client_wait_blocked:
  assumes "client_wait (w, q, n) (w', q', n')" "blocked w' t = Some k'"
  shows "\<exists>k. blocked w t = Some k \<and> k' + clients_on q n t = k + clients_on q' n' t"
  using assms(1)
  by (rule client_waitE; insert assms(2); cases t)
    (auto simp: park_on_def unpark_on_def take_parked_def blocked_def load_def park_def unpark_def
      recv_parked_def split: option.splits if_splits list.splits)

interpretation wakeups: sys_invariant X wakeups_ok for X
proof
  fix s s' assume J: "wakeups_ok s" and st: "sys_step X s s'"
  from st show "wakeups_ok s'"
  proof cases
    case (spawn t ts)
    with J show ?thesis by (auto simp: wakeups_ok_def point_ok_def waiters_def waits_on_def)
  next
    case (go i q w')
    have pts: "\<forall>p \<in> set (procs s'). point_ok p"
      using J go(1) go_step_point_ok [OF go(4)]
      by (auto simp: wakeups_ok_def dest!: set_update_subset_insert [THEN subsetD])
    have "k' = waiters t ((procs s)[i := q]) + clients_on (queryWaiters s) (reportWaiters s) t" if b: "blocked w' t = Some k'" for t k'
    proof -
      from go_step_blocked [OF go(4) b] J go(2) obtain k where
        "k = waiters t (procs s) + clients_on (queryWaiters s) (reportWaiters s) t" "k' + waits_on t (procs s ! i) = k + waits_on t q"
        by (auto simp: wakeups_ok_def)
      with sum_list_upd [OF go(3), of "waits_on t" q] show ?thesis by (simp add: waiters_def)
    qed
    with pts go(1) show ?thesis by (simp add: wakeups_ok_def)
  next
    case (client w')
    with J client_blocked show ?thesis by (simp add: wakeups_ok_def)
  next
    case (client_waits w' q n)
    have "k' = waiters t (procs s) + clients_on q n t" if b: "blocked w' t = Some k'" for t k'
    proof -
      from client_wait_blocked [OF client_waits(3) b] obtain k where k: "blocked (shared s) t = Some k"
        "k' + clients_on (queryWaiters s) (reportWaiters s) t = k + clients_on q n t" by blast
      moreover from k(1) J client_waits(2)
      have "k = waiters t (procs s) + clients_on (queryWaiters s) (reportWaiters s) t"
        by (simp add: wakeups_ok_def)
      ultimately show ?thesis by simp
    qed
    with J client_waits(1) show ?thesis by (simp add: wakeups_ok_def)
  qed (use J in \<open>auto simp: wakeups_ok_def\<close>)
qed

lemma launched_wakeups:
  assumes "launched X c s0" "reachable X s0 s"
  shows "wakeups_ok s"
proof -
  from assms(1) obtain r w where s0: "s0 = Run_init r w" "built_world c w" by (rule launched_boot)
  have "stat w t = None \<or> stat w t = Some (0, 0)" for t
    using s0(2) by (cases t) (auto simp: built_world_def load_def fresh_chan_def)
  then have "blocked w t = Some k \<Longrightarrow> k = 0" for t k by (metis blocked_def map_option_eq_Some option.distinct(1) option.inject snd_conv)
  moreover have "clients_on 0 0 t = 0" for t by (cases t) simp_all
  ultimately have "wakeups_ok s0" using s0 by (simp add: wakeups_ok_def Run_init_def waiters_def)
  with wakeups.always [OF assms(2)] show ?thesis .
qed

text \<open>A blocked worker can leave: it takes a value, or gives its wait up.\<close>

lemma wait_ends:
  assumes "\<not> is_receiver t" "t \<noteq> OutSelector" "\<And>k. blocked w t = Some k \<Longrightarrow> 0 < k"
  shows "unpark_task t w \<noteq> None \<or> receive_parked X t r w \<noteq> None"
proof -
  have ch: "unpark c \<noteq> None \<or> recv_parked c \<noteq> None" if "0 < chWaiting c" for c :: "'c chan"
    using that by (auto simp: unpark_def recv_parked_def split: list.splits)
  show ?thesis
    using assms
    by (cases t) (auto simp: unpark_on_def take_parked_def then_body_def blocked_def load_def
        unpark_def recv_parked_def split: option.splits list.splits)
qed

lemma go_step_moves: "go_step X d p w (Inr q) w' \<Longrightarrow> at_point q \<noteq> at_point p"
  by (erule go_stepE) (auto simp: map_sum_def split: sum.splits)

lemma go_can:
  assumes "point_ok p" "task_of p \<noteq> OutSelector" "at_point p \<noteq> Finished"
    and "\<And>k. at_point p = Waiting \<Longrightarrow> blocked w (task_of p) = Some k \<Longrightarrow> 0 < k"
  shows "\<exists>q w'. go_step X True p w q w'"
proof (cases "at_point p")
  case Fresh
  obtain r w' where "start_action (task_of p) (self p) w = (r, w')" by fastforce
  from go_step.start [OF Fresh this] show ?thesis by blast
next
  case Loop
  obtain r w' where h: "head_action (task_of p) w = (r, w')" by fastforce
  show ?thesis
  proof (cases "is_receiver (task_of p)")
    case True
    from go_step.stop [OF Loop True] show ?thesis by blast
  next
    case False
    from go_step.head [OF Loop False h] show ?thesis by blast
  qed
next
  case (Reading b)
  with assms(1) have "is_receiver (task_of p)" by (simp add: point_ok_def)
  then consider i g where "task_of p = RecvIGMP i g" | i where "task_of p = RecvUnicast i"
    by (cases "task_of p") auto
  then show ?thesis
  proof cases
    case 1
    obtain r w' where "recvIGMP_handle X i g b ReadTimeout (self p) w = (r, w')" by fastforce
    from go_step.handle_recv [OF Reading 1 this] show ?thesis by blast
  next
    case 2
    obtain r w' where "recvUnicast_handle X i b ReadTimeout (self p) w = (r, w')" by fastforce
    from go_step.handle_unicast [OF Reading 2 this] show ?thesis by blast
  qed
next
  case Selecting
  from go_step.select_done [OF this assms(2)] show ?thesis by blast
next
  case Waiting
  with assms(1) have "\<not> is_receiver (task_of p)" by (simp add: point_ok_def)
  from wait_ends [OF this assms(2) assms(4) [OF Waiting], where X = X and r = "self p"]
  consider w' where "unpark_task (task_of p) w = Some w'"
    | r w' where "receive_parked X (task_of p) (self p) w = Some (r, w')" by fastforce
  then show ?thesis
  proof cases
    case 1
    from go_step.wake_done [OF Waiting assms(2) 1] show ?thesis by blast
  next
    case 2
    from go_step.wake_recv [OF Waiting 2] show ?thesis by blast
  qed
qed (use assms in simp)

lemma own_step_possible:
  assumes "wakeups_ok s" "dead s = None" "cancelled s" "selector_free s"
    and "todo s \<noteq> [] \<or> (\<exists>p \<in> set (procs s). at_point p \<noteq> Finished)"
  shows "\<exists>s'. own_step X s s'"
proof (cases "todo s")
  case (Cons t ts)
  from spawn [OF assms(2) this] show ?thesis
    unfolding own_step_def using Cons by (intro exI conjI) (assumption, simp)
next
  case Nil
  with assms(5) obtain i where i: "i < length (procs s)" "at_point (procs s ! i) \<noteq> Finished"
    by (auto simp: in_set_conv_nth)
  let ?p = "procs s ! i"
  have "0 < k" if "at_point ?p = Waiting" "blocked (shared s) (task_of ?p) = Some k" for k
  proof -
    have "waits_on (task_of ?p) ?p \<le> waiters (task_of ?p) (procs s)"
      unfolding waiters_def using i(1) by (intro member_le_sum_list) simp_all
    moreover from that(2) assms(1,2)
    have "k = waiters (task_of ?p) (procs s) + clients_on (queryWaiters s) (reportWaiters s) (task_of ?p)"
      by (simp add: wakeups_ok_def)
    ultimately show ?thesis using that(1) by (simp add: waits_on_def)
  qed
  then obtain q w' where g: "go_step X True ?p (shared s) q w'"
    using go_can [of ?p "shared s" X] assms(1,4) i by (auto simp: wakeups_ok_def selector_free_def)
  show ?thesis
  proof (cases q)
    case (Inl e)
    with g die [OF assms(2) i(1), of X e w'] assms(2,3) show ?thesis
      by (auto simp: own_step_def)
  next
    case (Inr p')
    let ?s = "s\<lparr>procs := (procs s)[i := p'], shared := w', wg := wg_after p' (wg s)\<rparr>"
    have "sys_step X s ?s" using g Inr assms(3) by (intro go [OF assms(2) i(1)]) simp
    moreover have "(procs s)[i := p'] \<noteq> procs s"
      using go_step_moves [of X True ?p "shared s" p' w'] g Inr i(1) by (metis nth_list_update_eq)
    ultimately show ?thesis unfolding own_step_def by (intro exI [of _ ?s]) simp
  qed
qed

subsection \<open>How \<open>Run\<close> ends\<close>

lemma own_steps_effort:
  "((own_step X) ^^ n) s s' \<Longrightarrow> cancelled s \<Longrightarrow> selector_free s \<Longrightarrow>
     n + effort s' \<le> effort s \<and> cancelled s' \<and> selector_free s' \<and> reporter s' = reporter s"
proof (induction n arbitrary: s')
  case (Suc n)
  from Suc.prems(1) obtain u where u: "((own_step X) ^^ n) s u" "own_step X u s'" by auto
  from Suc.IH [OF u(1) Suc.prems(2,3)] own_step_effort [OF u(2)] show ?case by simp
qed simp

lemma own_steps_reach: "(own_step X)\<^sup>*\<^sup>* s s' \<Longrightarrow> reachable X s0 s \<Longrightarrow> reachable X s0 s'"
  by (induction rule: rtranclp_induct) (auto simp: own_step_def intro: reachable.step)

lemma selector_free_tasks:
  "accounting s \<Longrightarrow> OutSelector \<notin> set (tasks_of (reporter s)) \<Longrightarrow> selector_free s"
  unfolding accounting_def selector_free_def
  by (metis UnCI image_eqI list.set_map set_append)

text \<open>
  C9: Cancelling the context bounds what is left to do. From any reachable state, once the
  context is cancelled and if the output selector does not run, the program takes at most
  \<open>effort\<close> further steps of its own, in any order: four for every goroutine still to be started,
  at most six for each goroutine, three for each value waiting in a channel.
\<close>
theorem shutdown_bounded:
  assumes "launched X c s0" and "reachable X s0 s" and "cancelled s"
    and "OutSelector \<notin> set (tasks_of (reporter s))"
    and "((own_step X) ^^ n) s s'"
  shows "n \<le> effort s"
proof -
  from assms(1,2) obtain r where "accounting s" by (rule launched_facts)
  with own_steps_effort [OF assms(5,3)] selector_free_tasks assms(4) show ?thesis by fastforce
qed

text \<open>
  C8: And it does not stop early. If the program can take no further step after the cancellation
  then, unless the process has ended, every goroutine has finished and \<open>Run\<close> returns: no worker is
  left blocked on its channel, no receiver in its turn.
\<close>
theorem shutdown_completes:
  assumes "launched X c s0" and "reachable X s0 s" and "cancelled s"
    and "OutSelector \<notin> set (tasks_of (reporter s))"
    and "(own_step X)\<^sup>*\<^sup>* s s'" and "\<And>u. \<not> own_step X s' u" and "dead s' = None"
  shows "(\<forall>p \<in> set (procs s'). at_point p = Finished) \<and> sys_step X s' (s'\<lparr>returned := True\<rparr>)"
proof -
  have r': "reachable X s0 s'" by (rule own_steps_reach [OF assms(5,2)])
  from assms(1,2) obtain r where a: "accounting s" by (rule launched_facts)
  from assms(1) r' obtain r where a': "accounting s'" by (rule launched_facts)
  from assms(5) obtain n where "((own_step X) ^^ n) s s'" by (auto simp: rtranclp_power)
  from own_steps_effort [OF this assms(3) selector_free_tasks [OF a assms(4)]]
  have "cancelled s'" "selector_free s'" by simp_all
  from own_step_possible [OF launched_wakeups [OF assms(1) r'] assms(7) this] assms(6)
  have fin: "todo s' = []" "\<forall>p \<in> set (procs s'). at_point p = Finished" by auto
  with a' have "wg s' = 0" by (simp add: accounting_def live_def)
  with fin wait_done [OF assms(7) fin(1)] show ?thesis by simp
qed

text \<open>
  C22: \<open>Run\<close> returns only when its work is done: every goroutine the configuration asks for was
  started, every one has finished, and the wait group is at zero.
\<close>
theorem run_waits_for_all:
  assumes "launched X c s0" and "reachable X s0 s" and "returned s"
  shows "map task_of (procs s) = tasks_of (reporter s) \<and> wg s = 0 \<and>
     (\<forall>p \<in> set (procs s). at_point p = Finished)"
proof -
  from assms(1,2) obtain r where "accounting s" by (rule launched_facts)
  with assms(3) show ?thesis by (auto simp: accounting_def live_def filter_empty_conv)
qed

text \<open>The selector never finishes.\<close>

definition selector_runs :: "sys \<Rightarrow> bool" where
  "selector_runs s \<longleftrightarrow> (\<forall>p \<in> set (procs s). task_of p = OutSelector \<longrightarrow> at_point p \<noteq> Finished)"

lemma selector_never_finishes:
  "go_step X d p w (Inr q) w' \<Longrightarrow> task_of p = OutSelector \<Longrightarrow> at_point q \<noteq> Finished"
  by (erule go_stepE) (auto simp: map_sum_def split: sum.splits)

interpretation selector: sys_invariant X selector_runs for X
proof
  fix s s' assume J: "selector_runs s" and st: "sys_step X s s'"
  from st show "selector_runs s'"
  proof cases
    case (go i q w')
    have "at_point q \<noteq> Finished" if "task_of q = OutSelector"
      using selector_never_finishes [OF go(4)] go_step_task [OF go(4)] that by simp
    with J go(1) show ?thesis
      by (auto simp: selector_runs_def dest!: set_update_subset_insert [THEN subsetD])
  qed (use J in \<open>auto simp: selector_runs_def\<close>)
qed

text \<open>
  C24: With an alternative outside interface and a listening outside, \<open>Run\<close> never returns: the
  output selector has no case for the context, so its goroutine never finishes and the wait group
  never reaches zero, whatever the client does and however long ago the context was cancelled.
\<close>
theorem run_never_returns:
  assumes "launched X c s0" and "reachable X s0 s" and "has_alt c"
    and "ProxyOutToIn c \<or> QueryNotify c \<or> MembershipReportsFromNetwork c"
  shows "\<not> returned s"
proof
  assume ret: "returned s"
  from assms(1,2) obtain r where r: "reporter s = r" "built c r" "accounting s" by (rule launched_facts)
  from r(2) assms(3,4) have "OutSelector \<in> set (tasks_of r)" by (auto simp: tasks_of_def built_def)
  moreover from r(1,3) ret have "map task_of (procs s) = tasks_of r"
    and live: "live (procs s) = 0" by (auto simp: accounting_def)
  ultimately obtain p where p: "p \<in> set (procs s)" "task_of p = OutSelector" by (metis imageE list.set_map)
  from assms(1) obtain r0 w where "s0 = Run_init r0 w" by (rule launched_boot)
  then have "selector_runs s0" by (simp add: selector_runs_def Run_init_def)
  from selector.always [OF assms(2) this] p have "at_point p \<noteq> Finished" by (simp add: selector_runs_def)
  with p(1) live show False by (auto simp: live_def filter_empty_conv)
qed

subsection \<open>Witnesses\<close>

lemma own_go:
  assumes "dead s = None" "cancelled s" "i < length (procs s)"
    and "go_step X True (procs s ! i) (shared s) (Inr q) w'"
  shows "own_step X s (s\<lparr>procs := (procs s)[i := q], shared := w', wg := wg_after q (wg s)\<rparr>)"
proof -
  have "(procs s)[i := q] \<noteq> procs s"
    using go_step_moves [OF assms(4)] assms(3) by (metis nth_list_update_eq)
  with go [OF assms(1,3), of X q w'] assms(2,4) show ?thesis by (simp add: own_step_def)
qed

text \<open>A goroutine that has not begun when the context is cancelled runs to its end.\<close>

lemma fresh_finishes:
  assumes "dead s = None" "cancelled s" "i < length (procs s)" "procs s ! i = p" "at_point p = Fresh"
    and "task_of p \<noteq> OutSelector" "start_action (task_of p) (self p) (shared s) = (Inr (), shared s)"
  shows "\<exists>w'. (own_step X)\<^sup>*\<^sup>* s (s\<lparr>procs := (procs s)[i := p\<lparr>at_point := Finished\<rparr>],
     shared := w', wg := wg s - 1\<rparr>)"
proof -
  let ?loop = "p\<lparr>at_point := Loop\<rparr>" and ?sel = "p\<lparr>at_point := Selecting\<rparr>"
    and ?fin = "p\<lparr>at_point := Finished\<rparr>"
  let ?a = "s\<lparr>procs := (procs s)[i := ?loop]\<rparr>"
  have 1: "own_step X s ?a"
    using own_go [OF assms(1-3), of X ?loop "shared s"] go_step.start [of p "shared s" "Inr ()" "shared s" X True]
      assms(4,5,7) by (simp add: wg_after_def)
  show ?thesis
  proof (cases "is_receiver (task_of p)")
    case True
    have "own_step X ?a (s\<lparr>procs := (procs s)[i := ?fin], shared := shared s, wg := wg s - 1\<rparr>)"
      using own_go [of ?a i X ?fin "shared s"] go_step.stop [of ?loop X "shared s"] assms(1-3) True
      by (simp add: wg_after_def)
    with 1 show ?thesis by (intro exI [of _ "shared s"]) simp
  next
    case False
    obtain w1 where h: "head_action (task_of p) (shared s) = (Inr (), w1)"
      using False by (cases "task_of p") (auto simp: incC_def)
    let ?b = "s\<lparr>procs := (procs s)[i := ?sel], shared := w1\<rparr>"
    have 2: "own_step X ?a ?b"
      using own_go [of ?a i X ?sel w1] go_step.head [of ?loop "shared s" "Inr ()" w1 X True] assms(1-3) False h
      by (simp add: wg_after_def)
    have "own_step X ?b (s\<lparr>procs := (procs s)[i := ?fin], shared := w1, wg := wg s - 1\<rparr>)"
      using own_go [of ?b i X ?fin w1] go_step.select_done [of ?sel X w1] assms(1-3,6)
      by (simp add: wg_after_def)
    with 1 2 show ?thesis
      by (intro exI [of _ w1]) (meson converse_rtranclp_into_rtranclp r_into_rtranclp)
  qed
qed

lemma finished_quiet:
  assumes "todo s = []" "\<forall>p \<in> set (procs s). at_point p = Finished"
  shows "\<not> own_step X s u"
proof
  assume "own_step X s u"
  then have st: "sys_step X s u" and ch: "todo u \<noteq> todo s \<or> procs u \<noteq> procs s \<or> dead u \<noteq> dead s"
    by (simp_all add: own_step_def)
  from st show False
    by cases (use assms ch in \<open>auto dest!: go_step_live\<close>)
qed

definition sample_cancelled :: sys where
  "sample_cancelled = (started sample_reporter sample_running)\<lparr>cancelled := True\<rparr>"

lemma sample_cancelled_reach:
  "reachable sample_externals (Run_init sample_reporter sample_running) sample_cancelled"
  unfolding sample_cancelled_def by (rule reach_cancel [OF reach_started]) simp

lemma fresh_all_finish:
  assumes "dead s = None" "cancelled s"
    and "\<And>p. p \<in> set (procs s) \<Longrightarrow> at_point p = Fresh \<and> task_of p \<noteq> OutSelector \<and>
      (\<forall>w. start_action (task_of p) (self p) w = (Inr (), w))"
  shows "k \<le> length (procs s) \<Longrightarrow> \<exists>w' n. (own_step X)\<^sup>*\<^sup>* s
     (s\<lparr>procs := map (\<lambda>p. p\<lparr>at_point := Finished\<rparr>) (take k (procs s)) @ drop k (procs s),
        shared := w', wg := n\<rparr>)"
proof (induction k)
  case 0
  then show ?case by (intro exI [of _ "shared s"] exI [of _ "wg s"]) simp
next
  case (Suc k)
  let ?ps = "map (\<lambda>p. p\<lparr>at_point := Finished\<rparr>) (take k (procs s)) @ drop k (procs s)"
  from Suc obtain w n where run: "(own_step X)\<^sup>*\<^sup>* s (s\<lparr>procs := ?ps, shared := w, wg := n\<rparr>)" by auto
  have k: "k < length (procs s)" using Suc.prems by simp
  let ?p = "procs s ! k"
  have upd: "?ps[k := q] = map (\<lambda>p. p\<lparr>at_point := Finished\<rparr>) (take k (procs s)) @ q # drop (Suc k) (procs s)" for q
    using k by (simp add: list_update_append min_def flip: Cons_nth_drop_Suc)
  from fresh_finishes [of "s\<lparr>procs := ?ps, shared := w, wg := n\<rparr>" k ?p X] assms(1,2) assms(3) [of ?p] k
  obtain w' where "(own_step X)\<^sup>*\<^sup>* (s\<lparr>procs := ?ps, shared := w, wg := n\<rparr>)
      (s\<lparr>procs := ?ps[k := ?p\<lparr>at_point := Finished\<rparr>], shared := w', wg := n - 1\<rparr>)"
    by (auto simp: nth_append min_def)
  with run show ?case
    using k by (intro exI [of _ w'] exI [of _ "n - 1"]) (simp add: upd take_Suc_conv_app_nth)
qed

lemma sample_cancelled_simps:
  "dead sample_cancelled = None" "cancelled sample_cancelled" "todo sample_cancelled = []"
  "reporter sample_cancelled = sample_reporter"
  "procs sample_cancelled = fresh_procs sample_reporter (tasks_of sample_reporter)"
  by (simp_all add: sample_cancelled_def started_def Run_init_def)

lemma sample_addr_in: "NetAddr sample_reporter IN = Some (Addr6 sample_ip [])"
  by (simp add: sample_reporter_def)

lemma sample_fresh:
  "p \<in> set (procs sample_cancelled) \<Longrightarrow> at_point p = Fresh \<and> task_of p \<noteq> OutSelector \<and>
     (\<forall>w. start_action (task_of p) (self p) w = (Inr (), w))"
  by (auto simp: sample_cancelled_simps fresh_procs_def sample_tasks recvUnicast_start_def sample_addr_in)

lemma sample_finish:
  obtains s' where "(own_step sample_externals)\<^sup>*\<^sup>* sample_cancelled s'" "todo s' = []" "dead s' = None"
    "\<forall>p \<in> set (procs s'). at_point p = Finished" "reporter s' = sample_reporter"
proof -
  let ?ps = "procs sample_cancelled"
  from fresh_all_finish [OF sample_cancelled_simps(1,2) sample_fresh order_refl, of "sample_externals"]
  obtain w' n where "(own_step sample_externals)\<^sup>*\<^sup>* sample_cancelled
    (sample_cancelled\<lparr>procs := map (\<lambda>p. p\<lparr>at_point := Finished\<rparr>) ?ps, shared := w', wg := n\<rparr>)"
    by auto
  then show ?thesis by (rule that) (auto simp: sample_cancelled_simps)
qed

theorem shutdown_bounded_witness:
  "\<exists>n s'. ((own_step sample_externals) ^^ n) sample_cancelled s' \<and> dead s' = None \<and>
     (\<forall>p \<in> set (procs s'). at_point p = Finished) \<and> n \<le> effort sample_cancelled"
proof -
  obtain s' where s': "(own_step sample_externals)\<^sup>*\<^sup>* sample_cancelled s'" "dead s' = None"
      "\<forall>p \<in> set (procs s'). at_point p = Finished"
    by (rule sample_finish)
  then obtain n where n: "((own_step sample_externals) ^^ n) sample_cancelled s'"
    by (auto simp: rtranclp_power)
  have "OutSelector \<notin> set (tasks_of (reporter sample_cancelled))"
    by (simp add: sample_cancelled_simps sample_tasks)
  from shutdown_bounded [OF launch_sample sample_cancelled_reach sample_cancelled_simps(2) this n] n s'
  show ?thesis by blast
qed

theorem shutdown_completes_witness:
  "\<exists>s'. (own_step sample_externals)\<^sup>*\<^sup>* sample_cancelled s' \<and>
     sys_step sample_externals s' (s'\<lparr>returned := True\<rparr>)"
proof -
  obtain s' where s': "(own_step sample_externals)\<^sup>*\<^sup>* sample_cancelled s'" "todo s' = []" "dead s' = None"
      "\<forall>p \<in> set (procs s'). at_point p = Finished"
    by (rule sample_finish)
  have sel: "OutSelector \<notin> set (tasks_of (reporter sample_cancelled))"
    by (simp add: sample_cancelled_simps sample_tasks)
  from shutdown_completes [OF launch_sample sample_cancelled_reach sample_cancelled_simps(2) sel s'(1)
      finished_quiet [OF s'(2,4)] s'(3)] s'(1)
  show ?thesis by blast
qed

theorem run_waits_for_all_witness:
  "\<exists>s. reachable sample_externals (Run_init sample_reporter sample_running) s \<and> returned s \<and>
     map task_of (procs s) = [RecvIGMP OUT allHosts, RecvIGMP OUT allRouters, RecvIGMP OUT IGMPHosts,
       RecvUnicast IN, LeavesToNetwork]"
proof -
  obtain s' where s': "(own_step sample_externals)\<^sup>*\<^sup>* sample_cancelled s'" "todo s' = []" "dead s' = None"
      "\<forall>p \<in> set (procs s'). at_point p = Finished" and rep: "reporter s' = sample_reporter"
    by (rule sample_finish)
  from own_steps_reach [OF s'(1) sample_cancelled_reach]
  have r: "reachable sample_externals (Run_init sample_reporter sample_running) s'" .
  from launch_sample r obtain q where "accounting s'" by (rule launched_facts)
  with s'(4) have "wg s' = 0" by (simp add: accounting_def live_def)
  with reachable.step [OF r wait_done [OF s'(3,2)]]
  have ret: "reachable sample_externals (Run_init sample_reporter sample_running) (s'\<lparr>returned := True\<rparr>)"
    by simp
  from run_waits_for_all [OF launch_sample ret] ret rep show ?thesis
    by (intro exI [of _ "s'\<lparr>returned := True\<rparr>"]) (simp add: sample_tasks)
qed

theorem run_never_returns_witness:
  "\<not> returned ((started sample_full_reporter sample_full_running)\<lparr>cancelled := True\<rparr>)"
proof -
  have l: "launched sample_externals sample_full (Run_init sample_full_reporter sample_full_running)"
    using sample_full_constructed unfolding launched_def
    by (intro exI conjI) (auto simp: boot_def sample_world_def)
  have "reachable sample_externals (Run_init sample_full_reporter sample_full_running)
      ((started sample_full_reporter sample_full_running)\<lparr>cancelled := True\<rparr>)"
    by (rule reach_cancel [OF reach_started]) simp
  from run_never_returns [OF l this] show ?thesis
    by (simp add: has_alt_def sample_full_def sample_config_def)
qed

end
