(* ===== verification/Contract.thy ===== *)
theory Contract
  imports Shutdown
begin

text \<open>
  The contract of the reporter towards the network: an abstract machine that only knows the
  datagrams sent so far and the output of each side, with one rule for each thing the program may
  send. The running system refines it: while the process lives, each of its steps is invisible or
  is one step of the machine. A second part follows the querier's address: what the senders do
  with it.
\<close>

record service =
  sent :: "datagram list"
  outs :: "side \<rightharpoonup> side"

definition service_of :: "sys \<Rightarrow> service" where
  "service_of s = \<lparr>sent = wire (shared s), outs = IntOutName (shared s)\<rparr>"

text \<open>
  A relay needs a receiver for the side and the group, proxying enabled for the side and an open
  output; a unicast message goes where its type and the configuration say; batches of reports and
  leaves say one thing per item and leave through the outside; the client may redirect the
  inside's output only if there is an alternative outside.
\<close>

inductive serves :: "externals \<Rightarrow> IGMPReporter \<Rightarrow> service \<Rightarrow> service \<Rightarrow> bool" for X r where
  relay: "RecvIGMP i g \<in> set (tasks_of r) \<Longrightarrow>
     i = OUT \<and> ProxyOutToIn (conf r) \<or> i = IN \<and> ProxyInToOut (conf r) \<Longrightarrow> outs n i = Some out \<Longrightarrow>
     conRaw r out \<noteq> None \<Longrightarrow> length p = maxIGMPPacketRecieveBytesCst \<Longrightarrow>
     serves X r n (n\<lparr>sent := sent n @ [relayed X r out g p]\<rparr>)"
| resend: "RecvUnicast i \<in> set (tasks_of r) \<Longrightarrow> outs n i = Some (fst tgt) \<Longrightarrow>
     unicast_target X r w i p = Some tgt \<Longrightarrow> IntOutName w = outs n \<Longrightarrow>
     conRaw r (fst tgt) \<noteq> None \<Longrightarrow> length p = maxIGMPPacketRecieveBytesCst \<Longrightarrow>
     serves X r n (n\<lparr>sent := sent n @ [resent X r tgt p]\<rparr>)"
| report: "ReportsToNetwork \<in> set (tasks_of r) \<Longrightarrow>
     list_all2 (announces X r OUT IGMPMembershipReportV2
       (if UnicastMembershipReports (conf r) then QueryHost else IGMPHosts)) items ds \<Longrightarrow>
     serves X r n (n\<lparr>sent := sent n @ ds\<rparr>)"
| leave: "LeavesToNetwork \<in> set (tasks_of r) \<Longrightarrow>
     list_all2 (announces X r OUT IGMPLeaveGroup
       (if UnicastMembershipReports (conf r) then QueryHost else allRouters)) items ds \<Longrightarrow>
     serves X r n (n\<lparr>sent := sent n @ ds\<rparr>)"
| select: "OutSelector \<in> set (tasks_of r) \<Longrightarrow> serves X r n (n\<lparr>outs := (outs n)(IN \<mapsto> v)\<rparr>)"

subsection \<open>What a turn of a receiver sends\<close>

lemma relayed_querier [simp]: "relayed X (r\<lparr>querierSourceIP := a\<rparr>) = relayed X r"
  by (simp add: fun_eq_iff relayed_def dgram_def)

lemma packet_emits:
  assumes run: "recvIGMP_packet X r i g b m w = (Inr r', w')" and g: "g \<noteq> QueryHost"
  shows "wire w' = wire w \<or>
     (\<exists>out. proxyIt r i \<and> IntOutName w i = Some out \<and> conRaw r out \<noteq> None \<and>
        wire w' = wire w @ [relayed X r out g (heap w b)])"
  using run
proof (cases rule: packet_cases)
  case (undecoded t ts u)
  then show ?thesis by (auto simp: incR_def poolPut_def)
next
  case (cast t ts l u)
  from keepsD [OF keeps_switch cast(5), of wire] cast(3,4) show ?thesis by simp
next
  case (handled t ts l u v f x)
  have same: "wire v = wire w" "heap v = heap w" "IntOutName v = IntOutName w"
    using handled(3) keepsD [OF keeps_switch handled(4), of wire]
      keepsD [OF keeps_switch handled(4), of heap] keepsD [OF keeps_switch handled(4), of IntOutName]
    by simp_all
  obtain a where r': "r' = r\<lparr>querierSourceIP := a\<rparr>" using packet_self [OF run] by blast
  have w': "wire w' = wire x" using handled(6) by auto
  from recv_proxy_spec [OF handled(5)] same w' ipv4Header_dest [OF g] show ?thesis
    by (auto simp: r' proxyIt_def relayed_def dgram_def split: if_splits option.splits)
qed

lemma handle_emits:
  assumes run: "recvIGMP_handle X i g b res r w = (Inr r', w')" and g: "g \<noteq> QueryHost"
  shows "wire w' = wire w \<or>
     (\<exists>out p. proxyIt r i \<and> IntOutName w i = Some out \<and> conRaw r out \<noteq> None \<and>
        length p = length (heap w b) \<and> wire w' = wire w @ [relayed X r out g p])"
proof (cases res)
  case (ReadOk pkt cm src)
  let ?u = "w\<lparr>heap := (heap w)(b := overlay pkt (heap w b)),
      pCrecvIGMP := bump [''n'', side_String i, groupString r g, ''counter'']
        (min (length (copied pkt)) (length (heap w b))) (pCrecvIGMP w)\<rparr>"
  from run obtain goOn v where fl: "recvIGMP_filter r i g b cm src ?u = (Inr goOn, v)"
    and rest: "(if goOn then (case cm of None \<Rightarrow> ret r | Some m \<Rightarrow> recvIGMP_packet X r i g b m) else ret r) v
       = (Inr r', w')"
    unfolding ReadOk recvIGMP_handle_def read_result.case
    by (auto simp: bind_eq_Inr readInto_def addR_def cong: if_cong)
  have same: "wire v = wire w" "IntOutName v = IntOutName w" "heap v = heap ?u"
    using keepsD [OF keeps_filter_any fl, of wire] keepsD [OF keeps_filter_any fl, of IntOutName]
      keepsD [OF keeps_filter_any fl, of heap] by simp_all
  show ?thesis
  proof (cases "goOn \<and> cm \<noteq> None")
    case True
    then obtain m where "recvIGMP_packet X r i g b m v = (Inr r', w')" using rest by auto
    from packet_emits [OF this g] same show ?thesis
      by (auto intro!: exI [of _ "overlay pkt (heap w b)"])
  next
    case False
    with rest same(1) show ?thesis by (auto split: if_splits)
  qed
qed (use run in \<open>auto simp: recvIGMP_handle_def bind_eq_Inr incR_def poolPut_def\<close>)

lemma unicast_emits:
  assumes run: "recvUnicast_handle X i b res r w = (Inr (), w')"
  shows "wire w' = wire w \<or>
     (\<exists>tgt p. unicast_target X r w i p = Some tgt \<and> conRaw r (fst tgt) \<noteq> None \<and>
        length p = length (heap w b) \<and> wire w' = wire w @ [resent X r tgt p])"
proof -
  have go: ?thesis if p: "recvUnicast_process X r i b u = (Inr (), w')" and u: "wire u = wire w"
      "IntOutName u = IntOutName w" "length (heap u b) = length (heap w b)" for u
  proof -
    have "unicast_target X r u i q = unicast_target X r w i q" for q by (simp add: unicast_target_def u)
    with process_spec [OF p] u show ?thesis
      by (cases "unicast_target X r w i (heap u b)") (force intro!: exI [of _ "heap u b"])+
  qed
  consider "wire w' = wire w" | u where "recvUnicast_process X r i b u = (Inr (), w')" "wire u = wire w"
      "IntOutName u = IntOutName w" "length (heap u b) = length (heap w b)"
    using run by (cases res) (auto simp: recvUnicast_handle_def readInto_def addC_def incC_def poolPut_def)
  then show ?thesis
  proof cases
    case 2
    then show ?thesis by (rule go)
  qed simp
qed

lemma unicast_target_out:
  "unicast_target X r w i p = Some tgt \<Longrightarrow> IntOutName w i = Some (fst tgt)"
  by (auto simp: unicast_target_def split: list.splits option.splits if_splits gopacket_layer.splits sum.splits)

subsection \<open>What a worker sends\<close>

lemma report_emits:
  assumes "sendMembershipReport X r i items w = (Inr (), w')"
  shows "\<exists>ds. wire w' = wire w @ ds \<and>
     list_all2 (announces X r i IGMPMembershipReportV2
       (if UnicastMembershipReports (conf r) then QueryHost else IGMPHosts)) items ds"
  using assms unfolding sendMembershipReport_def reportDest_def [symmetric]
  by (cases rule: batch_frame) (auto dest: report.batch_returns)

lemma leave_emits:
  assumes "sendLeave X r i items w = (Inr (), w')"
  shows "\<exists>ds. wire w' = wire w @ ds \<and>
     list_all2 (announces X r i IGMPLeaveGroup
       (if UnicastMembershipReports (conf r) then QueryHost else allRouters)) items ds"
  using assms unfolding sendLeave_def leaveDest_def [symmetric]
  by (cases rule: batch_frame) (auto dest: leave.batch_returns)

text \<open>The body of a worker's turn, against the machine.\<close>

definition served :: "externals \<Rightarrow> IGMPReporter \<Rightarrow> world \<Rightarrow> world \<Rightarrow> bool" where
  "served X r w w' \<longleftrightarrow>
     (wire w' = wire w \<and> IntOutName w' = IntOutName w) \<or>
     serves X r \<lparr>sent = wire w, outs = IntOutName w\<rparr> \<lparr>sent = wire w', outs = IntOutName w'\<rparr>"

lemma served_refl [simp]: "wire w' = wire w \<Longrightarrow> IntOutName w' = IntOutName w \<Longrightarrow> served X r w w'"
  by (simp add: served_def)

lemma body_served:
  assumes "t \<in> set (tasks_of r)"
  shows "t = ReportsToNetwork \<Longrightarrow> readMembershipReportToNetworkCh_body X r ms w = (Inr (), w') \<Longrightarrow> served X r w w'"
    and "t = LeavesToNetwork \<Longrightarrow> leaveToNetworkWorker_body X r ms w = (Inr (), w') \<Longrightarrow> served X r w w'"
    and "connectQueryToReport_body X r w = (Inr (), w') \<Longrightarrow> served X r w w'"
    and "testingReadMembershipReportsFromNetwork_body ms w = (Inr (), w') \<Longrightarrow> served X r w w'"
    and "t = OutSelector \<Longrightarrow> outInterfaceSelector_body v w = (Inr (), w') \<Longrightarrow> served X r w w'"
proof -
  have out: "IntOutName u = IntOutName w"
    if "sendMembershipReport X r OUT ms w = (Inr (), u) \<or> sendLeave X r OUT ms w = (Inr (), u)" for u ms
    using that keepsD [OF keeps_sendMembershipReport [of IntOutName]] keepsD [OF keeps_sendLeave [of IntOutName]]
    by auto
  show "served X r w w'" if "t = ReportsToNetwork" "readMembershipReportToNetworkCh_body X r ms w = (Inr (), w')"
  proof -
    from that(2) obtain u where u: "sendMembershipReport X r OUT ms w = (Inr (), u)" "wire w' = wire u"
        "IntOutName w' = IntOutName u"
      by (auto simp: readMembershipReportToNetworkCh_body_def bind_eq_Inr observeH_def)
    from report_emits [OF u(1)] serves.report [of r X ms _ "\<lparr>sent = wire w, outs = IntOutName w\<rparr>"] that(1)
      assms u out [of ms u] show ?thesis by (auto simp: served_def)
  qed
  show "served X r w w'" if "t = LeavesToNetwork" "leaveToNetworkWorker_body X r ms w = (Inr (), w')"
  proof -
    from that(2) obtain u where u: "sendLeave X r OUT ms w = (Inr (), u)" "wire w' = wire u"
        "IntOutName w' = IntOutName u"
      by (auto simp: leaveToNetworkWorker_body_def bind_eq_Inr observeH_def)
    from leave_emits [OF u(1)] serves.leave [of r X ms _ "\<lparr>sent = wire w, outs = IntOutName w\<rparr>"] that(1)
      assms u out [of ms u] show ?thesis by (auto simp: served_def)
  qed
  show "connectQueryToReport_body X r w = (Inr (), w') \<Longrightarrow> served X r w w'"
    by (auto simp: connectQueryToReport_body_def sendMembershipReport_def incC_def observeH_def)
  show "testingReadMembershipReportsFromNetwork_body ms w = (Inr (), w') \<Longrightarrow> served X r w w'"
    by (auto simp: testingReadMembershipReportsFromNetwork_body_def observeH_def)
  show "t = OutSelector \<Longrightarrow> outInterfaceSelector_body v w = (Inr (), w') \<Longrightarrow> served X r w w'"
    using assms serves.select [of r X "\<lparr>sent = wire w, outs = IntOutName w\<rparr>" v]
    by (auto simp: outInterfaceSelector_body_def incC_def observeH_def served_def)
qed

lemma served_chan:
  "served X r (w\<lparr>QueryNotifyCh := q\<rparr>) w' = served X r w w'"
  "served X r (w\<lparr>MembershipReportFromNetworkCh := c\<rparr>) w' = served X r w w'"
  "served X r (w\<lparr>MembershipReportToNetworkCh := c\<rparr>) w' = served X r w w'"
  "served X r (w\<lparr>LeaveToNetworkCh := c\<rparr>) w' = served X r w w'"
  "served X r (w\<lparr>OutInterfaceSelectorCh := s\<rparr>) w' = served X r w w'"
  by (simp_all add: served_def)

lemma receive_served:
  assumes t: "t \<in> set (tasks_of r)"
  shows "receive_now X t r w = Some (Inr (), w') \<Longrightarrow> served X r w w'"
    and "receive_parked X t r w = Some (Inr (), w') \<Longrightarrow> served X r w w'"
proof -
  note simps = then_body_Some take_now_def take_parked_def
  have *: "served X r w w'" if "receive_now X t r w = Some (Inr (), w') \<or> receive_parked X t r w = Some (Inr (), w')"
  proof (cases t)
    case OutSelector
    with that obtain v c where "outInterfaceSelector_body v (w\<lparr>OutInterfaceSelectorCh := c\<rparr>) = (Inr (), w')"
      by (force simp: simps split: option.splits)
    from body_served(5) [OF t OutSelector this] show ?thesis by (simp add: served_chan)
  next
    case ReportsToNetwork
    with that obtain v c where "readMembershipReportToNetworkCh_body X r v
        (w\<lparr>MembershipReportToNetworkCh := c\<rparr>) = (Inr (), w')"
      by (force simp: simps split: option.splits)
    from body_served(1) [OF t ReportsToNetwork this] show ?thesis by (simp add: served_chan)
  next
    case LeavesToNetwork
    with that obtain v c where "leaveToNetworkWorker_body X r v (w\<lparr>LeaveToNetworkCh := c\<rparr>) = (Inr (), w')"
      by (force simp: simps split: option.splits)
    from body_served(2) [OF t LeavesToNetwork this] show ?thesis by (simp add: served_chan)
  next
    case QueryToReport
    with that obtain c where "connectQueryToReport_body X r (w\<lparr>QueryNotifyCh := c\<rparr>) = (Inr (), w')"
      by (force simp: simps split: option.splits)
    from body_served(3) [OF t this] show ?thesis by (simp add: served_chan)
  next
    case ReadReports
    with that obtain v c where "testingReadMembershipReportsFromNetwork_body v
        (w\<lparr>MembershipReportFromNetworkCh := c\<rparr>) = (Inr (), w')"
      by (force simp: simps split: option.splits)
    from body_served(4) [OF t this] show ?thesis by (simp add: served_chan)
  qed (use that in simp_all)
  show "receive_now X t r w = Some (Inr (), w') \<Longrightarrow> served X r w w'" using * by blast
  show "receive_parked X t r w = Some (Inr (), w') \<Longrightarrow> served X r w w'" using * by blast
qed

subsection \<open>The refinement\<close>

lemma begin_same:
  "recvIGMP_begin X i g pk r w = (x, w') \<Longrightarrow> wire w' = wire w \<and> IntOutName w' = IntOutName w"
  "recvUnicast_begin X pk r w = (x, w') \<Longrightarrow> wire w' = wire w \<and> IntOutName w' = IntOutName w"
proof -
  let ?f = "\<lambda>w. (wire w, IntOutName w)"
  have q: "keeps ?f (incC l)" "keeps ?f (incR l)" "keeps ?f (poolGet pk)" "keeps ?f (ioOrFatal X msg)"
    for l k kd msg
    by (simp_all add: keeps_incC keeps_incR keeps_poolGet keeps_ioOrFatal)
  have k: "keeps ?f (recvIGMP_begin X i g pk r)" "keeps ?f (recvUnicast_begin X pk r)"
    unfolding recvIGMP_begin_def recvUnicast_begin_def by (intro keeps_bind keeps_option keeps_simple q)+
  show "recvIGMP_begin X i g pk r w = (x, w') \<Longrightarrow> wire w' = wire w \<and> IntOutName w' = IntOutName w"
    using keepsD [OF k(1)] by fastforce
  show "recvUnicast_begin X pk r w = (x, w') \<Longrightarrow> wire w' = wire w \<and> IntOutName w' = IntOutName w"
    using keepsD [OF k(2)] by fastforce
qed

lemma park_same:
  "park_task t w = Some w' \<Longrightarrow> wire w' = wire w \<and> IntOutName w' = IntOutName w"
  "unpark_task t w = Some w' \<Longrightarrow> wire w' = wire w \<and> IntOutName w' = IntOutName w"
  by (cases t; auto dest!: park_on_op unpark_on_op)+

lemma head_same: "head_action t w = (x, w') \<Longrightarrow> wire w' = wire w \<and> IntOutName w' = IntOutName w"
  by (cases t) (auto simp: incC_def)

lemma start_same: "start_action t r w = (x, w') \<Longrightarrow> w' = w"
  by (cases t) (auto simp: recvUnicast_start_def split: option.splits)

lemma go_step_served:
  assumes g: "go_step X d p w (Inr q) w'" and t: "task_of p \<in> set (tasks_of r)" and c: "copy_ok r p"
    and groups: "multicastGroups r = the_multicastGroups" and buf: "bufs_ok (held_of p @ H) w"
  shows "served X r w w'"
  using g
proof cases
  case (start x)
  with start_same show ?thesis by (metis served_refl)
next
  case (begin_recv i g pick x)
  with begin_same(1) show ?thesis by (metis served_refl)
next
  case (handle_recv b i g res x)
  then obtain me where run: "recvIGMP_handle X i g b res (self p) w = (Inr me, w')" by (cases x) auto
  from t handle_recv groups have "g \<noteq> QueryHost" by (metis tasks_groups group_not_query)
  note em = handle_emits [OF run this]
  from c obtain a where me: "self p = r\<lparr>querierSourceIP := a\<rparr>" by (auto simp: copy_ok_def)
  have len: "length (heap w b) = maxIGMPPacketRecieveBytesCst"
    using buf handle_recv by (simp add: held_of_def bufs_ok_length)
  have out: "IntOutName w' = IntOutName w" using keepsD [OF keeps_handle run, of IntOutName] by simp
  from em serves.relay [of i g r "\<lparr>sent = wire w, outs = IntOutName w\<rparr>"] t handle_recv len out show ?thesis
    by (auto simp: me served_def proxyIt_def split: if_splits)
next
  case (begin_unicast i pick x)
  with begin_same(2) show ?thesis by (metis served_refl)
next
  case (handle_unicast b i res x)
  then have run: "recvUnicast_handle X i b res (self p) w = (Inr (), w')" by (cases x) auto
  from c handle_unicast have me: "self p = r" by (simp add: copy_ok_def)
  have len: "length (heap w b) = maxIGMPPacketRecieveBytesCst"
    using buf handle_unicast by (simp add: held_of_def bufs_ok_length)
  have out: "IntOutName w' = IntOutName w" using keepsD [OF keeps_unicast_handle run, of IntOutName] by simp
  from unicast_emits [OF run] serves.resend [of i r "\<lparr>sent = wire w, outs = IntOutName w\<rparr>" _ X w]
    unicast_target_out t handle_unicast len out show ?thesis
    by (fastforce simp: me served_def)
next
  case (head x)
  with head_same show ?thesis by (metis served_refl)
next
  case (select_recv x)
  then have "\<not> is_receiver (task_of p)" by (cases "task_of p") auto
  with c have "self p = r" by (cases "task_of p") (auto simp: copy_ok_def)
  with select_recv receive_served(1) [OF t] show ?thesis by (cases x) auto
next
  case select_wait
  with park_same(1) show ?thesis by (metis served_refl)
next
  case (wake_recv x)
  then have "\<not> is_receiver (task_of p)" by (cases "task_of p") auto
  with c have "self p = r" by (cases "task_of p") (auto simp: copy_ok_def)
  with wake_recv receive_served(2) [OF t] show ?thesis by (cases x) auto
next
  case wake_done
  with park_same(2) show ?thesis by (metis served_refl)
qed simp_all

text \<open>
  C1: The running system refines the abstract service. Every step of every reachable state that
  does not end the process leaves the wire and the table of outputs alone, or is one step of the
  service: one relay or re-send by a receiver the configuration asks for, one batch of reports or
  leaves by an enabled worker, or the client's choice of output. Nothing else is ever sent.
\<close>
theorem system_refines_service:
  assumes "launched X c s0" and "reachable X s0 s" and "sys_step X s s'" and "dead s' = None"
  shows "service_of s' = service_of s \<or> serves X (reporter s) (service_of s) (service_of s')"
  using assms(3)
proof cases
  case (go i q w')
  from assms(1,2) obtain r where r: "reporter s = r" "built c r" "copies_ok s" "accounting s"
    by (rule launched_facts)
  let ?p = "procs s ! i"
  from held_update [OF go(3)] obtain H where "mset (held (procs s)) = mset (held_of ?p @ H)" by blast
  from bufs_ok_mset [OF this buffers_launched [OF assms(1,2) go(2)]]
  have buf: "bufs_ok (held_of ?p @ H) (shared s)" .
  from proc_task [OF r(4) go(3)] proc_copy [OF r(3) go(3)] r(1)
  have "task_of ?p \<in> set (tasks_of r)" "copy_ok r ?p" by simp_all
  from go_step_served [OF go(4) this built_groups [OF r(2)] buf]
  show ?thesis using go(1) r(1) by (auto simp: served_def service_of_def)
next
  case (client w')
  from client(3) have "wire w' = wire (shared s)" "IntOutName w' = IntOutName (shared s)"
    by (auto elim!: client_stepE dest!: take_now_op)
  with client(1) show ?thesis by (simp add: service_of_def)
next
  case (client_waits w' q n)
  from client_waits(3) have "wire w' = wire (shared s)" "IntOutName w' = IntOutName (shared s)"
    by (auto elim!: client_waitE dest!: park_on_op unpark_on_op take_parked_op)
  with client_waits(1) show ?thesis by (simp add: service_of_def)
qed (use assms(4) in \<open>simp_all add: service_of_def\<close>)

subsection \<open>The querier's address\<close>

text \<open>
  C25: Reports, leaves and re-sent messages never use the querier's address. \<open>destinationNetIP\<close>
  is meant to send them to the source of the last query, but a query is recorded in the receiver's
  own copy of the reporter only; in every reachable state every other goroutine still resolves
  \<open>QueryHost\<close> to the configured fallback address.
\<close>
theorem senders_use_fallback:
  assumes "launched X c s0" and "reachable X s0 s" and "i < length (procs s)"
    and "\<And>sd g. task_of (procs s ! i) \<noteq> RecvIGMP sd g"
    and "UnicastDst c = Addr_String (Addr4 a b d e)"
  shows "destinationNetIP (self (procs s ! i)) QueryHost = Inr [a, b, d, e]"
proof -
  from assms(1,2) obtain r where r: "reporter s = r" "built c r" "copies_ok s" by (rule launched_facts)
  from proc_copy [OF r(3) assms(3)] r(1) assms(4) have me: "self (procs s ! i) = r" by (simp add: copy_ok_def)
  from r(2) assms(5) have "unicastDst r = Addr4 a b d e" "querierSourceIP r = AddrZero"
    by (auto simp: built_def MustParseAddr_def ParseAddr_print_roundtrip simp del: Addr_String.simps)
  then show ?thesis by (simp add: me destinationNetIP_def Addr_IsValid_def reporter_addr2NetIP_def)
qed

subsection \<open>Witnesses\<close>

theorem system_refines_service_witness:
  "\<exists>s s'. sys_step sample_externals s s' \<and> length (sent (service_of s')) = Suc (length (sent (service_of s))) \<and>
     serves sample_externals (reporter s) (service_of s) (service_of s')"
proof -
  obtain s s' d where s: "reachable sample_externals (Run_init sample_reporter sample_running) s"
    "sys_step sample_externals s s'" "dead s' = None" "wire (shared s) = []" "wire (shared s') = [d]"
    by (rule sample_send)
  from s(4,5) have "service_of s' \<noteq> service_of s" by (simp add: service_of_def)
  with system_refines_service [OF launch_sample s(1-3)]
  have "serves sample_externals (reporter s) (service_of s) (service_of s')" by blast
  moreover have "length (sent (service_of s')) = Suc (length (sent (service_of s)))"
    using s(4,5) by (simp add: service_of_def)
  ultimately show ?thesis using s(2) by blast
qed

theorem senders_use_fallback_witness:
  "destinationNetIP (self (procs sample_cancelled ! 4)) QueryHost = Inr [10, 99, 0, 1]"
proof -
  have "UnicastDst sample_config = Addr_String (Addr4 10 99 0 1)" by code_simp
  from senders_use_fallback [OF launch_sample sample_cancelled_reach _ _ this, of 4]
  show ?thesis by (simp add: sample_cancelled_def sample_tasks)
qed

end
