(* ===== verification/Tables.thy ===== *)
theory Tables
  imports Construct
begin

text \<open>
  The five interface tables of a reporter (goIGMP.go, the loop of \<open>NewIGMPReporter\<close> over
  \<open>r.Interfaces\<close>): what they hold of each side, and that they agree with one another.
\<close>

definition side_tables :: "externals \<Rightarrow> IGMPReporter \<Rightarrow> side \<Rightarrow> bool" where
  "side_tables X r i \<longleftrightarrow>
     (\<exists>nif ip a. getInterfaceHandle X r i = Inr (nif, ip, a) \<and>
        NetIF r i = Some nif \<and> NetIP r i = Some ip \<and> NetAddr r i = Some a \<and>
        ContMsg r i = Some \<lparr>cm_Src = [], cm_Dst = [], cm_IfIndex = if_Index nif\<rparr> \<and>
        NetIFIndex r (if_Index nif) \<noteq> None)"

definition tables_typed :: "externals \<Rightarrow> side set \<Rightarrow> IGMPReporter \<Rightarrow> bool" where
  "tables_typed X S r \<longleftrightarrow>
     (\<forall>i \<in> S. side_tables X r i) \<and>
     (\<forall>i. i \<notin> S \<longrightarrow> ContMsg r i = None) \<and>
     (\<forall>k i. NetIFIndex r k = Some i \<longrightarrow> i \<in> S \<and> (\<exists>nif. NetIF r i = Some nif \<and> if_Index nif = k))"

lemma handle_cong: "IntName r' = IntName r \<Longrightarrow> getInterfaceHandle X r' = getInterfaceHandle X r"
  by (rule ext) (simp add: getInterfaceHandle_def)

lemma addInterface_typed:
  assumes run: "addInterface X i r w = (Inr r', w')" and S: "tables_typed X S r" "i \<notin> S"
  shows "tables_typed X (insert i S) r'"
proof -
  from run obtain n ip a where h: "getInterfaceHandle X r i = Inr (n, ip, a)"
    and r': "r' = r\<lparr>NetIF := (NetIF r)(i \<mapsto> n), NetIP := (NetIP r)(i \<mapsto> ip),
            NetAddr := (NetAddr r)(i \<mapsto> a), NetIFIndex := (NetIFIndex r)(if_Index n \<mapsto> i),
            ContMsg := (ContMsg r)(i \<mapsto> \<lparr>cm_Src = [], cm_Dst = [], cm_IfIndex = if_Index n\<rparr>)\<rparr>"
    by (auto simp: addInterface_def bind_lift split: sum.splits)
  have same: "getInterfaceHandle X r' = getInterfaceHandle X r" by (rule handle_cong) (simp add: r')
  have "side_tables X r' j" if "j \<in> insert i S" for j
  proof (cases "j = i")
    case True
    with h show ?thesis by (simp add: side_tables_def same) (simp add: r')
  next
    case False
    with that S(1) have "side_tables X r j" by (simp add: tables_typed_def)
    with False show ?thesis by (auto simp: side_tables_def same) (auto simp: r')
  qed
  moreover have "\<forall>j. j \<notin> insert i S \<longrightarrow> ContMsg r' j = None"
    using S(1) by (simp add: tables_typed_def r')
  moreover have "j \<in> insert i S \<and> (\<exists>nif. NetIF r' j = Some nif \<and> if_Index nif = k)" if "NetIFIndex r' k = Some j" for k j
    using that S by (auto simp: tables_typed_def r' split: if_splits)
  ultimately show ?thesis by (simp add: tables_typed_def)
qed

lemma foldM_addInterface_typed:
  "foldM (addInterface X) is r w = (Inr r', w') \<Longrightarrow> tables_typed X S r \<Longrightarrow> distinct is \<Longrightarrow>
   set is \<inter> S = {} \<Longrightarrow> tables_typed X (set is \<union> S) r'"
proof (induction "is" arbitrary: r w S)
  case (Cons i js)
  from Cons.prems(1) obtain r1 w1 where one: "addInterface X i r w = (Inr r1, w1)"
    and more: "foldM (addInterface X) js r1 w1 = (Inr r', w')"
    by (auto simp: bind_eq_Inr)
  from addInterface_typed [OF one Cons.prems(2)] Cons.prems(4)
  have "tables_typed X (insert i S) r1" by simp
  from Cons.IH [OF more this] Cons.prems(3,4) show ?case by simp
qed simp

text \<open>Opening sockets may add an interface, but changes nothing of a side that has one.\<close>

definition keeps_sides :: "IGMPReporter \<Rightarrow> IGMPReporter \<Rightarrow> bool" where
  "keeps_sides r r' \<longleftrightarrow>
     (\<forall>i. NetIF r i \<noteq> None \<longrightarrow>
        NetIF r' i = NetIF r i \<and> NetIP r' i = NetIP r i \<and> NetAddr r' i = NetAddr r i)"

lemma keeps_sides_refl [simp]: "keeps_sides r r"
  by (simp add: keeps_sides_def)

lemma keeps_sides_trans: "keeps_sides r s \<Longrightarrow> keeps_sides s t \<Longrightarrow> keeps_sides r t"
  by (fastforce simp: keeps_sides_def)

lemma keeps_sides_upd [simp]:
  "keeps_sides r (s\<lparr>anyCon := a\<rparr>) = keeps_sides r s" "keeps_sides r (s\<lparr>mConIGMP := m\<rparr>) = keeps_sides r s"
  "keeps_sides r (s\<lparr>conRaw := c\<rparr>) = keeps_sides r s" "keeps_sides r (s\<lparr>uCon := u\<rparr>) = keeps_sides r s"
  by (simp_all add: keeps_sides_def)

lemma openPacketMulticastPacketConn_keeps:
  "openPacketMulticastPacketConn X r i a s = (Inr (c, p, r'), t) \<Longrightarrow> keeps_sides r r'"
  by (cases "getInterfaceHandle X r i")
    (auto simp: openPacketMulticastPacketConn_def bind_eq_Inr bind_lift Let_def keeps_sides_def
      split: if_splits option.splits simp del: seqs.simps)

lemma openRawConnection_keeps:
  "openRawConnection X r i s = (Inr (c, r'), t) \<Longrightarrow> keeps_sides r r'"
  by (cases "getInterfaceHandle X r i")
    (auto simp: openRawConnection_def bind_eq_Inr bind_lift keeps_sides_def
      split: option.splits simp del: seqs.simps)

lemma openRawIfNil_keeps: "openRawIfNil X i r s = (Inr r', t) \<Longrightarrow> keeps_sides r r'"
  by (auto simp: openRawIfNil_def bind_eq_Inr dest: openRawConnection_keeps split: if_splits)

lemma createPacketConns_groups_keep:
  "foldM (createPacketConns_group X i) gs r s = (Inr r', t) \<Longrightarrow> keeps_sides r r'"
proof (induction gs arbitrary: r s)
  case (Cons g gs)
  then obtain r1 s1 where one: "createPacketConns_group X i g r s = (Inr r1, s1)"
    and "keeps_sides r1 r'" by (auto simp: bind_eq_Inr)
  moreover from one have "keeps_sides r r1"
    by (auto simp: createPacketConns_group_def bind_eq_Inr split: if_splits
        dest: openPacketMulticastPacketConn_keeps)
  ultimately show ?case by (blast intro: keeps_sides_trans)
qed simp

lemma createPacketConns_keeps: "createPacketConns X r i s = (Inr r', t) \<Longrightarrow> keeps_sides r r'"
  unfolding createPacketConns_def
  by (drule createPacketConns_groups_keep) (simp add: keeps_sides_def)

lemmas stage_keeps = openRawIfNil_keeps createPacketConns_keeps

lemma openSockets_keeps:
  assumes "openSockets X r s = (Inr r', t)"
  shows "keeps_sides r r'"
proof -
  have 1: "openForUnicastProxy X r s = (Inr r', t) \<Longrightarrow> keeps_sides r r'" for r s r' t
    by (auto simp: openForUnicastProxy_def bind_eq_Inr keeps_sides_def split: if_splits
        dest!: openRawIfNil_keeps)
  have 2: "openForNotify X r s = (Inr r', t) \<Longrightarrow> keeps_sides r r'" for r s r' t
    by (auto simp: openForNotify_def split: if_splits dest: stage_keeps)
  have 3: "openForOutToIn X r s = (Inr r', t) \<Longrightarrow> keeps_sides r r'" for r s r' t
    by (auto simp: openForOutToIn_def bind_eq_Inr split: if_splits
        dest!: stage_keeps intro: keeps_sides_trans)
  have 4: "openForInToOut X r s = (Inr r', t) \<Longrightarrow> keeps_sides r r'" for r s r' t
    by (auto simp: openForInToOut_def bind_eq_Inr split: if_splits
        dest!: stage_keeps intro: keeps_sides_trans)
  from assms show ?thesis
    unfolding openSockets_def bind_eq_Inr
    by (blast dest: 1 2 3 4 intro: keeps_sides_trans)
qed

lemma tables_typed_keeps:
  assumes "tables_typed X S r" "keeps_sides r r'" "IntName r' = IntName r"
    "ContMsg r' = ContMsg r" "NetIFIndex r' = NetIFIndex r"
  shows "tables_typed X S r'"
proof -
  have "side_tables X r' i" if "side_tables X r i" for i
    using that assms(2,4,5) by (auto simp: side_tables_def keeps_sides_def handle_cong [OF assms(3)])
  moreover have "NetIF r' i = NetIF r i" if "NetIF r i \<noteq> None" for i
    using that assms(2) by (simp add: keeps_sides_def)
  ultimately show ?thesis using assms(1,4,5) by (fastforce simp: tables_typed_def)
qed

text \<open>
  C26: The interface tables of a constructed reporter are well formed. Every configured side has its
  interface, address and control message, and they are those the lookup of its name gave, whatever
  sockets were opened since; no other side has a control message; an index in the index table leads
  to a configured side whose interface has that index, and the index of every configured side's
  interface is in the table.
\<close>
theorem interface_tables_wellformed:
  assumes "NewIGMPReporter X c w = (Inr r, w')"
  shows "tables_typed X (set (Interfaces r)) r"
  using assms
proof (rule NewIGMPReporter_decompose)
  fix ud maps u v r0
  assume maps: "makeIPMaps = Inr maps"
    and ifs: "foldM (addInterface X) (Interfaces (initReporter c ud maps)) (initReporter c ud maps) v
               = (Inr r0, v)"
    and socks: "openSockets X r0 v = (Inr r, w')"
  let ?i = "initReporter c ud maps"
  note inv = initReporter_ready [OF maps, of c ud]
  have d: "distinct (Interfaces ?i)" "set (Interfaces ?i) \<inter> dom (ContMsg ?i) = {}"
    by (simp_all add: initReporter_def)
  from foldM_addInterface_spec [OF ifs inv(2) d] have b: "base r0 = base ?i" by simp
  then have rdy: "ready r0" and alt: "AltOutExists r0 = has_alt (conf r0)"
    and i0: "Interfaces r0 = Interfaces ?i"
    using inv(1)
    by (auto simp: ready_def sock_inv_def in_step_def mconns_good_def tables_ok_def base_def
        joined_def [abs_def] initReporter_def)
  note f = fixed_fields [OF stage_fixed [OF openSockets_stage [OF socks rdy alt]]]
  have "tables_typed X {} ?i" by (simp add: tables_typed_def initReporter_def)
  from foldM_addInterface_typed [OF ifs this] d(1)
  have "tables_typed X (set (Interfaces r0)) r0" by (simp add: i0)
  then show "tables_typed X (set (Interfaces r)) r"
    using tables_typed_keeps [OF _ openSockets_keeps [OF socks]] by (simp add: f)
qed

theorem interface_tables_wellformed_witness:
  "tables_typed sample_externals {IN, OUT} sample_reporter"
  using interface_tables_wellformed [OF sample_constructed] by (simp add: sample_reporter_def)

end
