(* ===== verification/SelfQuery.thy ===== *)
theory SelfQuery
  imports Workers
begin

text \<open>
  The goroutines that \<open>RunSelfQuery\<close> starts (goIGMP.go, goIGMP_send_self_query.go), one per
  interface, as a step relation: each runs its setup once and then a turn of its loop per tick of
  its own ticker. The ticks come whenever they come, so every interleaving of the goroutines and
  every number of ticks is a run. Nothing stops these goroutines: they take no context.
\<close>

subsection \<open>The goroutines\<close>

datatype qpoint = QStart | QTick Header bytes | QDone

record querier =
  q_side :: side
  q_at :: qpoint

record qsys =
  queriers :: "querier list"
  q_world :: world
  q_dead :: "fatal option"

definition RunSelfQuery_init :: "IGMPReporter \<Rightarrow> world \<Rightarrow> qsys" where
  "RunSelfQuery_init r w =
     \<lparr>queriers = map (\<lambda>i. \<lparr>q_side = i, q_at = QStart\<rparr>) (RunSelfQuery r), q_world = w, q_dead = None\<rparr>"

definition q_after :: "(Header \<times> bytes) option \<Rightarrow> qpoint" where
  "q_after res = (case res of None \<Rightarrow> QDone | Some (iph, igmpPayload) \<Rightarrow> QTick iph igmpPayload)"

inductive q_go ::
    "externals \<Rightarrow> IGMPReporter \<Rightarrow> querier \<Rightarrow> world \<Rightarrow> fatal + querier \<Rightarrow> world \<Rightarrow> bool" for X r where
  q_starts: "q_at q = QStart \<Longrightarrow> selfQuery_setup X r (q_side q) w = (res, w') \<Longrightarrow>
     q_go X r q w (map_sum id (\<lambda>x. q\<lparr>q_at := q_after x\<rparr>) res) w'"
| q_ticks: "q_at q = QTick iph igmpPayload \<Longrightarrow>
     selfQuery_tick X r (q_side q) iph igmpPayload w = (res, w') \<Longrightarrow>
     q_go X r q w (map_sum id (\<lambda>_. q) res) w'"

inductive q_step :: "externals \<Rightarrow> IGMPReporter \<Rightarrow> qsys \<Rightarrow> qsys \<Rightarrow> bool" for X r where
  q_runs: "q_dead s = None \<Longrightarrow> k < length (queriers s) \<Longrightarrow>
     q_go X r (queriers s ! k) (q_world s) (Inr q) w' \<Longrightarrow>
     q_step X r s (s\<lparr>queriers := (queriers s)[k := q], q_world := w'\<rparr>)"
| q_dies: "q_dead s = None \<Longrightarrow> k < length (queriers s) \<Longrightarrow>
     q_go X r (queriers s ! k) (q_world s) (Inl e) w' \<Longrightarrow>
     q_step X r s (s\<lparr>q_world := w', q_dead := Some e\<rparr>)"

inductive_cases q_goE: "q_go X r q w res w'"
inductive_cases q_stepE: "q_step X r s s'"

inductive q_reach :: "externals \<Rightarrow> IGMPReporter \<Rightarrow> world \<Rightarrow> qsys \<Rightarrow> bool" for X r w where
  q_refl: "q_reach X r w (RunSelfQuery_init r w)"
| q_next: "q_reach X r w s \<Longrightarrow> q_step X r s s' \<Longrightarrow> q_reach X r w s'"

subsection \<open>What they send\<close>

text \<open>The general query, and the datagram that carries it through a side.\<close>

definition the_query :: "IGMPReporter \<Rightarrow> IGMPv1or2" where
  "the_query r =
     \<lparr>ig_Type = IGMPMembershipQuery, ig_MaxResponseTime = igmpQueryMaxResponseTimeCst,
      ig_GroupAddress = get0 [] (mapIPtoNetIP r) allZerosHosts, ig_Version = 2\<rparr>"

definition query_dgram :: "externals \<Rightarrow> IGMPReporter \<Rightarrow> bytes \<Rightarrow> side \<Rightarrow> datagram" where
  "query_dgram X r b i = dgram r i (ipv4HeaderNetIP X (length b) (get0 [] (mapIPtoNetIP r) IGMPHosts)) b"

definition querier_ok :: "externals \<Rightarrow> IGMPReporter \<Rightarrow> querier \<Rightarrow> bool" where
  "querier_ok X r q \<longleftrightarrow> q_side q \<in> set (RunSelfQuery r) \<and>
     (case q_at q of QStart \<Rightarrow> True
      | QTick h b \<Rightarrow> minQueryDurationCst \<le> get0 0 (TimerDuration r) QUERY \<and>
          serializeV1or2 X (the_query r) = Some b \<and>
          h = ipv4HeaderNetIP X (length b) (get0 [] (mapIPtoNetIP r) IGMPHosts)
      | QDone \<Rightarrow> get0 0 (TimerDuration r) QUERY < minQueryDurationCst)"

text \<open>One goroutine's step: what it leaves of itself, and at most one query on the wire.\<close>

lemma q_go_ok:
  assumes "q_go X r q w res w'" "querier_ok X r q"
  shows "(\<forall>q'. res = Inr q' \<longrightarrow> querier_ok X r q') \<and>
     (wire w' = wire w \<or>
      (minQueryDurationCst \<le> get0 0 (TimerDuration r) QUERY \<and> conRaw r (q_side q) \<noteq> None \<and>
       (\<exists>b. serializeV1or2 X (the_query r) = Some b \<and>
            wire w' = wire w @ [query_dgram X r b (q_side q)])))"
  using assms(1)
proof cases
  case (q_starts x)
  from selfQuery_setup_cases [OF q_starts(3)] assms(2) show ?thesis
    by (cases x) (auto simp: q_starts(1) querier_ok_def q_after_def the_query_def split: option.splits)
next
  case (q_ticks h b x)
  from selfQuery_tick_cases [OF q_ticks(3)] assms(2) show ?thesis
    by (auto simp: q_ticks(1,2) querier_ok_def query_dgram_def)
qed


definition asked :: "IGMPReporter \<Rightarrow> side set" where
  "asked r = {i \<in> set (RunSelfQuery r). conRaw r i \<noteq> None}"

definition qsys_ok :: "externals \<Rightarrow> IGMPReporter \<Rightarrow> world \<Rightarrow> qsys \<Rightarrow> bool" where
  "qsys_ok X r w s \<longleftrightarrow>
     (\<forall>q \<in> set (queriers s). querier_ok X r q) \<and>
     (\<exists>sides. set sides \<subseteq> asked r \<and>
        wire (q_world s) = wire w @ map (query_dgram X r (the (serializeV1or2 X (the_query r)))) sides \<and>
        (sides \<noteq> [] \<longrightarrow> minQueryDurationCst \<le> get0 0 (TimerDuration r) QUERY))"

lemma wire_extends:
  assumes "wire w' = wire u \<or>
      (minQueryDurationCst \<le> get0 0 (TimerDuration r) QUERY \<and> conRaw r i \<noteq> None \<and>
       (\<exists>b. serializeV1or2 X (the_query r) = Some b \<and> wire w' = wire u @ [query_dgram X r b i]))"
    and "i \<in> set (RunSelfQuery r)"
    and "\<exists>sides. set sides \<subseteq> asked r \<and>
        wire u = wire w @ map (query_dgram X r (the (serializeV1or2 X (the_query r)))) sides \<and>
        (sides \<noteq> [] \<longrightarrow> minQueryDurationCst \<le> get0 0 (TimerDuration r) QUERY)"
  shows "\<exists>sides. set sides \<subseteq> asked r \<and>
        wire w' = wire w @ map (query_dgram X r (the (serializeV1or2 X (the_query r)))) sides \<and>
        (sides \<noteq> [] \<longrightarrow> minQueryDurationCst \<le> get0 0 (TimerDuration r) QUERY)"
  using assms(1)
proof (elim disjE conjE exE)
  fix b assume new: "minQueryDurationCst \<le> get0 0 (TimerDuration r) QUERY" "conRaw r i \<noteq> None"
    "serializeV1or2 X (the_query r) = Some b" "wire w' = wire u @ [query_dgram X r b i]"
  from assms(3) obtain sides where "set sides \<subseteq> asked r"
    "wire u = wire w @ map (query_dgram X r b) sides" using new(3) by auto
  with new assms(2) show ?thesis by (intro exI [of _ "sides @ [i]"]) (simp add: asked_def)
qed (use assms(3) in simp)

lemma reach_qsys_ok: "q_reach X r w s \<Longrightarrow> qsys_ok X r w s"
proof (induction rule: q_reach.induct)
  case q_refl
  show ?case by (auto simp: qsys_ok_def RunSelfQuery_init_def querier_ok_def)
next
  case (q_next s s')
  from q_next(2) show ?case
  proof cases
    case (q_runs k q w')
    then have ok: "querier_ok X r (queriers s ! k)" using q_next.IH by (simp add: qsys_ok_def)
    note go = q_go_ok [OF q_runs(4) ok]
    have "\<forall>p \<in> set ((queriers s)[k := q]). querier_ok X r p"
      using go q_next.IH
      by (auto simp: qsys_ok_def dest!: set_update_subset_insert [THEN subsetD])
    moreover note wire_extends [OF conjunct2 [OF go], of w]
    ultimately show ?thesis using ok q_next.IH q_runs(1) by (simp add: qsys_ok_def querier_ok_def)
  next
    case (q_dies k e w')
    then have ok: "querier_ok X r (queriers s ! k)" using q_next.IH by (simp add: qsys_ok_def)
    from wire_extends [OF conjunct2 [OF q_go_ok [OF q_dies(4) ok]], of w] ok q_next.IH q_dies(1)
    show ?thesis by (simp add: qsys_ok_def querier_ok_def)
  qed
qed

text \<open>
  C32: Self queries are general queries and nothing else. Whatever the interleaving and however
  many ticks have come, all that \<open>RunSelfQuery\<close>'s goroutines have put on the wire is a sequence of
  copies of one datagram per side: the IGMPv2 general query, with the header to 224.0.0.22, through
  a side whose raw connection the configuration opens; and nothing at all if the query time is
  below a second.
\<close>
theorem selfQuery_wire:
  assumes "NewIGMPReporter X c w0 = (Inr r, w1)" and "q_reach X r w1 s"
  shows "\<exists>sides. set sides \<subseteq> set (Interfaces r) \<inter> raws_of c \<and>
     wire (q_world s) = wire w1 @ map (query_dgram X r (the (serializeV1or2 X (the_query r)))) sides \<and>
     (QueryTime c < minQueryDurationCst \<longrightarrow> sides = [])"
proof -
  from NewIGMPReporter_built [OF assms(1)]
  have b: "dom (conRaw r) = raws_of c" "get0 0 (TimerDuration r) QUERY = QueryTime c"
    by (simp_all add: built_def get0_def)
  then have "asked r = set (Interfaces r) \<inter> raws_of c" by (auto simp: asked_def RunSelfQuery_def)
  with reach_qsys_ok [OF assms(2)] b(2) show ?thesis by (auto simp: qsys_ok_def)
qed

subsection \<open>When they end the process\<close>

lemma tick_outcome:
  assumes "io_ok X"
  shows "fst (selfQuery_tick X r i h b w) =
     (if conRaw r i = None then Inl (Panic ''nil *ipv4.RawConn'') else Inr ())"
  using assms
  by (auto simp: selfQuery_tick_def setWriteDeadline_def writeTo_def incC_def addC_def observeH_def
      bind_apply ioOrFatal_apply io_ok_def)

lemma setup_outcome:
  assumes "serializeV1or2 X (the_query r) = Some b"
  shows "fst (selfQuery_setup X r i w) =
     (if get0 0 (TimerDuration r) QUERY < minQueryDurationCst then Inr None
      else Inr (Some (ipv4HeaderNetIP X (length b) (get0 [] (mapIPtoNetIP r) IGMPHosts), b)))"
  using assms
  by (auto simp: selfQuery_setup_def the_query_def bind_incC bind_lift observeH_def ipv4Header_dest)

lemma dies_only_without_raw:
  assumes "q_reach X r w s" "io_ok X" "serializeV1or2 X (the_query r) = Some b" "q_dead s \<noteq> None"
  shows "minQueryDurationCst \<le> get0 0 (TimerDuration r) QUERY \<and>
     (\<exists>i \<in> set (RunSelfQuery r). conRaw r i = None)"
  using assms(1,4)
proof induction
  case q_refl
  then show ?case by (simp add: RunSelfQuery_init_def)
next
  case (q_next s s')
  from q_next(2) show ?case
  proof cases
    case (q_runs k q w')
    with q_next show ?thesis by simp
  next
    case (q_dies k e w')
    have ok: "querier_ok X r (queriers s ! k)"
      using reach_qsys_ok [OF q_next(1)] q_dies(3) by (simp add: qsys_ok_def)
    from q_dies(4) show ?thesis
    proof cases
      case (q_starts res)
      with setup_outcome [OF assms(3), of "q_side (queriers s ! k)" "q_world s"] show ?thesis
        by (cases res) (auto split: if_splits)
    next
      case (q_ticks h b' res)
      with tick_outcome [OF assms(2), of r "q_side (queriers s ! k)" h b' "q_world s"] ok
      show ?thesis by (cases res) (auto simp: querier_ok_def split: if_splits)
    qed
  qed
qed

text \<open>A state in which one goroutine is past its setup and waits for its tick.\<close>

definition ticking :: "externals \<Rightarrow> IGMPReporter \<Rightarrow> nat \<Rightarrow> bytes \<Rightarrow> world \<Rightarrow> qsys" where
  "ticking X r k b w = (RunSelfQuery_init r w)\<lparr>queriers := (queriers (RunSelfQuery_init r w))
     [k := \<lparr>q_side = RunSelfQuery r ! k,
            q_at = QTick (ipv4HeaderNetIP X (length b) (get0 [] (mapIPtoNetIP r) IGMPHosts)) b\<rparr>]\<rparr>"

lemma reach_ticking:
  assumes "serializeV1or2 X (the_query r) = Some b" "k < length (RunSelfQuery r)"
    and "minQueryDurationCst \<le> get0 0 (TimerDuration r) QUERY"
  shows "\<exists>w'. q_reach X r w (ticking X r k b w') \<and> wire w' = wire w"
proof -
  let ?s = "RunSelfQuery_init r w" and ?i = "RunSelfQuery r ! k"
  let ?h = "ipv4HeaderNetIP X (length b) (get0 [] (mapIPtoNetIP r) IGMPHosts)"
  obtain w' where w': "selfQuery_setup X r ?i w = (Inr (Some (?h, b)), w')"
    using setup_outcome [OF assms(1), of ?i w] assms(3)
    by (cases "selfQuery_setup X r ?i w") auto
  have q: "queriers ?s ! k = \<lparr>q_side = ?i, q_at = QStart\<rparr>" "q_world ?s = w"
    using assms(2) by (simp_all add: RunSelfQuery_init_def)
  have "q_go X r (queriers ?s ! k) (q_world ?s) (Inr \<lparr>q_side = ?i, q_at = QTick ?h b\<rparr>) w'"
    using q_go.q_starts [where q = "queriers ?s ! k" and X = X and r = r, OF _ , of w] w' q
    by (fastforce simp: q_after_def)
  from q_runs [OF _ _ this] have "q_step X r ?s (ticking X r k b w')"
    using assms(2) by (simp add: RunSelfQuery_init_def ticking_def)
  with q_refl selfQuery_setup_cases(1) [OF w'] show ?thesis by (blast intro: q_next)
qed

lemma dies_without_raw:
  assumes "io_ok X" "serializeV1or2 X (the_query r) = Some b"
    and "minQueryDurationCst \<le> get0 0 (TimerDuration r) QUERY"
    and "i \<in> set (RunSelfQuery r)" "conRaw r i = None"
  shows "\<exists>s. q_reach X r w s \<and> q_dead s \<noteq> None"
proof -
  from assms(4) obtain k where k: "k < length (RunSelfQuery r)" "RunSelfQuery r ! k = i"
    by (auto simp: in_set_conv_nth)
  from reach_ticking [OF assms(2) k(1) assms(3)] obtain w1
    where r: "q_reach X r w (ticking X r k b w1)" by blast
  let ?h = "ipv4HeaderNetIP X (length b) (get0 [] (mapIPtoNetIP r) IGMPHosts)"
  let ?s = "ticking X r k b w1"
  have q: "queriers ?s ! k = \<lparr>q_side = i, q_at = QTick ?h b\<rparr>" "q_world ?s = w1" "q_dead ?s = None"
    "k < length (queriers ?s)"
    using k by (simp_all add: ticking_def RunSelfQuery_init_def)
  obtain e w2 where t: "selfQuery_tick X r i ?h b w1 = (Inl e, w2)"
    using tick_outcome [OF assms(1), of r i ?h b w1] assms(5)
    by (cases "selfQuery_tick X r i ?h b w1") auto
  have "q_go X r (queriers ?s ! k) (q_world ?s) (Inl e) w2"
    using q_go.q_ticks [where q = "queriers ?s ! k" and X = X and r = r, OF _ , of ?h b w1] t q by fastforce
  from q_next [OF r q_dies [OF q(3,4) this]] show ?thesis by (intro exI conjI) auto
qed

text \<open>A tick on a side that has one leaves a query.\<close>

lemma asks_with_raw:
  assumes "io_ok X" "serializeV1or2 X (the_query r) = Some b"
    and "minQueryDurationCst \<le> get0 0 (TimerDuration r) QUERY"
    and "k < length (RunSelfQuery r)" "conRaw r (RunSelfQuery r ! k) \<noteq> None"
  shows "\<exists>s. q_reach X r w s \<and> wire (q_world s) = wire w @ [query_dgram X r b (RunSelfQuery r ! k)]"
proof -
  from reach_ticking [OF assms(2,4,3)] obtain w1
    where r: "q_reach X r w (ticking X r k b w1)" "wire w1 = wire w" by blast
  let ?h = "ipv4HeaderNetIP X (length b) (get0 [] (mapIPtoNetIP r) IGMPHosts)"
  let ?s = "ticking X r k b w1" and ?i = "RunSelfQuery r ! k"
  have q: "queriers ?s ! k = \<lparr>q_side = ?i, q_at = QTick ?h b\<rparr>" "q_world ?s = w1" "q_dead ?s = None"
    "k < length (queriers ?s)"
    using assms(4) by (simp_all add: ticking_def RunSelfQuery_init_def)
  obtain w2 where t: "selfQuery_tick X r ?i ?h b w1 = (Inr (), w2)"
    using tick_outcome [OF assms(1), of r ?i ?h b w1] assms(5)
    by (cases "selfQuery_tick X r ?i ?h b w1") auto
  have "q_go X r (queriers ?s ! k) (q_world ?s) (Inr (queriers ?s ! k)) w2"
    using q_go.q_ticks [where q = "queriers ?s ! k" and X = X and r = r, OF _ , of ?h b w1] t q by fastforce
  from q_runs [OF q(3,4) this] r(1)
  have "q_reach X r w (?s\<lparr>queriers := (queriers ?s)[k := queriers ?s ! k], q_world := w2\<rparr>)"
    by (rule q_next [rotated])
  moreover have "wire w2 = wire w @ [query_dgram X r b ?i]"
    using selfQuery_tick_cases [OF t] r(2) by (simp add: query_dgram_def)
  ultimately show ?thesis by (intro exI conjI) auto
qed

text \<open>
  C33: \<open>RunSelfQuery\<close> starts a goroutine for every interface, but only a side with a raw connection
  survives a tick. With system calls that work and a serializer that writes the query, a run that
  ends the process exists exactly if the query time is at least a second and some configured side
  has no raw connection; with an alternative outside interface that is always so.
\<close>
theorem selfQuery_dies_iff:
  assumes "NewIGMPReporter X c w0 = (Inr r, w1)" and "io_ok X"
    and "serializeV1or2 X (the_query r) \<noteq> None"
  shows "((\<exists>s. q_reach X r w1 s \<and> q_dead s \<noteq> None) \<longleftrightarrow>
      minQueryDurationCst \<le> QueryTime c \<and> \<not> set (Interfaces r) \<subseteq> raws_of c) \<and>
     (has_alt c \<longrightarrow> \<not> set (Interfaces r) \<subseteq> raws_of c)"
proof -
  from assms(3) obtain b where b: "serializeV1or2 X (the_query r) = Some b" by blast
  from NewIGMPReporter_built [OF assms(1)]
  have d: "dom (conRaw r) = raws_of c" and t: "get0 0 (TimerDuration r) QUERY = QueryTime c"
    and alt: "has_alt c \<longrightarrow> \<not> set (Interfaces r) \<subseteq> raws_of c"
    by (simp_all add: built_def get0_def raws_of_def)
  from d have "(\<exists>i \<in> set (RunSelfQuery r). conRaw r i = None) \<longleftrightarrow> \<not> set (Interfaces r) \<subseteq> raws_of c"
    by (auto simp: RunSelfQuery_def)
  with dies_only_without_raw [OF _ assms(2) b] dies_without_raw [OF assms(2) b] t
  have "(\<exists>s. q_reach X r w1 s \<and> q_dead s \<noteq> None) \<longleftrightarrow>
      minQueryDurationCst \<le> QueryTime c \<and> \<not> set (Interfaces r) \<subseteq> raws_of c"
    by (metis option.distinct(1))
  with alt show ?thesis by blast
qed

subsection \<open>Witnesses\<close>

lemma sample_query: "serializeV1or2 sample_externals (the_query r) \<noteq> None"
  by (simp add: sample_externals_def sample_serialize_def)

theorem selfQuery_wire_witness:
  "\<exists>s b. q_reach sample_externals sample_reporter sample_running s \<and>
     wire (q_world s) = [query_dgram sample_externals sample_reporter b OUT] \<and>
     (\<exists>sides. set sides \<subseteq> {IN, OUT} \<and>
        wire (q_world s) = wire sample_running @ map (query_dgram sample_externals sample_reporter
          (the (serializeV1or2 sample_externals (the_query sample_reporter)))) sides)"
proof -
  from sample_query obtain b where b: "serializeV1or2 sample_externals (the_query sample_reporter) = Some b"
    by blast
  have "minQueryDurationCst \<le> get0 0 (TimerDuration sample_reporter) QUERY"
    by (simp add: sample_reporter_def minQueryDurationCst_def Second_def)
  from asks_with_raw [OF sample_io b this, of 1 sample_running] obtain s where
    s: "q_reach sample_externals sample_reporter sample_running s"
      "wire (q_world s) = wire sample_running @ [query_dgram sample_externals sample_reporter b OUT]"
    by (auto simp: RunSelfQuery_def sample_reporter_def)
  from selfQuery_wire [OF sample_constructed s(1)]
  have "\<exists>sides. set sides \<subseteq> {IN, OUT} \<and>
        wire (q_world s) = wire sample_running @ map (query_dgram sample_externals sample_reporter
          (the (serializeV1or2 sample_externals (the_query sample_reporter)))) sides"
    by (auto simp: sample_reporter_def)
  with s show ?thesis by (intro exI [of _ s] exI [of _ b]) (simp add: sample_running_def sample_world_def)
qed

theorem selfQuery_dies_iff_witness:
  "\<exists>s. q_reach sample_externals sample_full_reporter sample_full_running s \<and> q_dead s \<noteq> None"
  using selfQuery_dies_iff [OF sample_full_constructed sample_io sample_query]
  by (simp add: has_alt_def sample_full_def sample_config_def minQueryDurationCst_def Second_def)

end
