(* ===== verification/Telemetry.thy ===== *)
theory Telemetry
  imports Wire
begin

text \<open>
  The metrics of a running system: every counter and summary that is ever touched is touched
  under the right number of label values, and what the constructor registered stays registered,
  so the process cannot construct a second reporter.
\<close>

subsection \<open>Label values\<close>

interpretation labels: world_closed X "\<lambda>_. True" labels_fit for X
  by unfold_locales (auto simp: labels_fit_def still_def bump_def)

text \<open>
  C27: No metric call ever panics. In every state of the running system a counter or summary that
  has been counted up has exactly as many label values as its collector was registered with
  (three, or four for the receivers' collectors), which is what \<open>WithLabelValues\<close> demands: none
  of the calls in the senders, the receivers and the workers mixes the two kinds up.
\<close>
theorem label_values_fit:
  assumes "launched X c s0" and "reachable X s0 s"
  shows "labels_fit (shared s)"
  using labels.base.always_launched [OF assms] by blast

subsection \<open>The registry\<close>

interpretation registry: world_closed X "\<lambda>_. True" "\<lambda>w. set ms \<subseteq> set (registered w)" for X ms
  by unfold_locales (auto simp: still_def)

text \<open>
  C17: A process has at most one reporter. From the moment the constructor has returned, in every
  state of the running system (also after \<open>Run\<close> has returned), constructing another reporter,
  whatever its configuration, panics: the collectors are still registered, and a registry that
  refuses a registered collector makes \<open>promauto\<close> panic. The second constructor changes nothing.
\<close>
theorem second_reporter_panics:
  assumes "refuses_registered X" and "launched X c s0" and "reachable X s0 s"
  shows "NewIGMPReporter X c' (shared s) = (Inl (Panic ''promauto''), shared s)"
proof -
  have m: "metric_pC \<in> set (registered (shared s))"
    using registry.base.always_launched [OF assms(2,3), of reporter_metrics]
    by (auto simp: reporter_metrics_def)
  then have "accepted X (registered (shared s)) reporter_metrics = []"
    using assms(1) by (auto simp: reporter_metrics_def refuses_registered_def)
  with registered_misfit [OF assms(1) m] show ?thesis by (simp add: NewIGMPReporter_apply)
qed

subsection \<open>Witnesses\<close>

lemma sample_refuses: "refuses_registered sample_externals"
  by (auto simp: refuses_registered_def sample_externals_def sample_registry_def)

theorem second_reporter_panics_witness:
  "NewIGMPReporter sample_externals sample_config sample_world = (Inr sample_reporter, sample_running) \<and>
   NewIGMPReporter sample_externals sample_client sample_running = (Inl (Panic ''promauto''), sample_running)"
  using second_reporter_panics [OF sample_refuses launch_sample reachable.refl, of sample_client]
    sample_constructed by (simp add: Run_init_def)

theorem label_values_fit_witness:
  "\<exists>s. reachable sample_externals (Run_init sample_reporter sample_running) s \<and>
     pC (shared s) [''leaveToNetworkWorker'', ''loops'', ''count''] = 1 \<and> labels_fit (shared s)"
proof -
  let ?r = sample_reporter and ?w = sample_running
  let ?s = "(started ?r ?w)\<lparr>procs := (procs (started ?r ?w))
    [4 := \<lparr>task_of = LeavesToNetwork, self = ?r, at_point = Loop\<rparr>]\<rparr>"
  let ?p = "\<lparr>task_of = LeavesToNetwork, self = ?r, at_point = Loop\<rparr>"
  let ?w' = "?w\<lparr>pC := bump [''leaveToNetworkWorker'', ''loops'', ''count''] 1 (pC ?w)\<rparr>"
  have 1: "reachable sample_externals (Run_init ?r ?w) ?s"
    using reach_loop [OF reach_started [of sample_externals ?r ?w], of 4] by (simp add: sample_tasks)
  have "go_step sample_externals False ?p ?w (Inr (?p\<lparr>at_point := Selecting\<rparr>)) ?w'"
    using go_step.head [of ?p ?w "Inr ()" ?w' sample_externals False] by (simp add: incC_def)
  with reach_go [OF 1, of 4 "?p\<lparr>at_point := Selecting\<rparr>" ?w']
  obtain s where s: "reachable sample_externals (Run_init ?r ?w) s" "shared s = ?w'"
    by (auto simp: sample_tasks)
  from label_values_fit [OF launch_sample s(1)] s show ?thesis
    by (intro exI [of _ s]) (simp add: bump_def sample_running_def sample_world_def)
qed

end
