(* ===== verification/Notify.thy ===== *)
theory Notify
  imports Survival
begin

text \<open>
  The books of the notifications. Receivers tell the client about queries and reports without ever
  waiting for it, so a notification may be lost; the counters of \<open>pCrecvIGMP\<close> are what an operator
  has to see it by. They are exact: an interpretation of the locale \<open>world_base\<close>.
\<close>

subsection \<open>The ledger\<close>

definition waiting :: "'a chan option \<Rightarrow> nat" where
  "waiting ch = (case ch of None \<Rightarrow> 0 | Some c \<Rightarrow> length (chQueue c))"

text \<open>\<open>n\<close> values are covered by what the counters say was put into channel \<open>ch\<close>.\<close>

definition covered :: "(labels \<Rightarrow> nat) \<Rightarrow> string \<Rightarrow> nat \<Rightarrow> bool" where
  "covered cnt ch n \<longleftrightarrow> (\<exists>S. finite S \<and> n \<le> (\<Sum>(i, g) \<in> S. cnt [ch, i, g, ''counter'']))"

text \<open>\<open>due\<close> says for which receivers a query was counted that is not yet settled.\<close>

definition ledger :: "Config \<Rightarrow> (string \<times> string \<Rightarrow> nat) \<Rightarrow> world \<Rightarrow> bool" where
  "ledger c due w \<longleftrightarrow>
     (\<forall>i g. pCrecvIGMP w [''QueryNotifyCh'', i, g, ''counter''] +
        pCrecvIGMP w [''QueryNotifyCh'', i, g, ''error''] + due (i, g) =
        (if QueryNotify c then pCrecvIGMP w [''IGMPMembershipQuery'', i, g, ''counter''] else 0)) \<and>
     (\<not> MembershipReportsFromNetwork c \<longrightarrow>
        (\<forall>i g k. pCrecvIGMP w [''MembershipReportFromNetworkCh'', i, g, k] = 0)) \<and>
     covered (pCrecvIGMP w) ''QueryNotifyCh'' (waiting (QueryNotifyCh w)) \<and>
     covered (pCrecvIGMP w) ''MembershipReportFromNetworkCh'' (waiting (MembershipReportFromNetworkCh w))"




lemma ledger_frame [simp]:
  "ledger c due (w\<lparr>wire := d\<rparr>) = ledger c due w" "ledger c due (w\<lparr>pC := n\<rparr>) = ledger c due w"
  "ledger c due (w\<lparr>pH := n\<rparr>) = ledger c due w" "ledger c due (w\<lparr>pHrecvIGMP := n\<rparr>) = ledger c due w"
  "ledger c due (w\<lparr>bytePool := b\<rparr>) = ledger c due w" "ledger c due (w\<lparr>IntOutName := m\<rparr>) = ledger c due w"
  "ledger c due (w\<lparr>MembershipReportToNetworkCh := ch\<rparr>) = ledger c due w"
  "ledger c due (w\<lparr>LeaveToNetworkCh := ch\<rparr>) = ledger c due w"
  "ledger c due (w\<lparr>OutInterfaceSelectorCh := v\<rparr>) = ledger c due w"
  by (simp_all add: ledger_def)

subsection \<open>The receivers' switch keeps the books\<close>










subsection \<open>In every reachable state\<close>


subsection \<open>Witness\<close>







end
