(* ===== verification/SocketUse.thy ===== *)
theory SocketUse
  imports Survival
begin

text \<open>
  Which configurations never touch a missing socket. The constructor opens sockets feature by
  feature, \<open>Run\<close> starts goroutines feature by feature, and the two do not always agree; \<open>spares\<close> is
  the property of an effect that it does not end the process by a nil connection as long as the
  selector table is as the configuration allows.
\<close>

subsection \<open>The configurations\<close>

definition nil_socket :: "fatal \<Rightarrow> bool" where
  "nil_socket e \<longleftrightarrow>
     e \<in> {Panic ''nil *ipv4.PacketConn'', Panic ''nil *ipv4.RawConn'', Panic ''nil net.PacketConn''}"

definition listens :: "Config \<Rightarrow> bool" where
  "listens c \<longleftrightarrow> ProxyOutToIn c \<or> QueryNotify c \<or> MembershipReportsFromNetwork c"

text \<open>
  The alternative outside is only listened on where its groups are joined; leaves are only enabled
  with something that opens the sending socket; and nothing is relayed from the inside where the
  output of the inside may change.
\<close>

definition sockets_suffice :: "Config \<Rightarrow> bool" where
  "sockets_suffice c \<longleftrightarrow>
     (has_alt c \<and> listens c \<longrightarrow> ProxyOutToIn c \<or> MembershipReportsToNetwork c) \<and>
     (has_alt c \<and> listens c \<longrightarrow> \<not> ProxyInToOut c \<and> \<not> UnicastProxyInToOut c) \<and>
     (LeaveToNetwork c \<longrightarrow> OUT \<in> raws_of c)"

subsection \<open>Effects that spare the sockets\<close>

definition table_ok :: "Config \<Rightarrow> (side \<rightharpoonup> side) \<Rightarrow> bool" where
  "table_ok c T \<longleftrightarrow>
     (\<exists>v. T = [OUT \<mapsto> IN, IN \<mapsto> v] \<and> (v = OUT \<or> \<not> ProxyInToOut c \<and> \<not> UnicastProxyInToOut c))"

definition spares :: "Config \<Rightarrow> 'a act \<Rightarrow> bool" where
  "spares c m \<longleftrightarrow> (\<forall>w. table_ok c (IntOutName w) \<longrightarrow>
     (\<forall>x w'. m w = (Inr x, w') \<longrightarrow> table_ok c (IntOutName w')) \<and>
     (\<forall>e w'. m w = (Inl e, w') \<longrightarrow> \<not> nil_socket e))"

lemma spares_Inr: "spares c m \<Longrightarrow> m w = (Inr x, w') \<Longrightarrow> table_ok c (IntOutName w) \<Longrightarrow> table_ok c (IntOutName w')"
  by (auto simp: spares_def)

lemma spares_Inl: "spares c m \<Longrightarrow> m w = (Inl e, w') \<Longrightarrow> table_ok c (IntOutName w) \<Longrightarrow> \<not> nil_socket e"
  by (auto simp: spares_def)

lemma spares_bindE:
  assumes "spares c m" "\<And>w x w'. m w = (Inr x, w') \<Longrightarrow> spares c (f x)"
  shows "spares c (bind m f)"
  unfolding spares_def
proof (intro allI impI)
  fix w :: world assume T: "table_ok c (IntOutName w)"
  obtain res u where m: "m w = (res, u)" by fastforce
  show "(\<forall>x w'. bind m f w = (Inr x, w') \<longrightarrow> table_ok c (IntOutName w')) \<and>
      (\<forall>e w'. bind m f w = (Inl e, w') \<longrightarrow> \<not> nil_socket e)"
  proof (cases res)
    case (Inl e)
    with m spares_Inl [OF assms(1) _ T] show ?thesis by auto
  next
    case (Inr x)
    with m have run: "m w = (Inr x, u)" by simp
    with assms(2) [OF run] spares_Inr [OF assms(1) run T] show ?thesis by (auto simp: spares_def)
  qed
qed

lemma spares_bind: "spares c m \<Longrightarrow> (\<And>x. spares c (f x)) \<Longrightarrow> spares c (bind m f)"
  by (rule spares_bindE)

lemma spares_keeps: "returns m \<Longrightarrow> keeps IntOutName m \<Longrightarrow> spares c m"
  unfolding spares_def returns_def keeps_def by (metis Inl_Inr_False prod.inject snd_conv)

lemma spares_table: "(\<And>T. table_ok c T \<Longrightarrow> spares c (f T)) \<Longrightarrow> spares c (bind (reads IntOutName) f)"
  by (simp add: spares_def)

lemma spares_die: "\<not> nil_socket e \<Longrightarrow> spares c (die e)"
  by (simp add: spares_def)

lemma spares_lift: "(\<And>e. r = Inl e \<Longrightarrow> \<not> nil_socket e) \<Longrightarrow> spares c (lift r)"
  by (simp add: spares_def)

lemma spares_if: "spares c m \<Longrightarrow> spares c m' \<Longrightarrow> spares c (if b then m else m')"
  by simp

lemma spares_option: "spares c m \<Longrightarrow> (\<And>x. spares c (f x)) \<Longrightarrow> spares c (case v of None \<Rightarrow> m | Some x \<Rightarrow> f x)"
  by (cases v) auto

lemma spares_sum: "(\<And>e. spares c (f e)) \<Longrightarrow> (\<And>x. spares c (g x)) \<Longrightarrow>
   spares c (case v of Inl e \<Rightarrow> f e | Inr x \<Rightarrow> g x)"
  by (cases v) auto

lemma spares_list: "spares c m \<Longrightarrow> (\<And>x xs. spares c (f x xs)) \<Longrightarrow>
   spares c (case l of [] \<Rightarrow> m | x # xs \<Rightarrow> f x xs)"
  by (cases l) auto

lemma spares_layer:
  "(\<And>ig. spares c (m1 ig)) \<Longrightarrow> (\<And>grs. spares c (m2 grs)) \<Longrightarrow> spares c m3 \<Longrightarrow>
   spares c (case l of LayerV1or2 ig \<Rightarrow> m1 ig | LayerIGMP grs \<Rightarrow> m2 grs | LayerOther \<Rightarrow> m3)"
  by (cases l) auto

lemma spares_simple [simp]:
  "spares c (ret x)" "spares c (incC l)" "spares c (addC l n)" "spares c (observeH l)" "spares c (incR l)"
  "spares c (addR l n)" "spares c (observeR l)" "spares c (poolPut b)" "spares c (poolGet p)"
  "spares c (readInto b d)" "spares c (reads (\<lambda>w. heap w b))" "spares c (reads (\<lambda>w. length (heap w b)))"
  "spares c (upd (\<lambda>w. w\<lparr>pG := v\<rparr>))"
  by (rule spares_keeps; simp add: keeps_simple keeps_incC keeps_addC keeps_observeH keeps_incR keeps_addR
      keeps_observeR keeps_poolPut keeps_poolGet keeps_readInto keeps_upd)+

lemma spares_seqs: "list_all (spares c) ms \<Longrightarrow> spares c (seqs ms)"
  by (induction ms) (auto intro: spares_bind)

lemma spares_io: "spares c (ioOrFatal X msg)"
  by (auto simp: spares_def ioOrFatal_apply nil_socket_def)

lemmas spares_rules = spares_bind spares_simple spares_if spares_option spares_sum spares_list spares_layer
  spares_seqs spares_io

subsection \<open>Sending\<close>

lemma fatal_header: "ipv4Header X r n d = Inl e \<Longrightarrow> \<not> nil_socket e"
  by (auto simp: ipv4Header_def destinationNetIP_def nil_socket_def split: sum.splits if_splits)

lemma spares_write:
  assumes "conRaw r i \<noteq> None"
  shows "spares c (setWriteDeadline X r i msg)" "spares c (writeTo X r i h p msg)"
  using assms by (auto simp: setWriteDeadline_def writeTo_def intro!: spares_bind spares_io)
    (auto simp: spares_def)

lemma spares_proxy: "conRaw r i \<noteq> None \<Longrightarrow> spares c (proxy X r i d b)"
  unfolding proxy_def
  by (intro spares_rules spares_lift) (auto simp: spares_write dest: fatal_header)

lemma spares_proxyUni: "conRaw r i \<noteq> None \<Longrightarrow> spares c (proxyUniToMultiv1or2 X r i d b)"
  unfolding proxyUniToMultiv1or2_def
  by (intro spares_rules) (auto simp: spares_write)

lemma spares_items:
  assumes "conRaw r i \<noteq> None"
  shows "spares c (sendReport_item X r i m)" "spares c (sendLeave_item X r i m)"
  unfolding sendReport_item_def sendLeave_item_def
  by (intro spares_rules spares_lift spares_die; auto simp: spares_write assms nil_socket_def dest: fatal_header)+

lemma spares_sends:
  "ms = [] \<or> conRaw r i \<noteq> None \<Longrightarrow> spares c (sendMembershipReport X r i ms)"
  "conRaw r i \<noteq> None \<Longrightarrow> spares c (sendLeave X r i ms)"
  unfolding sendMembershipReport_def sendLeave_def
  by (intro spares_seqs; auto simp: list_all_iff simp del: seqs.simps intro!: spares_seqs spares_items)+

subsection \<open>Receiving\<close>

text \<open>A copy of the reporter with the sockets the constructor opens.\<close>

definition outfitted :: "Config \<Rightarrow> IGMPReporter \<Rightarrow> bool" where
  "outfitted c r \<longleftrightarrow> conf r = c \<and> dom (conRaw r) = raws_of c \<and> dom (uCon r) = unis_of c"

lemma outfitted_querier [simp]: "outfitted c (r\<lparr>querierSourceIP := a\<rparr>) = outfitted c r"
  by (simp add: outfitted_def)

lemma built_outfitted: "built c r \<Longrightarrow> outfitted c r"
  by (simp add: built_def outfitted_def)

lemma outfitted_raw: "outfitted c r \<Longrightarrow> i \<in> raws_of c \<Longrightarrow> conRaw r i \<noteq> None"
  by (auto simp: outfitted_def)

lemma output_open:
  assumes "outfitted c r" "table_ok c T" "T i = Some out"
    and "proxyIt r i \<or> UnicastProxyInToOut c \<and> i = IN"
  shows "conRaw r out \<noteq> None"
proof -
  have "out \<in> raws_of c"
    using assms by (auto simp: table_ok_def raws_of_def proxyIt_def outfitted_def split: if_splits)
  with assms(1) show ?thesis by (rule outfitted_raw)
qed

lemma fatal_records: "mapE groupRecord_item grs = Inl e \<Longrightarrow> \<not> nil_socket e"
proof (induction grs)
  case (Cons gr grs)
  have "groupRecord_item gr = Inl e \<Longrightarrow> \<not> nil_socket e"
    by (auto simp: groupRecord_item_def nil_socket_def split: sum.splits)
  with Cons show ?case by (auto split: sum.splits)
qed simp

lemma spares_notify: "spares c (notifyQuery r i g)" "spares c (notifyReports r i g ms)"
proof -
  have "keeps IntOutName (notifyQuery r i g)" "keeps IntOutName (notifyReports r i g ms)"
    by (intro keeps_notifyQuery keeps_notifyReports recv_frames)+
  moreover have "returns (notifyQuery r i g)" "returns (notifyReports r i g ms)"
    using notifyQuery_spec notifyReports_spec unfolding returns_def by (metis surj_pair)+
  ultimately show "spares c (notifyQuery r i g)" "spares c (notifyReports r i g ms)"
    by (simp_all add: spares_keeps)
qed

lemma spares_filter: "spares c (recvIGMP_filter r i g b cm src)"
  unfolding recvIGMP_filter_def ignoreOnNonActiveOutOrAltInterface_def
  by (intro spares_rules spares_table spares_die) (auto simp: nil_socket_def)

lemma spares_switch: "spares c (recvIGMP_switch r i g b m t l)"
  unfolding recvIGMP_switch_def IGMPv3GroupRecordsToMembershipItem_def Let_def
  by (intro spares_rules spares_notify spares_die spares_lift)
    (auto simp: nil_socket_def dest: fatal_records)

lemma spares_recv_proxy:
  assumes "outfitted c r"
  shows "spares c (recvIGMP_proxy X r i g b)"
proof (cases "proxyIt r i")
  case True
  have "spares c (case T i of None \<Rightarrow> bind (seqs [incC [''recvIGMP'', ''Load'', ''error''], poolPut b]) (\<lambda>_. ret False)
      | Some out \<Rightarrow> bind (proxy X r out g b) (\<lambda>_. bind (poolPut b) (\<lambda>_. ret True)))" if T: "table_ok c T" for T
  proof (cases "T i")
    case None
    have "spares c (bind (seqs [incC [''recvIGMP'', ''Load'', ''error''], poolPut b]) (\<lambda>_. ret False))"
      by (intro spares_rules) simp
    with None show ?thesis by (simp del: seqs.simps)
  next
    case (Some out)
    from output_open [OF assms T this] True have "conRaw r out \<noteq> None" by simp
    then have "spares c (bind (proxy X r out g b) (\<lambda>_. bind (poolPut b) (\<lambda>_. ret True)))"
      by (intro spares_bind spares_simple spares_proxy)
    with Some show ?thesis by simp
  qed
  then have "spares c (bind (reads IntOutName) (\<lambda>T. case T i of
        None \<Rightarrow> bind (seqs [incC [''recvIGMP'', ''Load'', ''error''], poolPut b]) (\<lambda>_. ret False)
      | Some out \<Rightarrow> bind (proxy X r out g b) (\<lambda>_. bind (poolPut b) (\<lambda>_. ret True))))"
    by (rule spares_table)
  then show ?thesis
    unfolding recvIGMP_proxy_def using True
    by (simp only: if_True) (rule spares_bind [OF spares_simple(5)], rule spares_bind [OF spares_simple(12)],
      rule spares_bind [OF spares_simple(6)])
qed (simp add: recvIGMP_proxy_def)

lemma spares_after_switch:
  assumes "outfitted c r"
  shows "spares c (bind (recvIGMP_switch r i g b m t l) (\<lambda>sw. case sw of None \<Rightarrow> ret r
     | Some r' \<Rightarrow> bind (recvIGMP_proxy X r' i g b) (\<lambda>finished. if finished then
           bind (seqs [observeR [''sincePacketStartTime'', side_String i, groupString r' g, ''counter''],
                       observeR [''sinceLoopStartTime'', side_String i, groupString r' g, ''counter'']])
             (\<lambda>_. ret r')
         else ret r')))"
proof (rule spares_bindE [OF spares_switch])
  fix w :: world and sw w' assume run: "recvIGMP_switch r i g b m t l w = (Inr sw, w')"
  show "spares c (case sw of None \<Rightarrow> ret r
     | Some r' \<Rightarrow> bind (recvIGMP_proxy X r' i g b) (\<lambda>finished. if finished then
           bind (seqs [observeR [''sincePacketStartTime'', side_String i, groupString r' g, ''counter''],
                       observeR [''sinceLoopStartTime'', side_String i, groupString r' g, ''counter'']])
             (\<lambda>_. ret r')
         else ret r'))"
  proof (cases sw)
    case (Some r')
    with switch_Some [OF run [unfolded Some]] assms have "outfitted c r'" by (auto split: if_splits)
    then have "spares c (bind (recvIGMP_proxy X r' i g b) (\<lambda>finished. if finished then
           bind (seqs [observeR [''sincePacketStartTime'', side_String i, groupString r' g, ''counter''],
                       observeR [''sinceLoopStartTime'', side_String i, groupString r' g, ''counter'']])
             (\<lambda>_. ret r')
         else ret r'))"
      by (intro spares_bind spares_recv_proxy spares_if spares_seqs spares_simple) simp_all
    with Some show ?thesis by simp
  qed simp
qed

lemma spares_packet:
  assumes "outfitted c r"
  shows "spares c (recvIGMP_packet X r i g b m)"
  unfolding recvIGMP_packet_def
  by (rule spares_bind [OF spares_simple(11)], rule spares_list, (rule spares_die, simp add: nil_socket_def),
      rule spares_bind [OF spares_simple(2)], rule spares_option,
      (rule spares_bind, rule spares_seqs, simp, simp), rule spares_after_switch [OF assms])

lemma spares_handle:
  assumes "outfitted c r"
  shows "spares c (recvIGMP_handle X i g b res r)"
proof (cases res)
  case (ReadOk pkt cm src)
  show ?thesis
    unfolding ReadOk recvIGMP_handle_def read_result.case
    by (intro spares_bind spares_simple spares_filter spares_if spares_option spares_packet assms)
qed (simp_all add: recvIGMP_handle_def del: seqs.simps, (intro spares_bind spares_seqs spares_simple; simp)+)

lemma spares_begin:
  "mConn r i g \<noteq> None \<Longrightarrow> spares c (recvIGMP_begin X i g pk r)"
  "uCon r IN \<noteq> None \<Longrightarrow> spares c (recvUnicast_begin X pk r)"
  unfolding recvIGMP_begin_def recvUnicast_begin_def
  by (auto intro!: spares_bind spares_io simp: spares_simple)

lemma spares_dispatch:
  assumes "conRaw r out \<noteq> None"
  shows "spares c (recvUnicast_dispatch X r out b t l)"
proof -
  have "spares c (sendIGMPv1or2 X r out l b)" "spares c (sendIGMPv3 X r out b)" "spares c (sendIGMPLeave X r out b)"
    unfolding sendIGMPv1or2_def sendIGMPv3_def sendIGMPLeave_def
    by (intro spares_layer spares_bind spares_proxy spares_proxyUni assms spares_die spares_simple;
        simp add: nil_socket_def)+
  then show ?thesis unfolding recvUnicast_dispatch_def by (intro spares_if spares_simple)
qed

lemma spares_process:
  assumes "outfitted c r" "UnicastProxyInToOut c"
  shows "spares c (recvUnicast_process X r IN b)"
proof -
  have lookup: "spares c (bind (reads IntOutName) (\<lambda>tab. case tab IN of
       None \<Rightarrow> seqs [incC [''recvUnicastIGMP'', ''Load'', ''error''], poolPut b]
     | Some out \<Rightarrow>
         seqs [recvUnicast_dispatch X r out b t l,
               observeH [''recvUnicastIGMP'', ''sincePacketStartTime'', ''counter''],
               observeH [''recvUnicastIGMP'', ''sinceLoopStartTime'', ''counter'']]))" for t l
  proof (rule spares_table)
    fix T assume T: "table_ok c T"
    show "spares c (case T IN of
       None \<Rightarrow> seqs [incC [''recvUnicastIGMP'', ''Load'', ''error''], poolPut b]
     | Some out \<Rightarrow>
         seqs [recvUnicast_dispatch X r out b t l,
               observeH [''recvUnicastIGMP'', ''sincePacketStartTime'', ''counter''],
               observeH [''recvUnicastIGMP'', ''sinceLoopStartTime'', ''counter'']])"
    proof (cases "T IN")
      case None
      have "spares c (seqs [incC [''recvUnicastIGMP'', ''Load'', ''error''], poolPut b])"
        by (rule spares_seqs) simp
      with None show ?thesis by (simp del: seqs.simps)
    next
      case (Some out)
      from output_open [OF assms(1) T this] assms(2) have "conRaw r out \<noteq> None" by simp
      then have "spares c (seqs [recvUnicast_dispatch X r out b t l,
               observeH [''recvUnicastIGMP'', ''sincePacketStartTime'', ''counter''],
               observeH [''recvUnicastIGMP'', ''sinceLoopStartTime'', ''counter'']])"
        using spares_dispatch by (intro spares_seqs) simp
      with Some show ?thesis by (simp del: seqs.simps)
    qed
  qed
  have undecoded: "spares c (seqs [incC [''recvUnicastIGMP'', ''deserializing'', ''error''], poolPut b])"
    by (rule spares_seqs) simp
  show ?thesis
    unfolding recvUnicast_process_def
    by (rule spares_bind [OF spares_simple(11)], rule spares_list, (rule spares_die, simp add: nil_socket_def),
      rule spares_bind [OF spares_simple(2)], rule spares_option, rule undecoded, rule lookup)
qed

lemma spares_unicast_handle:
  assumes "outfitted c r" "UnicastProxyInToOut c"
  shows "spares c (recvUnicast_handle X IN b res r)"
proof (cases res)
  case (ReadOk pkt cm src)
  show ?thesis
    unfolding ReadOk recvUnicast_handle_def read_result.case
    by (intro spares_bind spares_simple spares_process assms)
next
  case ReadError
  show ?thesis
    unfolding ReadError recvUnicast_handle_def read_result.case
    by (intro spares_bind spares_simple spares_process assms)
next
  case ReadTimeout
  show ?thesis
    unfolding ReadTimeout recvUnicast_handle_def read_result.case
    by (intro spares_seqs) simp
qed

subsection \<open>Goroutines\<close>

text \<open>The tasks a configuration starts that the sockets of the reporter are enough for.\<close>

definition equipped :: "Config \<Rightarrow> IGMPReporter \<Rightarrow> task \<Rightarrow> bool" where
  "equipped c r t \<longleftrightarrow> (case t of
       RecvIGMP i g \<Rightarrow> mConn r i g \<noteq> None
     | RecvUnicast i \<Rightarrow> i = IN \<and> UnicastProxyInToOut c \<and> uCon r IN \<noteq> None
     | OutSelector \<Rightarrow> \<not> ProxyInToOut c \<and> \<not> UnicastProxyInToOut c
     | ReportsToNetwork \<Rightarrow> conRaw r OUT \<noteq> None
     | LeavesToNetwork \<Rightarrow> conRaw r OUT \<noteq> None
     | _ \<Rightarrow> True)"

lemma equipped_querier [simp]: "equipped c (r\<lparr>querierSourceIP := a\<rparr>) t = equipped c r t"
  by (cases t) (simp_all add: equipped_def mConn_copy)

lemma tasks_equipped:
  assumes "built c r" "sockets_suffice c" "t \<in> set (tasks_of r)"
  shows "equipped c r t"
proof (cases t)
  case (RecvIGMP i g)
  with assms(3) tasks_sides [OF assms(1)] have g: "g \<in> set the_multicastGroups"
    and i: "i = OUT \<and> listens c \<or> i = ALTOUT \<and> has_alt c \<and> listens c \<or> i = IN \<and> ProxyInToOut c"
    by (auto simp: listens_def)
  from i assms(2) have "i \<in> joins_of c" by (auto simp: joins_of_def sockets_suffice_def listens_def)
  with mConn_opened [OF assms(1) g] RecvIGMP show ?thesis by (simp add: equipped_def)
next
  case OutSelector
  with assms have "has_alt c" "listens c"
    by (auto simp: tasks_of_def built_def listens_def split: if_splits)
  with assms(2) OutSelector show ?thesis by (simp add: equipped_def sockets_suffice_def)
next
  case (RecvUnicast i)
  with assms(1,3) have "i = IN" "UnicastProxyInToOut c" "IN \<in> dom (uCon r)"
    by (auto simp: tasks_of_def built_def unis_of_def split: if_splits)
  with RecvUnicast show ?thesis by (auto simp: equipped_def)
next
  case ReportsToNetwork
  with assms(1,3) have "OUT \<in> dom (conRaw r)"
    by (auto simp: tasks_of_def built_def raws_of_def split: if_splits)
  with ReportsToNetwork show ?thesis by (auto simp: equipped_def)
next
  case LeavesToNetwork
  with assms have "OUT \<in> dom (conRaw r)"
    by (auto simp: tasks_of_def built_def sockets_suffice_def split: if_splits)
  with LeavesToNetwork show ?thesis by (auto simp: equipped_def)
qed (simp_all add: equipped_def)

lemma spares_bodies:
  "groups = [] \<or> conRaw r OUT \<noteq> None \<Longrightarrow> spares c (readMembershipReportToNetworkCh_body X r groups)"
  "conRaw r OUT \<noteq> None \<Longrightarrow> spares c (leaveToNetworkWorker_body X r groups)"
  "spares c (connectQueryToReport_body X r)"
  "spares c (testingReadMembershipReportsFromNetwork_body groups)"
  unfolding readMembershipReportToNetworkCh_body_def leaveToNetworkWorker_body_def connectQueryToReport_body_def
    testingReadMembershipReportsFromNetwork_body_def Let_def
  by (simp_all add: spares_seqs spares_sends del: seqs.simps)

lemma spares_selector:
  assumes "\<not> ProxyInToOut c" "\<not> UnicastProxyInToOut c"
  shows "spares c (outInterfaceSelector_body v)"
  using assms by (auto simp: spares_def outInterfaceSelector_body_def table_ok_def incC_def observeH_def)

text \<open>An outcome that spares the sockets: no missing socket was used, and the table is as it may be.\<close>

definition spared :: "Config \<Rightarrow> fatal + 'a \<Rightarrow> world \<Rightarrow> bool" where
  "spared c res w \<longleftrightarrow> (case res of Inl e \<Rightarrow> \<not> nil_socket e | Inr _ \<Rightarrow> table_ok c (IntOutName w))"

lemma sparedI: "spares c m \<Longrightarrow> table_ok c (IntOutName w) \<Longrightarrow> m w = (res, w') \<Longrightarrow> spared c res w'"
  by (auto simp: spared_def split: sum.split dest: spares_Inr spares_Inl)

lemma spared_map [simp]: "spared c (map_sum id f res) w = spared c res w"
  by (cases res) (simp_all add: spared_def)

lemma spared_body:
  assumes "then_body body t = Some (res, w')" "\<And>x. spares c (body x)"
    and "\<And>x u. t = Some (x, u) \<Longrightarrow> table_ok c (IntOutName u)"
  shows "spared c res w'"
proof -
  from assms(1) obtain x u where t: "t = Some (x, u)" "body x u = (res, w')"
    by (auto simp: then_body_Some)
  from sparedI [OF assms(2) assms(3) [OF t(1)] t(2)] show ?thesis .
qed

lemma take_table:
  assumes "take_now get put w = Some (x, w') \<or> take_parked get put w = Some (x, w')"
    and "table_ok c (IntOutName w)" "\<And>f. IntOutName (put f w) = IntOutName w"
  shows "table_ok c (IntOutName w')"
  using assms by (auto dest!: take_now_op take_parked_op)

lemmas take_table_now = take_table [OF disjI1]
lemmas take_table_parked = take_table [OF disjI2]

lemma spared_receive:
  assumes "equipped c r t" "table_ok c (IntOutName w)"
  shows "receive_now X t r w = Some (res, w') \<Longrightarrow> spared c res w'"
    and "receive_parked X t r w = Some (res, w') \<Longrightarrow> spared c res w'"
  using assms
  by (cases t; force simp: equipped_def elim!: spared_body
      intro: spares_bodies spares_selector take_table_now take_table_parked)+

lemma spared_step:
  assumes "go_step X d p w q w'" "equipped c (self p) (task_of p)" "outfitted c (self p)"
    and "table_ok c (IntOutName w)"
  shows "spared c q w'"
  using assms(1)
proof cases
  case (start r)
  have "spares c (start_action (task_of p) (self p))"
    by (cases "task_of p")
      (auto simp: recvUnicast_start_def nil_socket_def intro!: spares_die split: option.split)
  with start assms(4) show ?thesis by (simp add: sparedI)
next
  case (begin_recv s g pick r)
  with assms(2) have "spares c (recvIGMP_begin X s g pick (self p))"
    by (intro spares_begin) (simp add: equipped_def)
  with begin_recv assms(4) show ?thesis by (simp add: sparedI)
next
  case (handle_recv b s g res r)
  with sparedI [OF spares_handle [OF assms(3)] assms(4)] show ?thesis by simp
next
  case (begin_unicast s pick r)
  with assms(2) have "spares c (recvUnicast_begin X pick (self p))"
    by (intro spares_begin) (simp add: equipped_def)
  with begin_unicast assms(4) show ?thesis by (simp add: sparedI)
next
  case (handle_unicast b s res r)
  with assms(2) have "s = IN" "UnicastProxyInToOut c" by (simp_all add: equipped_def)
  with sparedI [OF spares_unicast_handle [OF assms(3)] assms(4)] handle_unicast show ?thesis by simp
next
  case (head r)
  have "spares c (head_action (task_of p))" by (cases "task_of p") simp_all
  with head assms(4) show ?thesis by (simp add: sparedI)
next
  case (select_recv r)
  with spared_receive(1) [OF assms(2,4)] show ?thesis by simp
next
  case (wake_recv r)
  with spared_receive(2) [OF assms(2,4)] show ?thesis by simp
next
  case select_wait
  then show ?thesis using assms(4)
    by (cases "task_of p") (auto simp: spared_def dest!: park_on_op)
next
  case wake_done
  then show ?thesis using assms(4)
    by (cases "task_of p") (auto simp: spared_def dest!: unpark_on_op)
qed (use assms(4) in \<open>simp_all add: spared_def\<close>)

subsection \<open>The system\<close>

definition unharmed :: "Config \<Rightarrow> sys \<Rightarrow> bool" where
  "unharmed c s \<longleftrightarrow>
     built c (reporter s) \<and> sockets_suffice c \<and> copies_ok s \<and> accounting s \<and>
     (case dead s of None \<Rightarrow> table_ok c (IntOutName (shared s)) | Some e \<Rightarrow> \<not> nil_socket e)"

lemma unharmed_goroutine:
  assumes "unharmed c s" "i < length (procs s)" "dead s = None"
    and "go_step X (cancelled s) (procs s ! i) (shared s) q w'"
  shows "spared c q w'"
proof -
  from assms(1) have b: "built c (reporter s)" and c: "sockets_suffice c" and cp: "copies_ok s"
    and ac: "accounting s" and t: "table_ok c (IntOutName (shared s))"
    using assms(3) by (simp_all add: unharmed_def)
  from proc_copy [OF cp assms(2)] obtain a where me: "self (procs s ! i) = (reporter s)\<lparr>querierSourceIP := a\<rparr>"
    by (auto simp: copy_ok_def)
  have "equipped c (reporter s) (task_of (procs s ! i))"
    by (rule tasks_equipped [OF b c proc_task [OF ac assms(2)]])
  with spared_step [OF assms(4) _ _ t] built_outfitted [OF b] show ?thesis by (simp add: me)
qed

lemma client_table:
  "client_step w w' \<Longrightarrow> IntOutName w' = IntOutName w"
  "client_wait (w, q, n) (w', q', n') \<Longrightarrow> IntOutName w' = IntOutName w"
  by (erule client_stepE; auto dest!: take_now_op)
    (erule client_waitE; auto dest!: take_parked_op park_on_op unpark_on_op)

interpretation unharmed: sys_invariant X "unharmed c" for X c
proof
  fix s s' assume J: "unharmed c s" and st: "sys_step X s s'"
  then have inv: "copies_ok s'" "accounting s'"
    using copies.step [OF _ st] account.step [OF _ st] by (simp_all add: unharmed_def)
  from sys_step_reporter [OF st] J have rep: "built c (reporter s')" "sockets_suffice c"
    by (simp_all add: unharmed_def)
  from st have "case dead s' of None \<Rightarrow> table_ok c (IntOutName (shared s')) | Some e \<Rightarrow> \<not> nil_socket e"
  proof cases
    case (go i q w')
    from unharmed_goroutine [OF J go(3,2,4)] go show ?thesis by (simp add: spared_def)
  next
    case (die i e w')
    from unharmed_goroutine [OF J die(3,2,4)] die show ?thesis by (simp add: spared_def)
  qed (use J in \<open>auto simp: unharmed_def client_table\<close>)
  with inv rep show "unharmed c s'" by (simp add: unharmed_def)
qed

text \<open>
  C12: Which configurations have the sockets they need. If the alternative outside interface is
  only listened on where its groups are joined, nothing is relayed from the inside where its
  output may change, and leaves are enabled together with something that opens the sending socket,
  then the program never uses a socket that the constructor did not open: whatever the packets, the
  client and the interleaving, no reachable state has died of a missing connection.
\<close>
theorem needed_sockets_open:
  assumes "launched X c s0" and "reachable X s0 s" and "sockets_suffice c"
  shows "\<forall>e. dead s = Some e \<longrightarrow> \<not> nil_socket e"
proof -
  from assms(1) obtain r w where s0: "s0 = Run_init r w" "built c r" "built_world c w"
    by (rule launched_boot)
  then have "unharmed c s0"
    using assms(3) by (auto simp: unharmed_def Run_init_def copies_ok_def accounting_def live_def
        table_ok_def built_world_def)
  from unharmed.always [OF assms(2) this] show ?thesis by (auto simp: unharmed_def)
qed

subsection \<open>Witness\<close>

text \<open>A packet without a control message ends the sample run, but not by a missing connection.\<close>
theorem needed_sockets_open_witness:
  "\<exists>s e. reachable sample_externals (Run_init sample_reporter sample_running) s \<and> dead s = Some e \<and>
     \<not> nil_socket e"
proof -
  let ?X = "sample_externals" and ?init = "Run_init sample_reporter sample_running"
    and ?st = "started sample_reporter sample_running"
  have sock: "mConn sample_reporter OUT allHosts \<noteq> None"
    by (simp add: mConn_def groupAddr_def receiver_defs sample_joins_def)
  obtain b w where r: "reachable ?X ?init (?st\<lparr>procs := (procs ?st)[0 := (procs ?st ! 0)\<lparr>at_point := Reading b\<rparr>],
      shared := w\<rparr>)" (is "reachable _ _ ?a")
    by (rule reach_reading [OF reach_started [of ?X sample_reporter sample_running], where i = 0 and sd = OUT
        and g = allHosts]) (simp_all add: sample_tasks sample_io sock)
  have p0: "procs ?a ! 0 = \<lparr>task_of = RecvIGMP OUT allHosts, self = sample_reporter, at_point = Reading b\<rparr>"
    "0 < length (procs ?a)"
    by (simp_all add: sample_tasks)
  have "\<not> AltOutExists sample_reporter" by (simp add: receiver_defs)
  then obtain w' where h: "recvIGMP_handle ?X OUT allHosts b (ReadOk sample_read None (GAddr (IPAddrP [10, 0, 0, 7] [])))
      sample_reporter w = (Inl (Panic ''nil *ipv4.ControlMessage''), w')"
    by (simp add: recvIGMP_handle_def readInto_def addR_def recvIGMP_filter_def bind_apply)
  have "go_step ?X False (procs ?a ! 0) w (Inl (Panic ''nil *ipv4.ControlMessage'')) w'"
    using go_step.handle_recv [of "\<lparr>task_of = RecvIGMP OUT allHosts, self = sample_reporter, at_point = Reading b\<rparr>"
      b OUT allHosts ?X _ w _ w' False] h unfolding p0 by fastforce
  then have "sys_step ?X ?a (?a\<lparr>shared := w', dead := Some (Panic ''nil *ipv4.ControlMessage'')\<rparr>)"
    using p0(2) by (intro die [where i = 0]) simp_all
  then have reach: "reachable ?X ?init (?a\<lparr>shared := w', dead := Some (Panic ''nil *ipv4.ControlMessage'')\<rparr>)"
    by (rule reachable.step [OF r])
  have "sockets_suffice sample_config"
    by (simp add: sockets_suffice_def has_alt_def raws_of_def sample_config_def)
  from needed_sockets_open [OF launch_sample reach this] reach show ?thesis by fastforce
qed

end
