(* ===== verification/Delivery.thy ===== *)
theory Delivery
  imports Contract
begin

text \<open>
  What becomes of the batches a client hands to the reporter. For a reporter that only listens and
  sends for its client (no proxying), every step of the running system either leaves the wire and
  the queues of the two client channels alone, or takes the oldest batch off one of them and says
  exactly that batch on the wire.
\<close>

subsection \<open>The queues of the client's channels\<close>

definition items_of :: "'a chan option \<Rightarrow> 'a list" where
  "items_of ch = (case ch of None \<Rightarrow> [] | Some c \<Rightarrow> chQueue c)"

lemma items_of_simps [simp]: "items_of None = []" "items_of (Some c) = chQueue c"
  by (simp_all add: items_of_def)

abbreviation to_report :: "world \<Rightarrow> MembershipItem list list" where
  "to_report w \<equiv> items_of (MembershipReportToNetworkCh w)"

abbreviation to_leave :: "world \<Rightarrow> MembershipItem list list" where
  "to_leave w \<equiv> items_of (LeaveToNetworkCh w)"

definition says_report :: "externals \<Rightarrow> IGMPReporter \<Rightarrow> MembershipItem list \<Rightarrow> datagram list \<Rightarrow> bool" where
  "says_report X r = list_all2 (announces X r OUT IGMPMembershipReportV2
       (if UnicastMembershipReports (conf r) then QueryHost else IGMPHosts))"

definition says_leave :: "externals \<Rightarrow> IGMPReporter \<Rightarrow> MembershipItem list \<Rightarrow> datagram list \<Rightarrow> bool" where
  "says_leave X r = list_all2 (announces X r OUT IGMPLeaveGroup
       (if UnicastMembershipReports (conf r) then QueryHost else allRouters))"

definition delivers :: "externals \<Rightarrow> IGMPReporter \<Rightarrow> world \<Rightarrow> world \<Rightarrow> bool" where
  "delivers X r w w' \<longleftrightarrow>
     (wire w' = wire w \<and> to_report w' = to_report w \<and> to_leave w' = to_leave w) \<or>
     (\<exists>b ds. to_report w = b # to_report w' \<and> to_leave w' = to_leave w \<and>
        wire w' = wire w @ ds \<and> says_report X r b ds) \<or>
     (\<exists>b ds. to_leave w = b # to_leave w' \<and> to_report w' = to_report w \<and>
        wire w' = wire w @ ds \<and> says_leave X r b ds)"

lemma delivers_same:
  "wire w' = wire w \<Longrightarrow> MembershipReportToNetworkCh w' = MembershipReportToNetworkCh w \<Longrightarrow>
   LeaveToNetworkCh w' = LeaveToNetworkCh w \<Longrightarrow> delivers X r w w'"
  by (simp add: delivers_def)

subsection \<open>A worker's turn\<close>

lemma report_body_delivers:
  assumes "readMembershipReportToNetworkCh_body X r b w = (Inr (), w')"
  shows "\<exists>ds. wire w' = wire w @ ds \<and> says_report X r b ds" "to_report w' = to_report w" "to_leave w' = to_leave w"
proof -
  from assms obtain u where u: "sendMembershipReport X r OUT b w = (Inr (), u)"
      "w' = u\<lparr>pH := bump [''readMembershipReportToNetworkCh'', ''loop'', ''complete''] 1 (pH u)\<rparr>"
    by (auto simp: readMembershipReportToNetworkCh_body_def bind_eq_Inr observeH_def)
  from report_emits [OF u(1)] u(2)
  show "\<exists>ds. wire w' = wire w @ ds \<and> says_report X r b ds" by (simp add: says_report_def)
  show "to_report w' = to_report w" "to_leave w' = to_leave w"
    using keepsD [OF keeps_sendMembershipReport [of MembershipReportToNetworkCh] u(1)]
      keepsD [OF keeps_sendMembershipReport [of LeaveToNetworkCh] u(1)] u(2) by simp_all
qed

lemma leave_body_delivers:
  assumes "leaveToNetworkWorker_body X r b w = (Inr (), w')"
  shows "\<exists>ds. wire w' = wire w @ ds \<and> says_leave X r b ds" "to_report w' = to_report w" "to_leave w' = to_leave w"
proof -
  from assms obtain u where u: "sendLeave X r OUT b w = (Inr (), u)"
      "w' = u\<lparr>pH := bump [''leaveToNetworkWorker'', ''loop'', ''complete''] 1 (pH u)\<rparr>"
    by (auto simp: leaveToNetworkWorker_body_def bind_eq_Inr observeH_def)
  from leave_emits [OF u(1)] u(2)
  show "\<exists>ds. wire w' = wire w @ ds \<and> says_leave X r b ds" by (simp add: says_leave_def)
  show "to_report w' = to_report w" "to_leave w' = to_leave w"
    using keepsD [OF keeps_sendLeave [of MembershipReportToNetworkCh] u(1)]
      keepsD [OF keeps_sendLeave [of LeaveToNetworkCh] u(1)] u(2) by simp_all
qed

text \<open>An uncontended receive takes the oldest batch; one that ends a wait always does.\<close>

lemma take_now_oldest:
  assumes "take_now get put w = Some (b, w')" "\<And>c. get w = Some c \<Longrightarrow> chWaiting c = 0"
  shows "\<exists>c q. get w = Some c \<and> chQueue c = b # q \<and> w' = put (\<lambda>_. Some (c\<lparr>chQueue := q\<rparr>)) w"
  using assms by (auto simp: take_now_def recv_now_fifo split: option.splits)

lemma take_parked_oldest:
  assumes "take_parked get put w = Some (b, w')"
  shows "\<exists>c q k. get w = Some c \<and> chQueue c = b # q \<and>
     w' = put (\<lambda>_. Some (c\<lparr>chQueue := q, chWaiting := k\<rparr>)) w"
  using assms by (auto simp: take_parked_def recv_parked_fifo split: option.splits)

lemma worker_delivers:
  assumes "t = ReportsToNetwork \<or> t = LeavesToNetwork"
    and "receive_now X t r w = Some (Inr (), w') \<and> blocked w t \<in> {None, Some 0} \<or>
         receive_parked X t r w = Some (Inr (), w')"
  shows "delivers X r w w'"
  using assms(1)
proof
  assume t: "t = ReportsToNetwork"
  obtain b c q k where c: "MembershipReportToNetworkCh w = Some c" "chQueue c = b # q"
    and run: "readMembershipReportToNetworkCh_body X r b
        (w\<lparr>MembershipReportToNetworkCh := Some (c\<lparr>chQueue := q, chWaiting := k\<rparr>)\<rparr>) = (Inr (), w')"
    using assms(2)
  proof
    assume "receive_now X t r w = Some (Inr (), w') \<and> blocked w t \<in> {None, Some 0}"
    then obtain b w1 where "take_now MembershipReportToNetworkCh MembershipReportToNetworkCh_update w = Some (b, w1)"
        "readMembershipReportToNetworkCh_body X r b w1 = (Inr (), w')"
        "\<And>c. MembershipReportToNetworkCh w = Some c \<Longrightarrow> chWaiting c = 0"
      by (auto simp: t then_body_Some blocked_def load_def)
    with take_now_oldest [OF this(1,3)] that show thesis by (metis chan.surjective chan.update_convs(2,3))
  next
    assume "receive_parked X t r w = Some (Inr (), w')"
    then obtain b w1 where "take_parked MembershipReportToNetworkCh MembershipReportToNetworkCh_update w = Some (b, w1)"
        "readMembershipReportToNetworkCh_body X r b w1 = (Inr (), w')"
      by (auto simp: t then_body_Some)
    with take_parked_oldest [OF this(1)] that show thesis by blast
  qed
  from report_body_delivers [OF run] c show ?thesis by (auto simp: delivers_def)
next
  assume t: "t = LeavesToNetwork"
  obtain b c q k where c: "LeaveToNetworkCh w = Some c" "chQueue c = b # q"
    and run: "leaveToNetworkWorker_body X r b
        (w\<lparr>LeaveToNetworkCh := Some (c\<lparr>chQueue := q, chWaiting := k\<rparr>)\<rparr>) = (Inr (), w')"
    using assms(2)
  proof
    assume "receive_now X t r w = Some (Inr (), w') \<and> blocked w t \<in> {None, Some 0}"
    then obtain b w1 where "take_now LeaveToNetworkCh LeaveToNetworkCh_update w = Some (b, w1)"
        "leaveToNetworkWorker_body X r b w1 = (Inr (), w')"
        "\<And>c. LeaveToNetworkCh w = Some c \<Longrightarrow> chWaiting c = 0"
      by (auto simp: t then_body_Some blocked_def load_def)
    with take_now_oldest [OF this(1,3)] that show thesis by (metis chan.surjective chan.update_convs(2,3))
  next
    assume "receive_parked X t r w = Some (Inr (), w')"
    then obtain b w1 where "take_parked LeaveToNetworkCh LeaveToNetworkCh_update w = Some (b, w1)"
        "leaveToNetworkWorker_body X r b w1 = (Inr (), w')"
      by (auto simp: t then_body_Some)
    with take_parked_oldest [OF this(1)] that show thesis by blast
  qed
  from leave_body_delivers [OF run] c show ?thesis by (auto simp: delivers_def)
qed

text \<open>The other workers touch neither.\<close>

definition no_proxy :: "Config \<Rightarrow> bool" where
  "no_proxy c \<longleftrightarrow> \<not> ProxyOutToIn c \<and> \<not> ProxyInToOut c \<and> \<not> UnicastProxyInToOut c"

abbreviation client_view where
  "client_view w \<equiv> (wire w, MembershipReportToNetworkCh w, LeaveToNetworkCh w)"

lemma delivers_view: "client_view w' = client_view w \<Longrightarrow> delivers X r w w'"
  by (simp add: delivers_same)

lemma others_quiet:
  assumes "t \<notin> {ReportsToNetwork, LeavesToNetwork}"
    and "receive_now X t r w = Some (Inr (), w') \<or> receive_parked X t r w = Some (Inr (), w')"
  shows "client_view w' = client_view w"
  using assms
  by (cases t)
    (auto simp: then_body_Some take_now_def take_parked_def outInterfaceSelector_body_def
      connectQueryToReport_body_def sendMembershipReport_def testingReadMembershipReportsFromNetwork_body_def
      incC_def observeH_def split: option.splits)

lemma begin_quiet:
  "recvIGMP_begin X i g pk r w = (x, w') \<Longrightarrow> client_view w' = client_view w"
proof -
  have q: "keeps client_view (incC l)" "keeps client_view (incR l)" "keeps client_view (poolGet pk)"
    "keeps client_view (ioOrFatal X msg)" for l k kd msg
    by (simp_all add: keeps_incC keeps_incR keeps_poolGet keeps_ioOrFatal)
  have "keeps client_view (recvIGMP_begin X i g pk r)"
    unfolding recvIGMP_begin_def by (intro keeps_bind keeps_option keeps_simple q)+
  from keepsD [OF this] show "recvIGMP_begin X i g pk r w = (x, w') \<Longrightarrow> client_view w' = client_view w"
    by fastforce
qed

lemma handle_quiet:
  assumes "recvIGMP_handle X i g b res r w = (Inr r', w')" "g \<noteq> QueryHost" "no_proxy (conf r)"
  shows "client_view w' = client_view w"
proof -
  have "\<not> proxyIt r i" using assms(3) by (simp add: proxyIt_def no_proxy_def)
  with handle_emits [OF assms(1,2)] have "wire w' = wire w" by blast
  with keepsD [OF keeps_handle assms(1), of MembershipReportToNetworkCh]
    keepsD [OF keeps_handle assms(1), of LeaveToNetworkCh] show ?thesis by simp
qed

lemma wait_quiet:
  "park_task t w = Some w' \<or> unpark_task t w = Some w' \<Longrightarrow>
     wire w' = wire w \<and> to_report w' = to_report w \<and> to_leave w' = to_leave w"
  by (cases t) (auto simp: park_on_def unpark_on_def park_def unpark_def split: option.splits if_splits)

lemma head_quiet: "head_action t w = (x, w') \<Longrightarrow> client_view w' = client_view w"
  by (cases t) (auto simp: incC_def)

lemma go_step_delivers:
  assumes g: "go_step X d p w (Inr q) w'" and t: "task_of p \<in> set (tasks_of r)" and c: "copy_ok r p"
    and groups: "multicastGroups r = the_multicastGroups" and np: "no_proxy (conf r)"
    and free: "at_point p = Selecting \<Longrightarrow> task_of p \<in> {ReportsToNetwork, LeavesToNetwork} \<Longrightarrow>
      blocked w (task_of p) \<in> {None, Some 0}"
  shows "delivers X r w w'"
proof -
  have worker: "delivers X r w w'"
    if "\<not> is_receiver (task_of p)"
      "receive_now X (task_of p) (self p) w = Some (Inr (), w') \<and> at_point p = Selecting \<or>
       receive_parked X (task_of p) (self p) w = Some (Inr (), w')"
  proof -
    from that(1) c have "self p = r" by (cases "task_of p") (auto simp: copy_ok_def)
    with that(2) free worker_delivers [of "task_of p" X r w w'] others_quiet [of "task_of p" X r w w']
    show ?thesis by (cases "task_of p \<in> {ReportsToNetwork, LeavesToNetwork}") (auto intro: delivers_view)
  qed
  from g show ?thesis
  proof cases
    case (start x)
    with start_same show ?thesis by (metis delivers_same)
  next
    case (begin_recv i g pick x)
    from begin_quiet [OF begin_recv(5)] show ?thesis by (rule delivers_view)
  next
    case (handle_recv b i g res x)
    then obtain me where run: "recvIGMP_handle X i g b res (self p) w = (Inr me, w')" by (cases x) auto
    from t handle_recv groups have "g \<noteq> QueryHost" by (metis tasks_groups group_not_query)
    moreover from c have "conf (self p) = conf r" by (auto simp: copy_ok_def)
    ultimately show ?thesis using handle_quiet [OF run] np by (intro delivers_view) simp
  next
    case (begin_unicast i pick x)
    with t np show ?thesis by (auto simp: tasks_of_def no_proxy_def split: if_splits)
  next
    case (handle_unicast b i res x)
    with t np show ?thesis by (auto simp: tasks_of_def no_proxy_def split: if_splits)
  next
    case (head x)
    from head_quiet [OF head(4)] show ?thesis by (rule delivers_view)
  next
    case (select_recv x)
    then have "\<not> is_receiver (task_of p)" by (cases "task_of p") auto
    with worker select_recv show ?thesis by (cases x) auto
  next
    case select_wait
    with wait_quiet show ?thesis by (metis delivers_def)
  next
    case (wake_recv x)
    then have "\<not> is_receiver (task_of p)" by (cases "task_of p") auto
    with worker wake_recv show ?thesis by (cases x) auto
  next
    case wake_done
    with wait_quiet show ?thesis by (metis delivers_def)
  qed (simp_all add: delivers_same)
qed

subsection \<open>A step of the system\<close>

text \<open>
  Each worker is started at most once, so a worker at its \<open>select\<close> is the only one that could be
  blocked on its channel.
\<close>

lemma filter_receivers [simp]: "filter (\<lambda>t. \<not> is_receiver t) (map (RecvIGMP s) gs) = []"
  by (simp add: filter_map comp_def)

lemma filter_if: "filter P (if b then xs else ys) = (if b then filter P xs else filter P ys)"
  by simp

lemma worker_once: "distinct (filter (\<lambda>t. \<not> is_receiver t) (tasks_of r))"
proof -
  have "distinct ((if a then [OutSelector] else []) @ (if b then [ReportsToNetwork] else []) @
      (if c then [LeavesToNetwork] else []) @ (if d then [QueryToReport] else []) @
      (if e then [ReadReports] else []))" for a b c d e
    by simp
  moreover obtain a where "filter (\<lambda>t. \<not> is_receiver t) (tasks_of r) =
      (if a then [OutSelector] else []) @ (if MembershipReportsToNetwork (conf r) then [ReportsToNetwork] else []) @
      (if LeaveToNetwork (conf r) then [LeavesToNetwork] else []) @
      (if ConnectQueryToReport (Testing (conf r)) then [QueryToReport] else []) @
      (if MembershipReportsReader (Testing (conf r)) then [ReadReports] else [])"
  proof (rule that [of "(ProxyOutToIn (conf r) \<or> QueryNotify (conf r) \<or> MembershipReportsFromNetwork (conf r)) \<and> AltOutExists r"])
  qed (simp add: tasks_of_def filter_if cong: if_cong)
  ultimately show ?thesis by metis
qed

lemma distinct_filter_nth:
  assumes "distinct (filter P xs)" "i < length xs" "j < length xs" "xs ! i = xs ! j" "P (xs ! i)"
  shows "i = j"
  using assms
proof (induction xs arbitrary: i j)
  case (Cons x xs)
  then have d: "distinct (filter P xs)" "P x \<Longrightarrow> x \<notin> set xs" by (auto split: if_splits)
  show ?case
  proof (cases i)
    case 0
    show ?thesis
    proof (cases j)
      case (Suc l)
      with 0 Cons.prems have "x \<in> set xs" "P x" by auto
      with d(2) show ?thesis by blast
    qed (use 0 in simp)
  next
    case (Suc k)
    show ?thesis
    proof (cases j)
      case 0
      with Suc Cons.prems have "x \<in> set xs" "P x" by auto
      with d(2) show ?thesis by blast
    next
      case (Suc l)
      with \<open>i = Suc k\<close> Cons.prems Cons.IH [OF d(1), of k l] show ?thesis by simp
    qed
  qed
qed simp

lemma selecting_alone:
  assumes "accounting s" "wakeups_ok s" "dead s = None" "i < length (procs s)"
    and "at_point (procs s ! i) = Selecting" "task_of (procs s ! i) \<in> {ReportsToNetwork, LeavesToNetwork}"
  shows "blocked (shared s) (task_of (procs s ! i)) \<in> {None, Some 0}"
proof -
  let ?t = "task_of (procs s ! i)" and ?ts = "map task_of (procs s)"
  have "point_ok (procs s ! i)" using assms(2,4) by (simp add: wakeups_ok_def)
  with assms(5) have nr: "\<not> is_receiver ?t" by (simp add: point_ok_def)
  have "?ts @ todo s = tasks_of (reporter s)" using assms(1) by (simp add: accounting_def)
  with worker_once have "distinct (filter (\<lambda>t. \<not> is_receiver t) (?ts @ todo s))" by metis
  then have d: "distinct (filter (\<lambda>t. \<not> is_receiver t) ?ts)"
    by (simp only: filter_append distinct_append)
  have "waits_on ?t p = 0" if "p \<in> set (procs s)" for p
  proof -
    from that obtain j where j: "j < length (procs s)" "p = procs s ! j" by (auto simp: in_set_conv_nth)
    show ?thesis
    proof (cases "task_of p = ?t")
      case True
      have "?ts ! i = ?t" "?ts ! j = task_of p" "i < length ?ts" "j < length ?ts"
        using j assms(4) by simp_all
      with True nr distinct_filter_nth [OF d, of i j] have "j = i" by metis
      with j assms(5) show ?thesis by (simp add: waits_on_def)
    qed (simp add: waits_on_def)
  qed
  then have "waiters ?t (procs s) = 0" by (simp add: waiters_def)
  moreover have "clients_on (queryWaiters s) (reportWaiters s) ?t = 0" using assms(6) by auto
  ultimately show ?thesis
    using assms(2,3) by (cases "blocked (shared s) ?t") (auto simp: wakeups_ok_def)
qed

lemma go_delivers:
  assumes "launched X c s0" "reachable X s0 s" "no_proxy c" "dead s = None" "i < length (procs s)"
    and "go_step X (cancelled s) (procs s ! i) (shared s) (Inr q) w'"
  shows "delivers X (reporter s) (shared s) w'"
proof -
  from assms(1,2) obtain r where r: "reporter s = r" "built c r" "copies_ok s" "accounting s"
    by (rule launched_facts)
  from proc_task [OF r(4) assms(5)] proc_copy [OF r(3) assms(5)] r(1)
  have p: "task_of (procs s ! i) \<in> set (tasks_of r)" "copy_ok r (procs s ! i)" by simp_all
  from r(2) assms(3) have "no_proxy (conf r)" by (simp add: built_def)
  with go_step_delivers [OF assms(6) p built_groups [OF r(2)]]
    selecting_alone [OF r(4) launched_wakeups [OF assms(1,2)] assms(4,5)] r(1)
  show ?thesis by blast
qed

end
