(* ===== verification/ExampleClient.thy ===== *)
theory ExampleClient
  imports Survival
begin

text \<open>
  The example client (example/membership_reporter.go): a program that imports the library,
  answers queries and reports its memberships at intervals. \<open>Mcast2HLS\<close> itself is not in the
  repository; what the file uses of it is the record \<open>mcast\<close> (its metrics and channels, with the
  channels of the reporter it created), the snapshot of \<open>localStreams\<close> a \<open>Range\<close> visits is an
  argument, and its configuration is the record \<open>mcast_config\<close>.
\<close>

definition goIGMPChannelSizeCst :: int where "goIGMPChannelSizeCst = 10"

text \<open>A value of \<open>localStreams\<close>: what the type assertion \<open>value.(*localStream)\<close> accepts, or not.\<close>

datatype stream_value = LocalStream MembershipItem | OtherValue

record mcast =
  m_pC :: "labels \<Rightarrow> nat"
  m_pH :: "labels \<Rightarrow> nat"
  mRptNotifyCh :: "unit chan option"
  singletonCh :: "unit chan"
  toNetworkCh :: "MembershipItem list chan option"
  leaveCh :: "MembershipItem list chan option"
  queryCh :: "unit chan option"
  fromNetworkCh :: "MembershipItem list chan option"

definition m_inc :: "labels \<Rightarrow> mcast \<Rightarrow> mcast" where
  "m_inc l m = m\<lparr>m_pC := bump l 1 (m_pC m)\<rparr>"

definition m_observe :: "labels \<Rightarrow> mcast \<Rightarrow> mcast" where
  "m_observe l m = m\<lparr>m_pH := bump l 1 (m_pH m)\<rparr>"

subsection \<open>Membership items and leaves\<close>

text \<open>The range over the streams; it stops at a value of another type.\<close>

fun build_range :: "stream_value list \<Rightarrow> mcast \<Rightarrow> MembershipItem list \<times> mcast" where
  "build_range [] m = ([], m)"
| "build_range (LocalStream mi # vs) m = (let (groups, m') = build_range vs m in (mi # groups, m'))"
| "build_range (OtherValue # vs) m = ([], m_inc [''buildMembershipItems'', ''typeCast'', ''error''] m)"

definition buildMembershipItems :: "stream_value list \<Rightarrow> mcast \<Rightarrow> MembershipItem list \<times> mcast" where
  "buildMembershipItems vs m = build_range vs (m_inc [''buildMembershipItems'', ''start'', ''count''] m)"

primrec leaves_loop :: "(Addr \<rightharpoonup> unit) \<Rightarrow> MembershipItem list \<Rightarrow> MembershipItem list \<Rightarrow> MembershipItem list" where
  "leaves_loop cgMap [] leaves = leaves"
| "leaves_loop cgMap (item # previous) leaves =
     leaves_loop cgMap previous (if cgMap (Group item) = None then leaves @ [item] else leaves)"

definition findGroupsToLeave :: "MembershipItem list \<Rightarrow> MembershipItem list \<Rightarrow> MembershipItem list" where
  "findGroupsToLeave current previous =
     leaves_loop (fold (\<lambda>item cgMap. cgMap(Group item \<mapsto> ())) current Map.empty) previous []"

lemma cgMap_dom: "dom (fold (\<lambda>item cgMap. cgMap(Group item \<mapsto> ())) items m) = dom m \<union> Group ` set items"
  by (induction items arbitrary: m) auto

lemma leaves_loop_filter:
  "leaves_loop m items acc = acc @ filter (\<lambda>item. m (Group item) = None) items"
  by (induction items arbitrary: acc) auto

lemma findGroupsToLeave_filter:
  "findGroupsToLeave current previous = filter (\<lambda>item. Group item \<notin> Group ` set current) previous"
proof -
  let ?m = "fold (\<lambda>item cgMap. cgMap(Group item \<mapsto> ())) current Map.empty"
  have "?m g = None \<longleftrightarrow> g \<notin> Group ` set current" for g
    using cgMap_dom [of current Map.empty] by (metis Un_empty_left dom_empty domIff)
  then show ?thesis by (simp add: findGroupsToLeave_def leaves_loop_filter)
qed

subsection \<open>Sending to the reporter's channels\<close>

text \<open>
  The non-blocking attempt; \<open>False\<close> means that the goroutine is now blocked in the second,
  blocking send.
\<close>

definition sendMemberShipReport :: "MembershipItem list \<Rightarrow> mcast \<Rightarrow> bool \<times> mcast" where
  "sendMemberShipReport groups m =
     (case try_send_ref groups (toNetworkCh m) of
        (True, ch) \<Rightarrow> (True, m_inc [''sendMemberShipReport'', ''membershipCh'', ''count''] (m\<lparr>toNetworkCh := ch\<rparr>))
      | (False, ch) \<Rightarrow> (False, m_inc [''sendMemberShipReport'', ''membershipChBlocked'', ''error''] m))"

definition sendLeaves :: "MembershipItem list \<Rightarrow> mcast \<Rightarrow> bool \<times> mcast" where
  "sendLeaves groups m =
     (case try_send_ref groups (leaveCh m) of
        (True, ch) \<Rightarrow> (True, m_inc [''sendLeaves'', ''leaveCh'', ''count''] (m\<lparr>leaveCh := ch\<rparr>))
      | (False, ch) \<Rightarrow> (False, m_inc [''sendLeaves'', ''leaveChBlocked'', ''error''] m))"

definition findAndLeaveGroups ::
    "MembershipItem list \<Rightarrow> MembershipItem list \<Rightarrow> mcast \<Rightarrow> bool \<times> mcast" where
  "findAndLeaveGroups groups previousGroups m = sendLeaves (findGroupsToLeave groups previousGroups) m"

subsection \<open>The gratuitous reporter\<close>

text \<open>
  Where it can be: at its \<open>select\<close>; blocked sending leaves (with the current groups) or reports;
  past its loop, about to receive from \<open>singletonCh\<close>; gone. What a step puts on the channels is
  the step's label.
\<close>

datatype gpoint =
    GSelect
  | GLeaving "MembershipItem list" "MembershipItem list"
  | GReporting "MembershipItem list"
  | GRelease
  | GGone

record grep =
  g_at :: gpoint
  previousGroups :: "MembershipItem list"

datatype message = ReportMsg "MembershipItem list" | LeaveMsg "MembershipItem list"

text \<open>The rest of a tick, once the leaves are sent.\<close>

definition g_after_leaves ::
    "MembershipItem list \<Rightarrow> grep \<Rightarrow> mcast \<Rightarrow> message list \<times> grep \<times> mcast" where
  "g_after_leaves groups g m =
     (if length groups > 0 then
        (case sendMemberShipReport groups m of
           (True, m') \<Rightarrow> ([ReportMsg groups], g\<lparr>g_at := GSelect, previousGroups := groups\<rparr>, m')
         | (False, m') \<Rightarrow> ([], g\<lparr>g_at := GReporting groups\<rparr>, m'))
      else ([], g\<lparr>g_at := GRelease\<rparr>, m))"

definition g_tick :: "stream_value list \<Rightarrow> grep \<Rightarrow> mcast \<Rightarrow> message list \<times> grep \<times> mcast" where
  "g_tick vs g m =
     (let (groups, m1) = buildMembershipItems vs
            (m_inc [''gratuitiousReporter'', ''tick'', ''count'']
              (m_inc [''gratuitiousReporter'', ''loops'', ''count''] m));
          leaves = findGroupsToLeave groups (previousGroups g)
      in case findAndLeaveGroups groups (previousGroups g) m1 of
           (True, m2) \<Rightarrow>
             (let (msgs, g', m3) = g_after_leaves groups g m2 in (LeaveMsg leaves # msgs, g', m3))
         | (False, m2) \<Rightarrow> ([], g\<lparr>g_at := GLeaving leaves groups\<rparr>, m2))"

inductive g_step :: "bool \<Rightarrow> grep \<Rightarrow> mcast \<Rightarrow> message list \<Rightarrow> grep \<Rightarrow> mcast \<Rightarrow> bool" where
  g_ticks: "g_at g = GSelect \<Longrightarrow> g_tick vs g m = (msgs, g', m') \<Longrightarrow> g_step d g m msgs g' m'"
| g_done: "g_at g = GSelect \<Longrightarrow>
     g_step True g m [] (g\<lparr>g_at := GRelease\<rparr>)
       (m_inc [''gratuitiousReporter'', ''Done'', ''count'']
         (m_observe [''gratuitiousReporter'', ''Done'', ''count'']
           (m_inc [''gratuitiousReporter'', ''loops'', ''count''] m)))"
| g_leaves: "g_at g = GLeaving leaves groups \<Longrightarrow> try_send_ref leaves (leaveCh m) = (True, ch) \<Longrightarrow>
     g_after_leaves groups g (m\<lparr>leaveCh := ch\<rparr>) = (msgs, g', m') \<Longrightarrow>
     g_step d g m (LeaveMsg leaves # msgs) g' m'"
| g_reports: "g_at g = GReporting groups \<Longrightarrow> try_send_ref groups (toNetworkCh m) = (True, ch) \<Longrightarrow>
     g_step d g m [ReportMsg groups] (g\<lparr>g_at := GSelect, previousGroups := groups\<rparr>) (m\<lparr>toNetworkCh := ch\<rparr>)"
| g_releases: "g_at g = GRelease \<Longrightarrow> recv_now (singletonCh m) = Some (u, ch) \<Longrightarrow>
     g_step d g m [] (g\<lparr>g_at := GGone\<rparr>)
       (m_observe [''gratuitiousReporter'', ''start'', ''complete''] (m\<lparr>singletonCh := ch\<rparr>))"

inductive_cases g_stepE: "g_step d g m msgs g' m'"

subsection \<open>What the network believes\<close>

text \<open>The groups reported and not left since.\<close>

primrec joined_after :: "message list \<Rightarrow> Addr set \<Rightarrow> Addr set" where
  "joined_after [] S = S"
| "joined_after (msg # h) S =
     joined_after h (case msg of ReportMsg gs \<Rightarrow> S \<union> Group ` set gs | LeaveMsg gs \<Rightarrow> S - Group ` set gs)"

abbreviation joined_groups :: "message list \<Rightarrow> Addr set" where
  "joined_groups h \<equiv> joined_after h {}"

lemma joined_append [simp]: "joined_after (h @ h') S = joined_after h' (joined_after h S)"
  by (induction h arbitrary: S) simp_all

text \<open>
  The histories of one run of the gratuitous reporter, the other goroutines doing what they like
  to the channels in between. \<open>d\<close> says whether the context may be cancelled.
\<close>

inductive g_trace :: "bool \<Rightarrow> message list \<Rightarrow> grep \<Rightarrow> bool" for d where
  g_start: "g_trace d [] \<lparr>g_at = GSelect, previousGroups = []\<rparr>"
| g_next: "g_trace d h g \<Longrightarrow> g_step e g m msgs g' m' \<Longrightarrow> e \<longrightarrow> d \<Longrightarrow> g_trace d (h @ msgs) g'"

fun tracked :: "bool \<Rightarrow> message list \<Rightarrow> grep \<Rightarrow> bool" where
  "tracked d h g =
     (let prev = Group ` set (previousGroups g); S = joined_groups h in
      case g_at g of
        GSelect \<Rightarrow> S = prev
      | GLeaving leaves groups \<Rightarrow> S = prev \<and> leaves = findGroupsToLeave groups (previousGroups g)
      | GReporting groups \<Rightarrow> S = prev \<inter> Group ` set groups
      | GRelease \<Rightarrow> S = {} \<or> d \<and> S = prev
      | GGone \<Rightarrow> S = {} \<or> d \<and> S = prev)"

lemma leaves_effect:
  "joined_after [LeaveMsg (findGroupsToLeave groups prev)] (Group ` set prev) =
     Group ` set prev \<inter> Group ` set groups"
  by (auto simp: findGroupsToLeave_filter)

lemma after_leaves_tracked:
  assumes "g_after_leaves groups g m = (msgs, g', m')"
    and "joined_groups h = Group ` set (previousGroups g) \<inter> Group ` set groups"
  shows "tracked d (h @ msgs) g'"
  using assms by (auto simp: g_after_leaves_def sendMemberShipReport_def Let_def split: prod.splits if_splits bool.splits)

lemma tick_cases:
  "g_tick vs g m = (msgs, g', m') \<Longrightarrow>
     (\<exists>groups m2 rest. msgs = LeaveMsg (findGroupsToLeave groups (previousGroups g)) # rest \<and>
        g_after_leaves groups g m2 = (rest, g', m')) \<or>
     (\<exists>groups. msgs = [] \<and> g' = g\<lparr>g_at := GLeaving (findGroupsToLeave groups (previousGroups g)) groups\<rparr>)"
  by (auto simp: g_tick_def findAndLeaveGroups_def Let_def split: prod.splits bool.splits)

lemma step_tracked:
  assumes "g_step e g m msgs g' m'" "tracked d h g" "e \<longrightarrow> d"
  shows "tracked d (h @ msgs) g'"
  using assms(1)
proof cases
  case (g_ticks vs)
  from tick_cases [OF g_ticks(2)] show ?thesis
  proof (elim disjE exE conjE)
    fix groups m2 rest
    assume "msgs = LeaveMsg (findGroupsToLeave groups (previousGroups g)) # rest"
      and rest: "g_after_leaves groups g m2 = (rest, g', m')"
    moreover have "joined_groups (h @ [LeaveMsg (findGroupsToLeave groups (previousGroups g))]) =
        Group ` set (previousGroups g) \<inter> Group ` set groups"
      using assms(2) g_ticks(1) leaves_effect [of groups "previousGroups g"] by (simp add: Let_def)
    from after_leaves_tracked [OF rest this] show ?thesis by (simp add: calculation)
  next
    fix groups assume "msgs = []"
      "g' = g\<lparr>g_at := GLeaving (findGroupsToLeave groups (previousGroups g)) groups\<rparr>"
    with assms(2) g_ticks(1) show ?thesis by (simp add: Let_def)
  qed
next
  case g_done
  with assms(2,3) show ?thesis by (simp add: Let_def)
next
  case (g_leaves leaves groups ch rest)
  have "joined_groups (h @ [LeaveMsg leaves]) = Group ` set (previousGroups g) \<inter> Group ` set groups"
    using assms(2) g_leaves(2) leaves_effect [of groups "previousGroups g"] by (simp add: Let_def)
  from after_leaves_tracked [OF g_leaves(4) this] g_leaves(1) show ?thesis by simp
next
  case (g_reports groups ch)
  with assms(2) show ?thesis by (auto simp: Let_def)
next
  case (g_releases u ch)
  with assms(2) show ?thesis by (simp add: Let_def)
qed

lemma trace_tracked: "g_trace d h g \<Longrightarrow> tracked d h g"
  by (induction rule: g_trace.induct) (auto simp del: tracked.simps intro: step_tracked simp: tracked.simps [of _ "[]"])

text \<open>
  C20: Between two ticks the client and the network agree: the groups that were reported and not
  left since are exactly the groups of the last report, in every run of the gratuitous reporter,
  however the streams change and however often it was blocked on a full channel.
\<close>
theorem gratuitous_reports_track:
  assumes "g_trace d h g" and "g_at g = GSelect"
  shows "joined_groups h = Group ` set (previousGroups g)"
  using trace_tracked [OF assms(1)] assms(2) by (simp add: Let_def)

text \<open>
  C28: Unless the context is cancelled, the gratuitous reporter leaves every group before it goes
  away: when it is past its loop, nothing it ever reported is still joined. (After a cancellation
  the groups of the last report stay joined; no leave is sent for them.)
\<close>
theorem gratuitous_leaves_all:
  assumes "g_trace False h g" and "g_at g = GRelease \<or> g_at g = GGone"
  shows "joined_groups h = {}"
  using trace_tracked [OF assms(1)] assms(2) by (auto simp: Let_def)

text \<open>
  \<open>findGroupsToLeave\<close> finds exactly the items of the previous report whose group is not in
  the current one, in the order of the previous report, whatever their sources are.
\<close>
theorem findGroupsToLeave_spec:
  "findGroupsToLeave current previous = filter (\<lambda>item. Group item \<notin> Group ` set current) previous \<and>
   Group ` set previous \<subseteq> Group ` set current \<union> Group ` set (findGroupsToLeave current previous)"
  unfolding findGroupsToLeave_filter by auto

subsection \<open>The main loop\<close>

text \<open>
  \<open>membershipReporter\<close>: at its \<open>select\<close>, blocked sending a report, waiting for the reporter's
  \<open>Run\<close>, or complete. It shares its channels with the reporter it created, the gratuitous
  reporters it started and the rest of the program.
\<close>

datatype mpoint = MSelect | MReporting "MembershipItem list" | MWaiting | MDone

record csys =
  m_at :: mpoint
  greps :: "grep list"
  chans_of :: mcast
  c_cancelled :: bool
  run_returned :: bool

definition fresh_grep :: grep where
  "fresh_grep = \<lparr>g_at = GSelect, previousGroups = []\<rparr>"

text \<open>The head of a turn, and the answer to a notification: start the reporter unless it runs.\<close>

definition m_head :: "string \<Rightarrow> mcast \<Rightarrow> mcast" where
  "m_head what m = m_inc [''membershipReporter'', what, ''count'']
     (m_observe [''membershipReporter'', what, ''count'']
       (m_inc [''membershipReporter'', ''loops'', ''count''] m))"

definition startGReporter :: "grep list \<Rightarrow> mcast \<Rightarrow> grep list \<times> mcast" where
  "startGReporter gs m =
     (case try_send () (singletonCh m) of
        (True, ch) \<Rightarrow> (gs @ [fresh_grep],
           m_inc [''gratuitiousReporter'', ''start'', ''count'']
             (m_inc [''membershipReporter'', ''startGReporter'', ''count''] (m\<lparr>singletonCh := ch\<rparr>)))
      | (False, ch) \<Rightarrow> (gs, m_inc [''membershipReporter'', ''alreadyGReporter'', ''count''] m))"

text \<open>The answer to a query.\<close>

definition answerQuery :: "stream_value list \<Rightarrow> mcast \<Rightarrow> mpoint \<times> mcast" where
  "answerQuery vs m =
     (let (groups, m1) = buildMembershipItems vs m in
      if length groups > 0 then
        (case sendMemberShipReport groups m1 of
           (True, m2) \<Rightarrow> (MSelect, m2) | (False, m2) \<Rightarrow> (MReporting groups, m2))
      else (MSelect, m1))"

text \<open>The steps of the client's own goroutines.\<close>

inductive c_own :: "csys \<Rightarrow> csys \<Rightarrow> bool" where
  c_notify: "m_at c = MSelect \<Longrightarrow> mRptNotifyCh (chans_of c) = Some ch \<Longrightarrow> recv_now ch = Some (u, ch') \<Longrightarrow>
     startGReporter (greps c) (m_head ''notify'' ((chans_of c)\<lparr>mRptNotifyCh := Some ch'\<rparr>)) = (gs, m) \<Longrightarrow>
     c_own c (c\<lparr>greps := gs, chans_of := m\<rparr>)"
| c_query: "m_at c = MSelect \<Longrightarrow> queryCh (chans_of c) = Some ch \<Longrightarrow> recv_now ch = Some (u, ch') \<Longrightarrow>
     answerQuery vs (m_head ''QueryNotifyCh'' ((chans_of c)\<lparr>queryCh := Some ch'\<rparr>)) = (pt, m) \<Longrightarrow>
     c_own c (c\<lparr>m_at := pt, chans_of := m\<rparr>)"
| c_report: "m_at c = MSelect \<Longrightarrow> fromNetworkCh (chans_of c) = Some ch \<Longrightarrow> recv_now ch = Some (ms, ch') \<Longrightarrow>
     c_own c (c\<lparr>chans_of := m_head ''memRptFromNet'' ((chans_of c)\<lparr>fromNetworkCh := Some ch'\<rparr>)\<rparr>)"
| c_unblock: "m_at c = MReporting groups \<Longrightarrow> try_send_ref groups (toNetworkCh (chans_of c)) = (True, ch) \<Longrightarrow>
     c_own c (c\<lparr>m_at := MSelect, chans_of := (chans_of c)\<lparr>toNetworkCh := ch\<rparr>\<rparr>)"
| c_done: "m_at c = MSelect \<Longrightarrow> c_cancelled c \<Longrightarrow>
     c_own c (c\<lparr>m_at := MWaiting, chans_of := m_head ''Done'' (chans_of c)\<rparr>)"
| c_complete: "m_at c = MWaiting \<Longrightarrow> run_returned c \<Longrightarrow>
     c_own c (c\<lparr>m_at := MDone,
       chans_of := m_observe [''membershipReporter'', ''start'', ''complete''] (chans_of c)\<rparr>)"
| c_grep: "i < length (greps c) \<Longrightarrow> g_step (c_cancelled c) (greps c ! i) (chans_of c) msgs g m \<Longrightarrow>
     c_own c (c\<lparr>greps := (greps c)[i := g], chans_of := m\<rparr>)"

text \<open>
  And those of its surroundings: the cancellation, the return of the reporter's \<open>Run\<close>, and what the
  reporter and the rest of the program do to the channels.
\<close>

inductive c_step :: "csys \<Rightarrow> csys \<Rightarrow> bool" where
  c_acts: "c_own c c' \<Longrightarrow> c_step c c'"
| c_cancel: "c_step c (c\<lparr>c_cancelled := True\<rparr>)"
| c_run: "c_step c (c\<lparr>run_returned := True\<rparr>)"
| c_others: "c_step c (c\<lparr>chans_of := (chans_of c)\<lparr>mRptNotifyCh := n, toNetworkCh := t, leaveCh := l,
     queryCh := q, fromNetworkCh := f\<rparr>\<rparr>)"

inductive_cases c_ownE: "c_own c c'"
inductive_cases c_stepE: "c_step c c'"

definition c_init :: "mcast \<Rightarrow> csys" where
  "c_init m = \<lparr>m_at = MSelect, greps = [],
     chans_of = m_inc [''membershipReporter'', ''start'', ''count'']
       (m\<lparr>singletonCh := \<lparr>chCap = 1, chQueue = [], chWaiting = 0\<rparr>\<rparr>),
     c_cancelled = False, run_returned = False\<rparr>"

inductive c_reach :: "mcast \<Rightarrow> csys \<Rightarrow> bool" for m where
  c_refl: "c_reach m (c_init m)"
| c_next: "c_reach m c \<Longrightarrow> c_step c c' \<Longrightarrow> c_reach m c'"

subsection \<open>At most one gratuitous reporter\<close>

definition running :: "grep list \<Rightarrow> nat" where
  "running gs = length (filter (\<lambda>g. g_at g \<noteq> GGone) gs)"

definition singleton_ok :: "csys \<Rightarrow> bool" where
  "singleton_ok c \<longleftrightarrow> (\<exists>q. singletonCh (chans_of c) = \<lparr>chCap = 1, chQueue = q, chWaiting = 0\<rparr> \<and>
     length q = running (greps c) \<and> length q \<le> 1)"

lemma running_append [simp]: "running (gs @ gs') = running gs + running gs'"
  by (simp add: running_def)

lemma running_update:
  "i < length gs \<Longrightarrow> g_at (gs ! i) \<noteq> GGone \<Longrightarrow>
   running (gs[i := g]) = (if g_at g = GGone then running gs - 1 else running gs) \<and> 0 < running gs"
proof (induction gs arbitrary: i)
  case (Cons x xs)
  show ?case
  proof (cases i)
    case 0
    with Cons.prems show ?thesis by (simp add: running_def)
  next
    case (Suc j)
    with Cons.prems Cons.IH [of j] show ?thesis by (auto simp: running_def)
  qed
qed simp

lemma singleton_frames [simp]:
  "singletonCh (m_inc l m) = singletonCh m" "singletonCh (m_observe l m) = singletonCh m"
  "singletonCh (m_head k m) = singletonCh m"
  by (simp_all add: m_inc_def m_observe_def m_head_def)

lemma singleton_build: "singletonCh (snd (buildMembershipItems vs m)) = singletonCh m"
proof -
  have "singletonCh (snd (build_range vs m)) = singletonCh m" for m
    by (induction vs m rule: build_range.induct) (auto split: prod.splits)
  then show ?thesis by (simp add: buildMembershipItems_def)
qed

lemma singleton_sends:
  "singletonCh (snd (sendMemberShipReport gs m)) = singletonCh m"
  "singletonCh (snd (sendLeaves gs m)) = singletonCh m"
  by (auto simp: sendMemberShipReport_def sendLeaves_def split: prod.splits bool.splits)

lemma after_leaves_singleton:
  "g_after_leaves groups g m = (msgs, g', m') \<Longrightarrow> singletonCh m' = singletonCh m \<and> g_at g' \<noteq> GGone"
  using singleton_sends(1) [of groups m]
  by (auto simp: g_after_leaves_def split: prod.splits bool.splits if_splits)

lemma tick_singleton:
  assumes "g_tick vs g m = (msgs, g', m')"
  shows "singletonCh m' = singletonCh m \<and> g_at g' \<noteq> GGone"
proof -
  let ?m = "m_inc [''gratuitiousReporter'', ''tick'', ''count''] (m_inc [''gratuitiousReporter'', ''loops'', ''count''] m)"
  obtain groups m1 where b: "buildMembershipItems vs ?m = (groups, m1)" by fastforce
  with singleton_build [of vs ?m] have m1: "singletonCh m1 = singletonCh m" by simp
  obtain ok m2 where l: "findAndLeaveGroups groups (previousGroups g) m1 = (ok, m2)" by fastforce
  with singleton_sends(2) [of "findGroupsToLeave groups (previousGroups g)" m1] m1
  have m2: "singletonCh m2 = singletonCh m" by (simp add: findAndLeaveGroups_def)
  obtain a g1 m3 where r: "g_after_leaves groups g m2 = (a, g1, m3)" by (metis prod_cases3)
  from assms show ?thesis
    using after_leaves_singleton [OF r] m2 by (cases ok) (auto simp: g_tick_def Let_def b l r)
qed

lemma g_step_singleton:
  assumes "g_step d g m msgs g' m'"
  shows "g_at g \<noteq> GGone \<and>
     (if g_at g' = GGone then \<exists>u. recv_now (singletonCh m) = Some (u, singletonCh m')
      else singletonCh m' = singletonCh m)"
  using assms
proof cases
  case (g_ticks vs)
  with tick_singleton [OF g_ticks(2)] show ?thesis by simp
next
  case (g_leaves leaves groups ch rest)
  with after_leaves_singleton [OF g_leaves(4)] show ?thesis by simp
next
  case (g_releases u ch)
  then show ?thesis by auto
qed simp_all

lemma start_singleton:
  assumes "startGReporter gs m = (gs', m')" "singletonCh m = \<lparr>chCap = 1, chQueue = q, chWaiting = 0\<rparr>"
    "length q = running gs" "length q \<le> 1"
  shows "\<exists>q'. singletonCh m' = \<lparr>chCap = 1, chQueue = q', chWaiting = 0\<rparr> \<and> length q' = running gs' \<and>
     length q' \<le> 1"
  using assms by (cases q) (auto simp: startGReporter_def try_send_def running_def fresh_grep_def)

lemma c_own_singleton:
  assumes "c_own c c'" "singleton_ok c"
  shows "singleton_ok c'"
proof -
  from assms(2) obtain q where q: "singletonCh (chans_of c) = \<lparr>chCap = 1, chQueue = q, chWaiting = 0\<rparr>"
      "length q = running (greps c)" "length q \<le> 1"
    by (auto simp: singleton_ok_def)
  have same: ?thesis if "singletonCh (chans_of c') = singletonCh (chans_of c)" "running (greps c') = running (greps c)"
    using that q by (auto simp: singleton_ok_def)
  from assms(1) show ?thesis
  proof cases
    case (c_notify ch u ch' gs m)
    from start_singleton [OF c_notify(5)] q c_notify(1) show ?thesis by (auto simp: singleton_ok_def)
  next
    case (c_query ch u ch' vs pt m)
    let ?m = "m_head ''QueryNotifyCh'' ((chans_of c)\<lparr>queryCh := Some ch'\<rparr>)"
    obtain groups m1 where b: "buildMembershipItems vs ?m = (groups, m1)" by fastforce
    with singleton_build [of vs ?m] have "singletonCh m1 = singletonCh (chans_of c)" by simp
    with singleton_sends(1) [of groups m1] c_query(5) b
    have "singletonCh m = singletonCh (chans_of c)"
      by (auto simp: answerQuery_def split: prod.splits bool.splits if_splits)
    with c_query(1) show ?thesis by (intro same) simp_all
  next
    case (c_grep i msgs g m)
    note st = g_step_singleton [OF c_grep(3)]
    from running_update [OF c_grep(2), of g] st
    have run: "running ((greps c)[i := g]) = (if g_at g = GGone then running (greps c) - 1 else running (greps c))"
      by simp
    show ?thesis
    proof (cases "g_at g = GGone")
      case True
      with st q obtain u where "recv_now (singletonCh (chans_of c)) = Some (u, singletonCh m)" by auto
      with q run True c_grep(1) show ?thesis
        by (auto simp: singleton_ok_def recv_now_def split: if_splits)
    next
      case False
      with st run c_grep(1) show ?thesis by (intro same) simp_all
    qed
  qed (intro same; simp)+
qed

lemma c_step_singleton: "c_step c c' \<Longrightarrow> singleton_ok c \<Longrightarrow> singleton_ok c'"
  by (erule c_stepE) (erule (1) c_own_singleton, simp_all add: singleton_ok_def)

text \<open>
  C21: At most one gratuitous reporter runs. However many notifications arrive, and whatever the
  other goroutines do, in every reachable state the number of gratuitous reporters that have not
  gone away is the number of tokens in \<open>singletonCh\<close>, at most one.
\<close>
theorem one_gratuitous_reporter:
  assumes "c_reach m c"
  shows "running (greps c) = length (chQueue (singletonCh (chans_of c))) \<and> running (greps c) \<le> 1"
proof -
  have "singleton_ok (c_init m)" by (simp add: singleton_ok_def c_init_def running_def)
  with assms have "singleton_ok c" by induction (auto intro: c_step_singleton)
  then show ?thesis by (auto simp: singleton_ok_def)
qed

subsection \<open>Answering a query\<close>

lemma build_range_takeWhile:
  "map LocalStream (fst (build_range vs m)) = takeWhile (\<lambda>v. v \<noteq> OtherValue) vs"
  by (induction vs m rule: build_range.induct) (auto split: prod.splits)

lemma build_keeps:
  "toNetworkCh (snd (buildMembershipItems vs m)) = toNetworkCh m"
proof -
  have "toNetworkCh (snd (build_range vs m)) = toNetworkCh m" for m
    by (induction vs m rule: build_range.induct) (auto simp: m_inc_def split: prod.splits)
  then show ?thesis by (simp add: buildMembershipItems_def m_inc_def)
qed

text \<open>
  A query is answered with the current memberships. The items are the local streams, in
  the order of the range, up to the first value of another type; if there are any they are offered
  as one batch to the reporter's channel, and either are in the channel now or the client is
  blocked on it with this batch; if there are none, nothing is sent.
\<close>
theorem query_answered:
  assumes "answerQuery vs m = (pt, m')"
  shows "\<exists>groups. map LocalStream groups = takeWhile (\<lambda>v. v \<noteq> OtherValue) vs \<and>
     (if groups = [] then pt = MSelect \<and> toNetworkCh m' = toNetworkCh m
      else (pt = MSelect \<and> try_send_ref groups (toNetworkCh m) = (True, toNetworkCh m')) \<or>
           (pt = MReporting groups \<and> fst (try_send_ref groups (toNetworkCh m)) = False \<and>
            toNetworkCh m' = toNetworkCh m))"
proof -
  obtain groups m1 where b: "buildMembershipItems vs m = (groups, m1)" by fastforce
  have 1: "map LocalStream groups = takeWhile (\<lambda>v. v \<noteq> OtherValue) vs"
    using b build_range_takeWhile by (metis buildMembershipItems_def fst_conv)
  have 2: "toNetworkCh m1 = toNetworkCh m" using build_keeps [of vs m] b by simp
  show ?thesis
    by (rule exI [of _ groups])
      (use assms 1 2 b in \<open>auto simp: answerQuery_def sendMemberShipReport_def m_inc_def split: prod.splits bool.splits\<close>)
qed

subsection \<open>The reporter of the client\<close>

record mcast_config =
  m_Interface :: string
  UnicastIGMPDestinationIPStr :: string
  IGMPDebugLevel :: int

text \<open>The read deadline \<open>multicastSocketReadDealineCst\<close> is declared elsewhere: it is an argument.\<close>

definition client_config :: "duration \<Rightarrow> mcast_config \<Rightarrow> Config" where
  "client_config deadline mc =
     \<lparr>InIntName = m_Interface mc, OutIntName = m_Interface mc, AltOutIntName = [],
      UnicastDst = UnicastIGMPDestinationIPStr mc,
      ProxyOutToIn = False, ProxyInToOut = False, UnicastProxyInToOut = False, QueryNotify = True,
      MembershipReportsFromNetwork = True, MembershipReportsToNetwork = True,
      UnicastMembershipReports = True, LeaveToNetwork = True,
      SocketReadDeadLine = deadline, ChannelSize = goIGMPChannelSizeCst, Gratuitous = 0, QueryTime = 0,
      DebugLevel = IGMPDebugLevel mc,
      Testing = \<lparr>MulticastLoopback = False, ConnectQueryToReport = False, MembershipReportsReader = False\<rparr>\<rparr>"

definition createGoIGMPReporter ::
    "externals \<Rightarrow> duration \<Rightarrow> mcast_config \<Rightarrow> IGMPReporter act" where
  "createGoIGMPReporter X deadline mc = NewIGMPReporter X (client_config deadline mc)"

lemma shared_interface:
  assumes "NewIGMPReporter X c w = (Inr r, w')" "\<not> has_alt c" "InIntName c = OutIntName c"
  shows "\<exists>n. InterfaceByName X (OutIntName c) = Some n \<and> NetIFIndex r = [if_Index n \<mapsto> OUT]"
  using assms(1)
proof (rule NewIGMPReporter_decompose)
  fix ud maps u v r0
  assume maps: "makeIPMaps = Inr maps"
    and ifs: "foldM (addInterface X) (Interfaces (initReporter c ud maps)) (initReporter c ud maps) v = (Inr r0, v)"
    and socks: "openSockets X r0 v = (Inr r, w')"
  let ?i = "initReporter c ud maps"
  have names: "IntName ?i = [IN \<mapsto> OutIntName c, OUT \<mapsto> OutIntName c]" "Interfaces ?i = [IN, OUT]"
    "NetIFIndex ?i = Map.empty"
    using assms(2,3) by (simp_all add: initReporter_def)
  from ifs names obtain n where n: "InterfaceByName X (OutIntName c) = Some n" "NetIFIndex r0 = [if_Index n \<mapsto> OUT]"
    by (auto simp: addInterface_def bind_lift getInterfaceHandle_def Let_def split: option.splits sum.splits)
  note inv = initReporter_ready [OF maps, of c ud]
  have "distinct (Interfaces ?i)" "set (Interfaces ?i) \<inter> dom (ContMsg ?i) = {}"
    by (simp_all add: initReporter_def)
  from foldM_addInterface_spec [OF ifs inv(2) this] have b: "base r0 = base ?i" by simp
  have "joined r0 = joined ?i" using b by (simp add: base_def joined_def [abs_def])
  with inv(1) b have "ready r0"
    by (simp add: ready_def sock_inv_def in_step_def mconns_good_def tables_ok_def base_def)
  moreover have "AltOutExists r0 = has_alt (conf r0)" using b by (simp add: base_def initReporter_def)
  ultimately have "NetIFIndex r = NetIFIndex r0"
    using fixed_fields [OF stage_fixed [OF openSockets_stage [OF socks]]] by simp
  with n show ?thesis by simp
qed

text \<open>
  C37: The example's reporter fits its client. Whenever it can be created, \<open>Run\<close> starts the three
  receivers of the outside, the report worker and the leave worker and nothing else; every
  receiver has its socket and both workers have the raw connection they send through; the leave
  channel exists; packets of the one shared interface count as coming from the outside (so the
  receivers do not discard them); and no output selector can keep \<open>Run\<close> from returning.
\<close>
theorem example_reporter_fits:
  assumes "createGoIGMPReporter X deadline mc w = (Inr r, w')"
  shows "tasks_of r = [RecvIGMP OUT allHosts, RecvIGMP OUT allRouters, RecvIGMP OUT IGMPHosts,
       ReportsToNetwork, LeavesToNetwork] \<and>
     (\<forall>g \<in> set the_multicastGroups. mConn r OUT g \<noteq> None) \<and> conRaw r OUT \<noteq> None \<and>
     LeaveToNetworkCh w' = Some \<lparr>chCap = 10, chQueue = [], chWaiting = 0\<rparr> \<and>
     (\<exists>n. InterfaceByName X (m_Interface mc) = Some n \<and> NetIFIndex r = [if_Index n \<mapsto> OUT])"
proof -
  let ?c = "client_config deadline mc"
  from assms have run: "NewIGMPReporter X ?c w = (Inr r, w')" by (simp add: createGoIGMPReporter_def)
  note b = NewIGMPReporter_built [OF run] and bw = NewIGMPReporter_world [OF run]
  have c: "conf r = ?c" "\<not> has_alt ?c" using b by (simp_all add: built_def has_alt_def client_config_def)
  have "tasks_of r = [RecvIGMP OUT allHosts, RecvIGMP OUT allRouters, RecvIGMP OUT IGMPHosts,
       ReportsToNetwork, LeavesToNetwork]"
    using b c built_groups [OF b]
    by (simp add: tasks_of_def client_config_def the_multicastGroups_def built_def)
  moreover have "\<forall>g \<in> set the_multicastGroups. mConn r OUT g \<noteq> None"
    using mConn_opened [OF b] by (simp add: joins_of_def client_config_def)
  moreover have "OUT \<in> dom (conRaw r)" using b by (simp add: built_def raws_of_def client_config_def)
  then have "conRaw r OUT \<noteq> None" by blast
  moreover have "LeaveToNetworkCh w' = Some \<lparr>chCap = 10, chQueue = [], chWaiting = 0\<rparr>"
    using bw by (simp add: built_world_def fresh_chan_def client_config_def goIGMPChannelSizeCst_def)
  moreover have "\<exists>n. InterfaceByName X (m_Interface mc) = Some n \<and> NetIFIndex r = [if_Index n \<mapsto> OUT]"
    using shared_interface [OF run c(2)] by (simp add: client_config_def)
  ultimately show ?thesis by blast
qed

subsection \<open>Witnesses\<close>

definition sample_mcast :: mcast where
  "sample_mcast = \<lparr>m_pC = (\<lambda>_. 0), m_pH = (\<lambda>_. 0), mRptNotifyCh = Some \<lparr>chCap = 1, chQueue = [()], chWaiting = 0\<rparr>,
     singletonCh = \<lparr>chCap = 1, chQueue = [], chWaiting = 0\<rparr>, toNetworkCh = Some sample_chan,
     leaveCh = Some sample_chan, queryCh = Some sample_chan, fromNetworkCh = Some sample_chan\<rparr>"

lemmas client_defs = g_tick_def buildMembershipItems_def findAndLeaveGroups_def sendLeaves_def
  findGroupsToLeave_filter g_after_leaves_def sendMemberShipReport_def try_send_ref_def try_send_def
  m_inc_def sample_mcast_def sample_chan_def Let_def

lemma sample_joins_one:
  "g_trace False [LeaveMsg [], ReportMsg [sample_item]] \<lparr>g_at = GSelect, previousGroups = [sample_item]\<rparr>"
proof -
  obtain m' where "g_tick [LocalStream sample_item] \<lparr>g_at = GSelect, previousGroups = []\<rparr> sample_mcast =
      ([LeaveMsg [], ReportMsg [sample_item]], \<lparr>g_at = GSelect, previousGroups = [sample_item]\<rparr>, m')"
    by (simp add: client_defs)
  then have "g_step False \<lparr>g_at = GSelect, previousGroups = []\<rparr> sample_mcast
      [LeaveMsg [], ReportMsg [sample_item]] \<lparr>g_at = GSelect, previousGroups = [sample_item]\<rparr> m'"
    by (intro g_ticks) simp_all
  from g_next [OF g_start this] show ?thesis by simp
qed

lemma sample_leaves_it:
  "g_trace False [LeaveMsg [], ReportMsg [sample_item], LeaveMsg [sample_item]]
     \<lparr>g_at = GRelease, previousGroups = [sample_item]\<rparr>"
proof -
  obtain m' where "g_tick [] \<lparr>g_at = GSelect, previousGroups = [sample_item]\<rparr> sample_mcast =
      ([LeaveMsg [sample_item]], \<lparr>g_at = GRelease, previousGroups = [sample_item]\<rparr>, m')"
    by (simp add: client_defs)
  then have "g_step False \<lparr>g_at = GSelect, previousGroups = [sample_item]\<rparr> sample_mcast
      [LeaveMsg [sample_item]] \<lparr>g_at = GRelease, previousGroups = [sample_item]\<rparr> m'"
    by (intro g_ticks) simp_all
  from g_next [OF sample_joins_one this] show ?thesis by simp
qed

theorem gratuitous_reports_track_witness:
  "joined_groups [LeaveMsg [], ReportMsg [sample_item]] = {Addr4 239 1 1 1}"
  using gratuitous_reports_track [OF sample_joins_one] by (simp add: sample_item_def)

theorem gratuitous_leaves_all_witness:
  "joined_groups [LeaveMsg [], ReportMsg [sample_item], LeaveMsg [sample_item]] = {}"
  by (rule gratuitous_leaves_all [OF sample_leaves_it]) simp

theorem one_gratuitous_reporter_witness:
  "\<exists>c. c_reach sample_mcast c \<and> greps c = [fresh_grep] \<and> running (greps c) = 1 \<and>
     length (chQueue (singletonCh (chans_of c))) = 1"
proof -
  let ?c = "c_init sample_mcast"
  obtain m where "startGReporter (greps ?c) (m_head ''notify'' ((chans_of ?c)\<lparr>mRptNotifyCh :=
      Some \<lparr>chCap = 1, chQueue = [], chWaiting = 0\<rparr>\<rparr>)) = ([fresh_grep], m)"
    by (simp add: startGReporter_def c_init_def try_send_def)
  then have "c_step ?c (?c\<lparr>greps := [fresh_grep], chans_of := m\<rparr>)"
    by (intro c_acts c_notify) (auto simp: c_init_def m_inc_def sample_mcast_def recv_now_def)
  then have r: "c_reach sample_mcast (?c\<lparr>greps := [fresh_grep], chans_of := m\<rparr>)"
    by (rule c_next [OF c_refl])
  from one_gratuitous_reporter [OF r] r show ?thesis
    by (intro exI [of _ "?c\<lparr>greps := [fresh_grep], chans_of := m\<rparr>"]) (simp add: running_def fresh_grep_def)
qed

theorem query_answered_witness:
  "\<exists>m'. answerQuery [LocalStream sample_item, OtherValue] sample_mcast = (MSelect, m') \<and>
     try_send_ref [sample_item] (Some sample_chan) = (True, toNetworkCh m')"
proof -
  obtain m' where a: "answerQuery [LocalStream sample_item, OtherValue] sample_mcast = (MSelect, m')"
    by (simp add: answerQuery_def client_defs)
  from query_answered [OF a] a show ?thesis
    by (auto simp: sample_mcast_def Cons_eq_map_conv)
qed

theorem example_reporter_fits_witness:
  "\<exists>r w'. createGoIGMPReporter sample_externals Second
      \<lparr>m_Interface = ''eth0'', UnicastIGMPDestinationIPStr = ''10.99.0.1'', IGMPDebugLevel = 11\<rparr> sample_world =
      (Inr r, w') \<and> NetIFIndex r = [4 \<mapsto> OUT]"
proof -
  let ?mc = "\<lparr>m_Interface = ''eth0'', UnicastIGMPDestinationIPStr = ''10.99.0.1'', IGMPDebugLevel = 11\<rparr>"
  obtain r w' where run: "createGoIGMPReporter sample_externals Second ?mc sample_world = (Inr r, w')"
    unfolding createGoIGMPReporter_def
    by (rule sample_builds [of "client_config Second ?mc"])
      (simp_all add: client_config_def goIGMPChannelSizeCst_def)
  from example_reporter_fits [OF run] run show ?thesis by (auto simp: sample_externals_def)
qed

end
