(* ===== verification/Deployment.thy ===== *)
theory Deployment
  imports Delivery ExampleClient
begin

text \<open>
  The example client together with the reporter it creates and runs (\<open>membershipReporter\<close> in
  example/membership_reporter.go, lines 37-47): the two step relations side by side, the four
  channels of the reporter being those the client reads and writes. The state also keeps what the
  client has put on the two channels to the network so far.
\<close>

subsection \<open>Shared channels\<close>

definition attach :: "sys \<Rightarrow> csys \<Rightarrow> csys" where
  "attach s c = c\<lparr>chans_of := (chans_of c)
       \<lparr>toNetworkCh := MembershipReportToNetworkCh (shared s), leaveCh := LeaveToNetworkCh (shared s),
        queryCh := QueryNotifyCh (shared s), fromNetworkCh := MembershipReportFromNetworkCh (shared s)\<rparr>,
     c_cancelled := cancelled s, run_returned := returned s\<rparr>"

definition detach :: "mcast \<Rightarrow> world \<Rightarrow> world" where
  "detach m w = w\<lparr>QueryNotifyCh := queryCh m, MembershipReportFromNetworkCh := fromNetworkCh m,
     MembershipReportToNetworkCh := toNetworkCh m, LeaveToNetworkCh := leaveCh m\<rparr>"

lemma detach_attach [simp]: "detach (chans_of (attach s c)) (shared s) = shared s"
  by (simp add: attach_def detach_def)

subsection \<open>The client's steps are client steps of the reporter\<close>

definition moves :: "world \<Rightarrow> world \<Rightarrow> bool" where
  "moves = client_step\<^sup>*\<^sup>*"

lemma moves_refl [simp]: "moves w w"
  by (simp add: moves_def)

lemma moves_trans: "moves u v \<Longrightarrow> moves v w \<Longrightarrow> moves u w"
  by (simp add: moves_def)

lemma moves_step: "client_step u v \<Longrightarrow> moves u v"
  by (simp add: moves_def)

lemma detach_metrics [simp]:
  "detach (m_inc l m) w = detach m w" "detach (m_observe l m) w = detach m w"
  "detach (m_head k m) w = detach m w" "detach (m\<lparr>singletonCh := ch\<rparr>) w = detach m w"
  "detach (m\<lparr>mRptNotifyCh := n\<rparr>) w = detach m w"
  by (simp_all add: detach_def m_inc_def m_observe_def m_head_def)

lemma detach_upd:
  "(detach m w)\<lparr>MembershipReportToNetworkCh := c\<rparr> = detach (m\<lparr>toNetworkCh := c\<rparr>) w"
  "(detach m w)\<lparr>LeaveToNetworkCh := c\<rparr> = detach (m\<lparr>leaveCh := c\<rparr>) w"
  "(detach m w)\<lparr>QueryNotifyCh := q\<rparr> = detach (m\<lparr>queryCh := q\<rparr>) w"
  "(detach m w)\<lparr>MembershipReportFromNetworkCh := c\<rparr> = detach (m\<lparr>fromNetworkCh := c\<rparr>) w"
  by (cases w; simp add: detach_def)+

lemma detach_sel [simp]:
  "MembershipReportToNetworkCh (detach m w) = toNetworkCh m" "LeaveToNetworkCh (detach m w) = leaveCh m"
  "QueryNotifyCh (detach m w) = queryCh m" "MembershipReportFromNetworkCh (detach m w) = fromNetworkCh m"
  "wire (detach m w) = wire w"
  by (simp_all add: detach_def)

lemma detach_build: "buildMembershipItems vs m = (groups, m') \<Longrightarrow> detach m' w = detach m w"
proof -
  have "build_range vs m = (groups, m') \<Longrightarrow> detach m' w = detach m w" for m groups m'
    by (induction vs m arbitrary: groups m' rule: build_range.induct) (auto split: prod.splits)
  then show "buildMembershipItems vs m = (groups, m') \<Longrightarrow> detach m' w = detach m w"
    by (fastforce simp: buildMembershipItems_def)
qed

lemma detach_send:
  "try_send_ref gs (toNetworkCh m) = (True, ch) \<Longrightarrow> moves (detach m w) (detach (m\<lparr>toNetworkCh := ch\<rparr>) w)"
  "try_send_ref gs (leaveCh m) = (True, ch) \<Longrightarrow> moves (detach m w) (detach (m\<lparr>leaveCh := ch\<rparr>) w)"
proof -
  show "moves (detach m w) (detach (m\<lparr>toNetworkCh := ch\<rparr>) w)" if "try_send_ref gs (toNetworkCh m) = (True, ch)"
    using send_report [of gs "detach m w" ch] that by (intro moves_step) (simp add: detach_upd)
  show "moves (detach m w) (detach (m\<lparr>leaveCh := ch\<rparr>) w)" if "try_send_ref gs (leaveCh m) = (True, ch)"
    using send_leave [of gs "detach m w" ch] that by (intro moves_step) (simp add: detach_upd)
qed

lemma report_moves: "sendMemberShipReport gs m = (b, m') \<Longrightarrow> moves (detach m w) (detach m' w)"
  by (auto simp: sendMemberShipReport_def split: prod.splits bool.splits dest: detach_send(1))

lemma leaves_moves: "sendLeaves gs m = (b, m') \<Longrightarrow> moves (detach m w) (detach m' w)"
  by (auto simp: sendLeaves_def split: prod.splits bool.splits dest: detach_send(2))

lemma after_leaves_moves:
  "g_after_leaves groups g m = (msgs, g', m') \<Longrightarrow> moves (detach m w) (detach m' w)"
  by (auto simp: g_after_leaves_def split: if_splits prod.splits bool.splits dest: report_moves)

lemma tick_moves:
  assumes "g_tick vs g m = (msgs, g', m')"
  shows "moves (detach m w) (detach m' w)"
proof -
  let ?m = "m_inc [''gratuitiousReporter'', ''tick'', ''count''] (m_inc [''gratuitiousReporter'', ''loops'', ''count''] m)"
  obtain groups m1 where b: "buildMembershipItems vs ?m = (groups, m1)" by fastforce
  then have 1: "detach m1 w = detach m w" using detach_build [OF b] by simp
  obtain ok m2 where l: "findAndLeaveGroups groups (previousGroups g) m1 = (ok, m2)" by fastforce
  then have 2: "moves (detach m1 w) (detach m2 w)" by (auto simp: findAndLeaveGroups_def dest: leaves_moves)
  obtain a g1 m3 where r: "g_after_leaves groups g m2 = (a, g1, m3)" by (metis prod_cases3)
  from 1 2 moves_trans [OF 2 after_leaves_moves [OF r]] assms show ?thesis
    by (cases ok) (auto simp: g_tick_def Let_def b l r)
qed

lemma g_step_moves: "g_step e g m msgs g' m' \<Longrightarrow> moves (detach m w) (detach m' w)"
  by (erule g_stepE)
    (auto dest: tick_moves detach_send(1) intro: moves_trans [OF detach_send(2) after_leaves_moves])

lemma take_moves:
  "queryCh m = Some ch \<Longrightarrow> recv_now ch = Some (u, ch') \<Longrightarrow>
     moves (detach m w) (detach (m\<lparr>queryCh := Some ch'\<rparr>) w)"
  "fromNetworkCh m = Some rch \<Longrightarrow> recv_now rch = Some (ms, rch') \<Longrightarrow>
     moves (detach m w) (detach (m\<lparr>fromNetworkCh := Some rch'\<rparr>) w)"
proof -
  show "moves (detach m w) (detach (m\<lparr>queryCh := Some ch'\<rparr>) w)"
    if "queryCh m = Some ch" "recv_now ch = Some (u, ch')"
    using that take_query [of "detach m w" u] by (intro moves_step) (simp add: take_now_def detach_upd)
  show "moves (detach m w) (detach (m\<lparr>fromNetworkCh := Some rch'\<rparr>) w)"
    if "fromNetworkCh m = Some rch" "recv_now rch = Some (ms, rch')"
    using that take_report [of "detach m w" ms] by (intro moves_step) (simp add: take_now_def detach_upd)
qed

lemma answer_moves:
  assumes "answerQuery vs m = (pt, m')"
  shows "moves (detach m w) (detach m' w)"
proof -
  obtain groups m1 where b: "buildMembershipItems vs m = (groups, m1)" by fastforce
  from detach_build [OF b] assms report_moves show ?thesis
    by (force simp: answerQuery_def b split: if_splits prod.splits bool.splits)
qed

lemma c_own_moves: "c_own c c' \<Longrightarrow> moves (detach (chans_of c) w) (detach (chans_of c') w)"
proof (erule c_ownE)
  fix ch u ch' gs m
  assume "startGReporter (greps c) (m_head ''notify'' (chans_of c\<lparr>mRptNotifyCh := Some ch'\<rparr>)) = (gs, m)"
    and c': "c' = c\<lparr>greps := gs, chans_of := m\<rparr>"
  then have "detach m w = detach (chans_of c) w"
    by (auto simp: startGReporter_def split: prod.splits bool.splits)
  with c' show ?thesis by simp
next
  fix ch u ch' vs pt m
  assume "queryCh (chans_of c) = Some ch" "recv_now ch = Some (u, ch')"
    and a: "answerQuery vs (m_head ''QueryNotifyCh'' (chans_of c\<lparr>queryCh := Some ch'\<rparr>)) = (pt, m)"
    and c': "c' = c\<lparr>m_at := pt, chans_of := m\<rparr>"
  with moves_trans [OF take_moves(1)] answer_moves [OF a, of w] show ?thesis by auto
qed (auto dest: take_moves(2) detach_send(1) g_step_moves)


subsection \<open>The deployment\<close>

record deployment =
  lib :: sys
  cli :: csys
  reported :: "MembershipItem list list"
  withdrawn :: "MembershipItem list list"

definition d_init :: "IGMPReporter \<Rightarrow> world \<Rightarrow> mcast \<Rightarrow> deployment" where
  "d_init r w m = \<lparr>lib = Run_init r w, cli = c_init m, reported = [], withdrawn = []\<rparr>"

inductive d_step :: "externals \<Rightarrow> deployment \<Rightarrow> deployment \<Rightarrow> bool" for X where
  d_library: "own_step X (lib d) s \<Longrightarrow> d_step X d (d\<lparr>lib := s\<rparr>)"
| d_returns: "dead (lib d) = None \<Longrightarrow> todo (lib d) = [] \<Longrightarrow> wg (lib d) = 0 \<Longrightarrow>
     d_step X d (d\<lparr>lib := (lib d)\<lparr>returned := True\<rparr>\<rparr>)"
| d_cancels: "dead (lib d) = None \<Longrightarrow> d_step X d (d\<lparr>lib := (lib d)\<lparr>cancelled := True\<rparr>\<rparr>)"
| d_client: "dead (lib d) = None \<Longrightarrow> c_own (attach (lib d) (cli d)) c \<Longrightarrow>
     w = detach (chans_of c) (shared (lib d)) \<Longrightarrow>
     d_step X d \<lparr>lib = (lib d)\<lparr>shared := w\<rparr>, cli = c,
       reported = reported d @ drop (length (to_report (shared (lib d)))) (to_report w),
       withdrawn = withdrawn d @ drop (length (to_leave (shared (lib d)))) (to_leave w)\<rparr>"
| d_viewer: "d_step X d (d\<lparr>cli := (cli d)\<lparr>chans_of := (chans_of (cli d))\<lparr>mRptNotifyCh := n\<rparr>\<rparr>\<rparr>)"

inductive_cases d_stepE: "d_step X d d'"

inductive d_reach :: "externals \<Rightarrow> deployment \<Rightarrow> deployment \<Rightarrow> bool" for X d0 where
  d_refl: "d_reach X d0 d0"
| d_next: "d_reach X d0 d \<Longrightarrow> d_step X d d' \<Longrightarrow> d_reach X d0 d'"

text \<open>Moves keep the wire and only append to the two queues to the network.\<close>

lemma client_step_appends:
  assumes "client_step w w'"
  shows "wire w' = wire w \<and> (\<exists>rs. to_report w' = to_report w @ rs) \<and> (\<exists>ls. to_leave w' = to_leave w @ ls)"
  using assms
  by (rule client_stepE)
    (auto simp: try_send_ref_def try_send_def take_now_def Let_def split: option.splits if_splits)

lemma moves_append:
  assumes "moves w w'"
  shows "wire w' = wire w \<and> (\<exists>rs. to_report w' = to_report w @ rs) \<and> (\<exists>ls. to_leave w' = to_leave w @ ls)"
  using assms unfolding moves_def
  by (induction rule: rtranclp_induct) (auto dest!: client_step_appends)

lemma moves_reachable:
  assumes "moves w w'" "reachable X s0 s" "shared s = w" "dead s = None"
  shows "reachable X s0 (s\<lparr>shared := w'\<rparr>)"
  using assms(1) unfolding moves_def
proof (induction rule: rtranclp_induct)
  case base
  with assms(2,3) show ?case by (cases s) simp
next
  case (step u v)
  from reach_client [OF step.IH, of v] step.hyps(2) assms(4) show ?case by simp
qed

lemma own_step_cases:
  assumes "own_step X s s'"
  shows "(\<exists>t ts. dead s = None \<and> s' = s\<lparr>todo := ts, wg := Suc (wg s),
             procs := procs s @ [\<lparr>task_of = t, self = reporter s, at_point = Fresh\<rparr>]\<rparr>) \<or>
         (\<exists>i q w'. dead s = None \<and> i < length (procs s) \<and>
             go_step X (cancelled s) (procs s ! i) (shared s) (Inr q) w' \<and>
             s' = s\<lparr>procs := (procs s)[i := q], shared := w', wg := wg_after q (wg s)\<rparr>) \<or>
         dead s' \<noteq> None"
  using assms unfolding own_step_def by (auto elim!: sys_stepE)

subsection \<open>Both halves run as they do alone\<close>

definition halves_ok :: "externals \<Rightarrow> sys \<Rightarrow> mcast \<Rightarrow> deployment \<Rightarrow> bool" where
  "halves_ok X s0 m d \<longleftrightarrow> reachable X s0 (lib d) \<and> c_reach m (cli d) \<and>
     (c_cancelled (cli d) \<longrightarrow> cancelled (lib d)) \<and> (run_returned (cli d) \<longrightarrow> returned (lib d))"

lemma attach_reach:
  assumes "c_reach m c" "c_cancelled c \<longrightarrow> cancelled s" "run_returned c \<longrightarrow> returned s"
  shows "c_reach m (attach s c)"
proof -
  let ?a = "c\<lparr>chans_of := (chans_of c)\<lparr>mRptNotifyCh := mRptNotifyCh (chans_of c),
       toNetworkCh := MembershipReportToNetworkCh (shared s), leaveCh := LeaveToNetworkCh (shared s),
       queryCh := QueryNotifyCh (shared s), fromNetworkCh := MembershipReportFromNetworkCh (shared s)\<rparr>\<rparr>"
  let ?b = "if cancelled s then ?a\<lparr>c_cancelled := True\<rparr> else ?a"
  let ?c = "if returned s then ?b\<lparr>run_returned := True\<rparr> else ?b"
  have "c_reach m ?a" by (rule c_next [OF assms(1) c_others])
  then have "c_reach m ?b" by (auto intro: c_next c_cancel)
  then have "c_reach m ?c" by (auto intro: c_next c_run)
  moreover have "?c = attach s c" using assms(2,3) by (cases c) (auto simp: attach_def)
  ultimately show ?thesis by simp
qed

lemma c_own_flags: "c_own c c' \<Longrightarrow> c_cancelled c' = c_cancelled c \<and> run_returned c' = run_returned c"
  by (erule c_ownE) simp_all

lemma sys_step_flags:
  "sys_step X s s' \<Longrightarrow> (cancelled s \<longrightarrow> cancelled s') \<and> (returned s \<longrightarrow> returned s')"
  by (erule sys_stepE) simp_all

lemma d_step_halves:
  assumes "d_step X d d'" "halves_ok X s0 m d"
  shows "halves_ok X s0 m d'"
  using assms(1)
proof cases
  case (d_library s)
  then have "sys_step X (lib d) s" by (simp add: own_step_def)
  with sys_step_flags [OF this] assms(2) d_library(1) show ?thesis
    by (auto simp: halves_ok_def intro: reachable.step)
next
  case d_returns
  with assms(2) show ?thesis by (auto simp: halves_ok_def intro: reachable.step wait_done)
next
  case d_cancels
  with assms(2) show ?thesis by (auto simp: halves_ok_def intro: reach_cancel)
next
  case (d_client c w)
  from c_own_moves [OF d_client(3), of "shared (lib d)"] d_client(4) have "moves (shared (lib d)) w" by simp
  from moves_reachable [OF this _ HOL.refl d_client(2)] assms(2)
  have "reachable X s0 ((lib d)\<lparr>shared := w\<rparr>)" by (simp add: halves_ok_def)
  moreover have "c_reach m c"
    using attach_reach [of m "cli d" "lib d"] assms(2) d_client(3)
    by (auto simp: halves_ok_def intro: c_next c_acts)
  ultimately show ?thesis using c_own_flags [OF d_client(3)] d_client(1)
    by (simp add: halves_ok_def attach_def)
next
  case (d_viewer n)
  let ?m = "chans_of (cli d)"
  have "(cli d)\<lparr>chans_of := ?m\<lparr>mRptNotifyCh := n\<rparr>\<rparr> = (cli d)\<lparr>chans_of := ?m\<lparr>mRptNotifyCh := n,
      toNetworkCh := toNetworkCh ?m, leaveCh := leaveCh ?m, queryCh := queryCh ?m,
      fromNetworkCh := fromNetworkCh ?m\<rparr>\<rparr>" by simp
  with c_next [OF _ c_others] assms(2) have "c_reach m ((cli d)\<lparr>chans_of := ?m\<lparr>mRptNotifyCh := n\<rparr>\<rparr>)"
    unfolding halves_ok_def by metis
  with assms(2) d_viewer show ?thesis by (simp add: halves_ok_def)
qed

lemma reach_halves:
  assumes "d_reach X (d_init r w m) d"
  shows "halves_ok X (Run_init r w) m d"
  using assms
proof induction
  case d_refl
  show ?case by (simp add: halves_ok_def d_init_def reachable.refl c_reach.c_refl) (simp add: c_init_def)
next
  case (d_next d d')
  then show ?case by (blast intro: d_step_halves)
qed


text \<open>
  The example and the library fit together. In every run of the two side by side, the
  library is in a state its own system reaches, so that all that is proved of \<open>Run\<close> holds of the
  deployment, and the client is in a state its own model reaches.
\<close>
theorem deployment_runs_both:
  assumes "boot w0" and "createGoIGMPReporter X deadline mc w0 = (Inr r, w1)"
    and "d_reach X (d_init r w1 m) d"
  shows "\<exists>s0. launched X (client_config deadline mc) s0 \<and> reachable X s0 (lib d) \<and> c_reach m (cli d)"
proof -
  from assms(1,2) have "launched X (client_config deadline mc) (Run_init r w1)"
    by (auto simp: launched_def createGoIGMPReporter_def)
  with reach_halves [OF assms(3)] show ?thesis by (auto simp: halves_ok_def)
qed

subsection \<open>What the client says is what the network hears\<close>

primrec reports_in :: "message list \<Rightarrow> MembershipItem list list" where
  "reports_in [] = []"
| "reports_in (msg # h) = (case msg of ReportMsg b \<Rightarrow> [b] | LeaveMsg b \<Rightarrow> []) @ reports_in h"

primrec leaves_in :: "message list \<Rightarrow> MembershipItem list list" where
  "leaves_in [] = []"
| "leaves_in (msg # h) = (case msg of ReportMsg b \<Rightarrow> [] | LeaveMsg b \<Rightarrow> [b]) @ leaves_in h"

lemma in_append [simp]:
  "reports_in (h @ h') = reports_in h @ reports_in h'" "leaves_in (h @ h') = leaves_in h @ leaves_in h'"
  by (induction h) simp_all

fun says :: "externals \<Rightarrow> IGMPReporter \<Rightarrow> message \<Rightarrow> datagram list \<Rightarrow> bool" where
  "says X r (ReportMsg b) ds = says_report X r b ds"
| "says X r (LeaveMsg b) ds = says_leave X r b ds"

definition spoken :: "externals \<Rightarrow> IGMPReporter \<Rightarrow> world \<Rightarrow> MembershipItem list list \<Rightarrow>
    MembershipItem list list \<Rightarrow> bool" where
  "spoken X r w rs ls \<longleftrightarrow>
     (\<exists>h dss. wire w = concat dss \<and> list_all2 (says X r) h dss \<and>
        reports_in h @ to_report w = rs \<and> leaves_in h @ to_leave w = ls)"

lemma spoken_delivers:
  assumes "spoken X r w rs ls" "delivers X r w w'"
  shows "spoken X r w' rs ls"
proof -
  from assms(1) obtain h dss where h: "wire w = concat dss" "list_all2 (says X r) h dss"
      "reports_in h @ to_report w = rs" "leaves_in h @ to_leave w = ls"
    by (auto simp: spoken_def)
  from assms(2) show ?thesis unfolding delivers_def
  proof (elim disjE exE conjE)
    assume "wire w' = wire w" "to_report w' = to_report w" "to_leave w' = to_leave w"
    with assms(1) show ?thesis by (simp add: spoken_def)
  next
    fix b ds assume "to_report w = b # to_report w'" "to_leave w' = to_leave w" "wire w' = wire w @ ds"
      "says_report X r b ds"
    with h show ?thesis unfolding spoken_def
      by (intro exI [of _ "h @ [ReportMsg b]"] exI [of _ "dss @ [ds]"]) (auto intro: list_all2_appendI)
  next
    fix b ds assume "to_leave w = b # to_leave w'" "to_report w' = to_report w" "wire w' = wire w @ ds"
      "says_leave X r b ds"
    with h show ?thesis unfolding spoken_def
      by (intro exI [of _ "h @ [LeaveMsg b]"] exI [of _ "dss @ [ds]"]) (auto intro: list_all2_appendI)
  qed
qed

lemma spoken_moves:
  assumes "spoken X r w rs ls" "moves w w'"
  shows "spoken X r w' (rs @ drop (length (to_report w)) (to_report w')) (ls @ drop (length (to_leave w)) (to_leave w'))"
proof -
  from moves_append [OF assms(2)] obtain rs' ls' where "wire w' = wire w"
    "to_report w' = to_report w @ rs'" "to_leave w' = to_leave w @ ls'" by blast
  with assms(1) show ?thesis by (auto simp: spoken_def)
qed

definition spoken_ok :: "externals \<Rightarrow> deployment \<Rightarrow> bool" where
  "spoken_ok X d \<longleftrightarrow>
     (dead (lib d) = None \<longrightarrow> spoken X (reporter (lib d)) (shared (lib d)) (reported d) (withdrawn d))"

lemma d_step_spoken:
  assumes "d_step X d d'" "spoken_ok X d" "launched X c s0" "reachable X s0 (lib d)" "no_proxy c"
  shows "spoken_ok X d'"
  using assms(1)
proof cases
  case (d_library s)
  from own_step_cases [OF d_library(2)] show ?thesis
  proof (elim disjE exE conjE)
    fix i q w'
    assume "dead (lib d) = None" "i < length (procs (lib d))"
      "go_step X (cancelled (lib d)) (procs (lib d) ! i) (shared (lib d)) (Inr q) w'"
      and s: "s = (lib d)\<lparr>procs := (procs (lib d))[i := q], shared := w', wg := wg_after q (wg (lib d))\<rparr>"
    with go_delivers [OF assms(3,4,5)] assms(2) spoken_delivers show ?thesis
      by (fastforce simp: d_library(1) s spoken_ok_def)
  qed (use assms(2) in \<open>auto simp: d_library(1) spoken_ok_def\<close>)
next
  case (d_client c w)
  from c_own_moves [OF d_client(3), of "shared (lib d)"] d_client(4) have "moves (shared (lib d)) w" by simp
  from spoken_moves [OF _ this] assms(2) d_client(1,2) show ?thesis by (simp add: spoken_ok_def)
qed (use assms(2) in \<open>simp_all add: spoken_ok_def\<close>)

text \<open>
  C4: What the client says is what the network hears. While the process lives, the wire holds
  exactly the batches taken off the two channels, one block per batch and one datagram per item;
  the reports heard so far followed by those still queued are the reports the client has sent, in
  its order, and so for the leaves. (Between a report and a leave the order on the wire may be
  another than the client's: they travel through different channels.)
\<close>
theorem client_is_heard:
  assumes "boot w0" and "createGoIGMPReporter X deadline mc w0 = (Inr r, w1)"
    and "d_reach X (d_init r w1 m) d" and "dead (lib d) = None"
  shows "\<exists>h dss. wire (shared (lib d)) = concat dss \<and> list_all2 (says X r) h dss \<and>
     reports_in h @ to_report (shared (lib d)) = reported d \<and>
     leaves_in h @ to_leave (shared (lib d)) = withdrawn d"
proof -
  let ?c = "client_config deadline mc" and ?init = "Run_init r w1"
  from assms(1,2) have l: "launched X ?c ?init"
    by (auto simp: launched_def createGoIGMPReporter_def)
  have "no_proxy ?c" by (simp add: no_proxy_def client_config_def)
  note stp = d_step_spoken [OF _ _ l _ this]
  have init: "spoken_ok X (d_init r w1 m)"
  proof -
    from l obtain r' w' where "?init = Run_init r' w'" "built_world ?c w'" "wire w' = []"
      by (rule launched_boot)
    then show ?thesis
      by (auto simp: spoken_ok_def spoken_def d_init_def Run_init_def built_world_def fresh_chan_def
          client_config_def intro!: exI [of _ "[]"])
  qed
  from assms(3) have "spoken_ok X d"
  proof induction
    case d_refl
    show ?case by (rule init)
  next
    case (d_next d d')
    from reach_halves [OF d_next(1)] have "reachable X ?init (lib d)" by (simp add: halves_ok_def)
    with stp d_next show ?case by blast
  qed
  moreover have "reporter (lib d) = r"
    using reach_halves [OF assms(3)] reachable_reporter by (fastforce simp: halves_ok_def Run_init_def)
  ultimately show ?thesis using assms(4) by (simp add: spoken_ok_def spoken_def)
qed


subsection \<open>Witnesses\<close>

definition sample_mc :: mcast_config where
  "sample_mc = \<lparr>m_Interface = ''eth0'', UnicastIGMPDestinationIPStr = ''10.99.0.1'', IGMPDebugLevel = 11\<rparr>"

lemma sample_creates:
  obtains r w where "createGoIGMPReporter sample_externals Second sample_mc sample_world = (Inr r, w)"
    "MembershipReportToNetworkCh w = Some sample_chan" "LeaveToNetworkCh w = Some sample_chan"
proof -
  obtain r w where run: "createGoIGMPReporter sample_externals Second sample_mc sample_world = (Inr r, w)"
    unfolding createGoIGMPReporter_def
    by (rule sample_builds [of "client_config Second sample_mc"])
      (simp_all add: sample_mc_def client_config_def goIGMPChannelSizeCst_def)
  from run NewIGMPReporter_world [of sample_externals "client_config Second sample_mc"]
  have "built_world (client_config Second sample_mc) w" by (simp add: createGoIGMPReporter_def)
  then have "MembershipReportToNetworkCh w = Some sample_chan" "LeaveToNetworkCh w = Some sample_chan"
    by (simp_all add: built_world_def fresh_chan_def client_config_def goIGMPChannelSizeCst_def sample_chan_def)
  with run that show thesis by blast
qed

text \<open>One tick of the only gratuitous reporter.\<close>

lemma deployment_ticks:
  assumes "d_reach X d0 d" "dead (lib d) = None" "greps (cli d) = [g]" "g_at g = GSelect"
    and "g_tick vs g (chans_of (attach (lib d) (cli d))) = (msgs, g', m')"
  obtains d' where "d_reach X d0 d'" "greps (cli d') = [g']"
    "lib d' = (lib d)\<lparr>shared := detach m' (shared (lib d))\<rparr>"
    "reported d' = reported d @ drop (length (to_report (shared (lib d)))) (to_report (shared (lib d')))"
    "withdrawn d' = withdrawn d @ drop (length (to_leave (shared (lib d)))) (to_leave (shared (lib d')))"
proof -
  let ?a = "attach (lib d) (cli d)"
  have own: "c_own ?a (?a\<lparr>greps := (greps ?a)[0 := g'], chans_of := m'\<rparr>)"
    using assms(3-5) by (intro c_grep [where msgs = msgs] g_ticks) (simp_all add: attach_def)
  note r = d_next [OF assms(1) d_client [OF assms(2) own HOL.refl]]
  show thesis by (rule that [OF r]) (use assms(3) in \<open>simp_all add: attach_def\<close>)
qed

lemma tick_sends:
  assumes "toNetworkCh m = Some c1" "leaveCh m = Some c2" "gs \<noteq> []"
    and "length (chQueue c1) < chCap c1 + chWaiting c1" "length (chQueue c2) < chCap c2 + chWaiting c2"
  shows "\<exists>m'. g_tick (map LocalStream gs) g m =
      ([LeaveMsg (findGroupsToLeave gs (previousGroups g)), ReportMsg gs],
       g\<lparr>g_at := GSelect, previousGroups := gs\<rparr>, m') \<and>
    toNetworkCh m' = Some (c1\<lparr>chQueue := chQueue c1 @ [gs]\<rparr>) \<and>
    leaveCh m' = Some (c2\<lparr>chQueue := chQueue c2 @ [findGroupsToLeave gs (previousGroups g)]\<rparr>)"
proof -
  have "build_range (map LocalStream gs) u = (gs, u)" for u
    by (induction gs) simp_all
  with assms show ?thesis
    by (simp add: g_tick_def buildMembershipItems_def findAndLeaveGroups_def sendLeaves_def
        g_after_leaves_def sendMemberShipReport_def try_send_ref_def try_send_def m_inc_def Let_def)
qed

text \<open>A tick with room on both channels: the leaves and the report are queued.\<close>

lemma deployment_sends:
  assumes d: "d_reach X d0 d" "dead (lib d) = None" "greps (cli d) = [g]"
    and ch: "MembershipReportToNetworkCh (shared (lib d)) = Some c1" "LeaveToNetworkCh (shared (lib d)) = Some c2"
    and g: "g_at g = GSelect" and gs: "gs \<noteq> []"
    and room: "length (chQueue c1) < chCap c1 + chWaiting c1" "length (chQueue c2) < chCap c2 + chWaiting c2"
    and that: "\<And>d'. d_reach X d0 d' \<Longrightarrow> greps (cli d') = [g\<lparr>g_at := GSelect, previousGroups := gs\<rparr>] \<Longrightarrow>
      dead (lib d') = None \<Longrightarrow> lib d' = (lib d)\<lparr>shared := shared (lib d')\<rparr> \<Longrightarrow>
      wire (shared (lib d')) = wire (shared (lib d)) \<Longrightarrow>
      MembershipReportToNetworkCh (shared (lib d')) = Some (c1\<lparr>chQueue := chQueue c1 @ [gs]\<rparr>) \<Longrightarrow>
      LeaveToNetworkCh (shared (lib d')) =
        Some (c2\<lparr>chQueue := chQueue c2 @ [findGroupsToLeave gs (previousGroups g)]\<rparr>) \<Longrightarrow>
      reported d' = reported d @ [gs] \<Longrightarrow>
      withdrawn d' = withdrawn d @ [findGroupsToLeave gs (previousGroups g)] \<Longrightarrow> thesis"
  shows thesis
proof -
  let ?m = "chans_of (attach (lib d) (cli d))"
  have "toNetworkCh ?m = Some c1" "leaveCh ?m = Some c2" by (simp_all add: attach_def ch)
  from tick_sends [OF this gs room, of g] obtain m' where m':
    "g_tick (map LocalStream gs) g ?m = ([LeaveMsg (findGroupsToLeave gs (previousGroups g)), ReportMsg gs],
       g\<lparr>g_at := GSelect, previousGroups := gs\<rparr>, m')"
    "toNetworkCh m' = Some (c1\<lparr>chQueue := chQueue c1 @ [gs]\<rparr>)"
    "leaveCh m' = Some (c2\<lparr>chQueue := chQueue c2 @ [findGroupsToLeave gs (previousGroups g)]\<rparr>)"
    by blast
  obtain d' where "d_reach X d0 d'" "greps (cli d') = [g\<lparr>g_at := GSelect, previousGroups := gs\<rparr>]"
    "lib d' = (lib d)\<lparr>shared := detach m' (shared (lib d))\<rparr>"
    "reported d' = reported d @ drop (length (to_report (shared (lib d)))) (to_report (shared (lib d')))"
    "withdrawn d' = withdrawn d @ drop (length (to_leave (shared (lib d)))) (to_leave (shared (lib d')))"
    using deployment_ticks [OF d g m'(1)] by blast
  then show thesis using m'(2,3) ch d(2) by (intro that) simp_all
qed

text \<open>A viewer is announced and the gratuitous reporter starts.\<close>

lemma deployment_notified:
  assumes "d_reach X d0 d" "dead (lib d) = None" "cli d = c_init sample_mcast"
  obtains d' where "d_reach X d0 d'" "greps (cli d') = [fresh_grep]" "lib d' = lib d"
    "reported d' = reported d" "withdrawn d' = withdrawn d"
proof -
  let ?c0 = "attach (lib d) (cli d)"
  have n: "m_at ?c0 = MSelect" "mRptNotifyCh (chans_of ?c0) = Some \<lparr>chCap = 1, chQueue = [()], chWaiting = 0\<rparr>"
    "singletonCh (chans_of ?c0) = \<lparr>chCap = 1, chQueue = [], chWaiting = 0\<rparr>" "greps ?c0 = []"
    by (simp_all add: attach_def assms(3) c_init_def m_inc_def sample_mcast_def)
  obtain m1 where m1: "startGReporter (greps ?c0) (m_head ''notify'' ((chans_of ?c0)
      \<lparr>mRptNotifyCh := Some \<lparr>chCap = 1, chQueue = [], chWaiting = 0\<rparr>\<rparr>)) = ([fresh_grep], m1)"
    using n by (simp add: startGReporter_def try_send_def)
  let ?c1 = "?c0\<lparr>greps := [fresh_grep], chans_of := m1\<rparr>"
  have own1: "c_own ?c0 ?c1" using n m1 by (intro c_notify) (auto simp: recv_now_def)
  have dw: "detach (chans_of ?c1) (shared (lib d)) = shared (lib d)"
    using m1 detach_attach [of "lib d" "cli d"]
    by (auto simp: startGReporter_def split: prod.splits bool.splits)
  have "(lib d)\<lparr>shared := shared (lib d)\<rparr> = lib d" by (cases "lib d") simp
  note same = this
  note r = d_next [OF assms(1) d_client [OF assms(2) own1 dw [symmetric]]]
  show thesis by (rule that [OF r]) (simp_all add: same)
qed

text \<open>The sample: announced, one tick, one stream reported.\<close>

lemma sample_deployment:
  assumes "MembershipReportToNetworkCh w = Some sample_chan" "LeaveToNetworkCh w = Some sample_chan"
  obtains d where "d_reach X (d_init r w sample_mcast) d" "dead (lib d) = None"
    "reported d = [[sample_item]]" "withdrawn d = [[]]"
proof -
  let ?d0 = "d_init r w sample_mcast"
  have 0: "dead (lib ?d0) = None" "cli ?d0 = c_init sample_mcast" "shared (lib ?d0) = w"
    "reported ?d0 = []" "withdrawn ?d0 = []"
    by (simp_all add: d_init_def Run_init_def)
  obtain d1 where 1: "d_reach X ?d0 d1" "greps (cli d1) = [fresh_grep]" "lib d1 = lib ?d0"
    "reported d1 = reported ?d0" "withdrawn d1 = withdrawn ?d0"
    by (rule deployment_notified [OF d_refl 0(1,2), of X])
  obtain d2 where "d_reach X ?d0 d2" "dead (lib d2) = None" "reported d2 = [[sample_item]]" "withdrawn d2 = [[]]"
    by (rule deployment_sends [OF 1(1) _ 1(2), of sample_chan sample_chan "[sample_item]"])
      (use assms 0 1 in \<open>simp_all add: fresh_grep_def sample_chan_def findGroupsToLeave_filter\<close>)
  then show thesis by (rule that)
qed

theorem deployment_runs_both_witness:
  "\<exists>r w d s0. createGoIGMPReporter sample_externals Second sample_mc sample_world = (Inr r, w) \<and>
     d_reach sample_externals (d_init r w sample_mcast) d \<and> reported d = [[sample_item]] \<and>
     reachable sample_externals s0 (lib d) \<and> c_reach sample_mcast (cli d)"
proof -
  obtain r w where run: "createGoIGMPReporter sample_externals Second sample_mc sample_world = (Inr r, w)"
    "MembershipReportToNetworkCh w = Some sample_chan" "LeaveToNetworkCh w = Some sample_chan"
    by (rule sample_creates)
  obtain d where d: "d_reach sample_externals (d_init r w sample_mcast) d" "reported d = [[sample_item]]"
    using sample_deployment [OF run(2,3)] by metis
  from deployment_runs_both [OF sample_boot run(1) d(1)] run(1) d show ?thesis by blast
qed

theorem client_is_heard_witness:
  "\<exists>r w d h. createGoIGMPReporter sample_externals Second sample_mc sample_world = (Inr r, w) \<and>
     d_reach sample_externals (d_init r w sample_mcast) d \<and>
     reports_in h @ to_report (shared (lib d)) = [[sample_item]]"
proof -
  obtain r w where run: "createGoIGMPReporter sample_externals Second sample_mc sample_world = (Inr r, w)"
    "MembershipReportToNetworkCh w = Some sample_chan" "LeaveToNetworkCh w = Some sample_chan"
    by (rule sample_creates)
  obtain d where d: "d_reach sample_externals (d_init r w sample_mcast) d" "dead (lib d) = None"
      "reported d = [[sample_item]]"
    using sample_deployment [OF run(2,3)] by metis
  from client_is_heard [OF sample_boot run(1) d(1,2)] run(1) d(1,3) show ?thesis by metis
qed

end
