(* ===== verification/Ordering.thy ===== *)
theory Ordering
  imports Deployment
begin

text \<open>
  The order on the wire between reports and leaves. They travel through different channels to
  different goroutines, so nothing orders them: every interleaving of the two queues is a possible
  run of the two workers, in particular the one in which a leave overtakes the report that joined
  the group again (the client's gratuitous reporter sends both in one tick).
\<close>

subsection \<open>A batch that can be said is said\<close>

lemma returns_write:
  assumes "io_ok X" "conRaw r i \<noteq> None"
  shows "returns (setWriteDeadline X r i m)" "returns (writeTo X r i h p m)"
proof -
  from assms(2) obtain c where c: "conRaw r i = Some c" by blast
  show "returns (setWriteDeadline X r i m)"
    using returns_ioOrFatal [OF assms(1)] by (simp add: setWriteDeadline_def c)
  show "returns (writeTo X r i h p m)"
    using writeTo_works [OF c] assms(1) by (simp add: returns_def io_ok_def)
qed

lemma returns_items:
  assumes "io_ok X" "conRaw r i \<noteq> None"
  shows "announces X r i IGMPMembershipReportV2 (reportDest r) m d \<Longrightarrow> returns (sendReport_item X r i m)"
    and "announces X r i IGMPLeaveGroup (leaveDest r) m d \<Longrightarrow> returns (sendLeave_item X r i m)"
  using returns_write [OF assms]
  by (auto simp: announces_def sendReport_item_def sendLeave_item_def simp del: seqs.simps
      intro!: returns_bind_lift returns_seqs)

lemma list_all2_ex: "list_all2 P xs ys \<Longrightarrow> x \<in> set xs \<Longrightarrow> \<exists>y. P x y"
  by (auto simp: list_all2_conv_all_nth in_set_conv_nth)

lemma returns_bodies:
  assumes "io_ok X" "conRaw r OUT \<noteq> None"
  shows "says X r (ReportMsg b) ds \<Longrightarrow> returns (readMembershipReportToNetworkCh_body X r b)"
    and "says X r (LeaveMsg b) ds \<Longrightarrow> returns (leaveToNetworkWorker_body X r b)"
proof -
  assume "says X r (ReportMsg b) ds"
  then have "list_all returns (map (sendReport_item X r OUT) b)"
    by (auto simp: list_all_iff says_report_def reportDest_def [symmetric]
        dest!: list_all2_ex intro: returns_items [OF assms])
  then have "returns (sendMembershipReport X r OUT b)"
    unfolding sendMembershipReport_def by (intro returns_seqs) (simp del: seqs.simps add: returns_seqs)
  then show "returns (readMembershipReportToNetworkCh_body X r b)"
    unfolding readMembershipReportToNetworkCh_body_def by (intro returns_seqs) simp
next
  assume "says X r (LeaveMsg b) ds"
  then have "list_all returns (map (sendLeave_item X r OUT) b)"
    by (auto simp: list_all_iff says_leave_def leaveDest_def [symmetric]
        dest!: list_all2_ex intro: returns_items [OF assms])
  then have "returns (sendLeave X r OUT b)"
    unfolding sendLeave_def by (intro returns_seqs) (simp del: seqs.simps add: returns_seqs)
  then show "returns (leaveToNetworkWorker_body X r b)"
    unfolding leaveToNetworkWorker_body_def by (intro returns_seqs) simp
qed

subsection \<open>One turn of a worker\<close>

fun worker_of :: "message \<Rightarrow> task" where
  "worker_of (ReportMsg b) = ReportsToNetwork"
| "worker_of (LeaveMsg b) = LeavesToNetwork"

text \<open>The next message is at the head of its queue; afterwards it is off the queue and on the wire.\<close>

fun next_up :: "message \<Rightarrow> world \<Rightarrow> bool" where
  "next_up (ReportMsg b) w = (\<exists>q. to_report w = b # q)"
| "next_up (LeaveMsg b) w = (\<exists>q. to_leave w = b # q)"

fun said :: "externals \<Rightarrow> IGMPReporter \<Rightarrow> message \<Rightarrow> world \<Rightarrow> world \<Rightarrow> bool" where
  "said X r (ReportMsg b) w w' = (to_report w = b # to_report w' \<and> to_leave w' = to_leave w \<and>
     (\<exists>ds. wire w' = wire w @ ds \<and> says X r (ReportMsg b) ds))"
| "said X r (LeaveMsg b) w w' = (to_leave w = b # to_leave w' \<and> to_report w' = to_report w \<and>
     (\<exists>ds. wire w' = wire w @ ds \<and> says X r (LeaveMsg b) ds))"

lemma receive_says:
  assumes "io_ok X" "conRaw r OUT \<noteq> None" "says X r msg ds" "next_up msg w"
    and "blocked w (worker_of msg) \<in> {None, Some 0}"
  shows "\<exists>w'. receive_now X (worker_of msg) r w = Some (Inr (), w') \<and> said X r msg w w'"
proof (cases msg)
  case (ReportMsg b)
  with assms(4) obtain c q where c: "MembershipReportToNetworkCh w = Some c" "chQueue c = b # q"
    by (cases "MembershipReportToNetworkCh w") auto
  with assms(5) ReportMsg have 0: "chWaiting c = 0" by (simp add: blocked_def load_def)
  let ?v = "w\<lparr>MembershipReportToNetworkCh := Some (c\<lparr>chQueue := q\<rparr>)\<rparr>"
  have take: "take_now MembershipReportToNetworkCh MembershipReportToNetworkCh_update w = Some (b, ?v)"
    using c recv_now_fifo [OF 0] by (simp add: take_now_def)
  from returns_bodies(1) [OF assms(1,2)] assms(3) ReportMsg obtain w' where
    w': "readMembershipReportToNetworkCh_body X r b ?v = (Inr (), w')" by (fastforce simp: returns_def)
  from report_body_delivers [OF w'] take w' c ReportMsg show ?thesis
    by (auto simp: then_body_def)
next
  case (LeaveMsg b)
  with assms(4) obtain c q where c: "LeaveToNetworkCh w = Some c" "chQueue c = b # q"
    by (cases "LeaveToNetworkCh w") auto
  with assms(5) LeaveMsg have 0: "chWaiting c = 0" by (simp add: blocked_def load_def)
  let ?v = "w\<lparr>LeaveToNetworkCh := Some (c\<lparr>chQueue := q\<rparr>)\<rparr>"
  have take: "take_now LeaveToNetworkCh LeaveToNetworkCh_update w = Some (b, ?v)"
    using c recv_now_fifo [OF 0] by (simp add: take_now_def)
  from returns_bodies(2) [OF assms(1,2)] assms(3) LeaveMsg obtain w' where
    w': "leaveToNetworkWorker_body X r b ?v = (Inr (), w')" by (fastforce simp: returns_def)
  from leave_body_delivers [OF w'] take w' c LeaveMsg show ?thesis
    by (auto simp: then_body_def)
qed

lemma own_goes:
  assumes "dead s = None" "i < length (procs s)"
    and "go_step X (cancelled s) (procs s ! i) (shared s) (Inr q) w'"
  shows "own_step X s (s\<lparr>procs := (procs s)[i := q], shared := w', wg := wg_after q (wg s)\<rparr>)"
proof -
  have "(procs s)[i := q] \<noteq> procs s"
    using go_step_moves [OF assms(3)] assms(2) by (metis nth_list_update_eq)
  with go [OF assms] show ?thesis by (simp add: own_step_def)
qed

lemma worker_turn:
  assumes run: "launched X c s0" "reachable X s0 s" "dead s = None"
    and i: "i < length (procs s)" "procs s ! i = \<lparr>task_of = worker_of msg, self = r, at_point = Loop\<rparr>"
    and ok: "io_ok X" "conRaw r OUT \<noteq> None" "says X r msg ds" "next_up msg (shared s)"
  shows "\<exists>w'. (own_step X)\<^sup>*\<^sup>* s (s\<lparr>shared := w'\<rparr>) \<and> said X r msg (shared s) w'"
proof -
  let ?p = "\<lparr>task_of = worker_of msg, self = r, at_point = Loop\<rparr>"
    and ?q = "\<lparr>task_of = worker_of msg, self = r, at_point = Selecting\<rparr>"
  obtain w1 where h: "head_action (worker_of msg) (shared s) = (Inr (), w1)"
      and same: "to_report w1 = to_report (shared s)" "to_leave w1 = to_leave (shared s)" "wire w1 = wire (shared s)"
    by (cases msg) (simp_all add: incC_def)
  let ?t = "s\<lparr>procs := (procs s)[i := ?q], shared := w1\<rparr>"
  have nr: "\<not> is_receiver (worker_of msg)" by (cases msg) simp_all
  have 1: "own_step X s ?t"
    using own_goes [OF run(3) i(1), of X ?q w1] go_step.head [of ?p "shared s" "Inr ()" w1 X] nr h i(2)
    by (simp add: wg_after_def)
  then have rt: "reachable X s0 ?t" using run(2) by (auto simp: own_step_def intro: reachable.step)
  from run(1) rt obtain r' where "reporter ?t = r'" "built c r'" "copies_ok ?t" "accounting ?t"
    by (rule launched_facts)
  from selecting_alone [OF this(4) launched_wakeups [OF run(1) rt], of i] run(3) i(1)
  have "blocked w1 (worker_of msg) \<in> {None, Some 0}" by (cases msg) simp_all
  moreover from ok(4) have "next_up msg w1" using same by (cases msg) simp_all
  ultimately obtain w' where w': "receive_now X (worker_of msg) r w1 = Some (Inr (), w')" "said X r msg w1 w'"
    using receive_says [OF ok(1-3)] by blast
  have "own_step X ?t (s\<lparr>procs := (procs s)[i := ?p], shared := w'\<rparr>)"
    using own_goes [of ?t i X ?p w'] go_step.select_recv [of ?q X w1 "Inr ()" w'] run(3) i(1) w'(1)
    by (simp add: wg_after_def)
  moreover have "(procs s)[i := ?p] = procs s" using i by (metis list_update_id)
  moreover have "s\<lparr>procs := procs s, shared := w'\<rparr> = s\<lparr>shared := w'\<rparr>" by (cases s) simp
  ultimately have "own_step X ?t (s\<lparr>shared := w'\<rparr>)" by metis
  with 1 have "(own_step X)\<^sup>*\<^sup>* s (s\<lparr>shared := w'\<rparr>)"
    by (meson converse_rtranclp_into_rtranclp r_into_rtranclp)
  moreover from w'(2) same have "said X r msg (shared s) w'" by (cases msg) simp_all
  ultimately show ?thesis by blast
qed

subsection \<open>Every interleaving\<close>

definition idle_worker :: "sys \<Rightarrow> task \<Rightarrow> bool" where
  "idle_worker s t \<longleftrightarrow> (\<exists>p \<in> set (procs s). task_of p = t \<and> at_point p = Loop)"

lemma idle_workerI:
  "i < length (procs s) \<Longrightarrow> task_of (procs s ! i) = t \<Longrightarrow> at_point (procs s ! i) = Loop \<Longrightarrow> idle_worker s t"
  by (auto simp: idle_worker_def)

lemma idle_workerE:
  assumes "idle_worker s (worker_of msg)" "copies_ok s"
  obtains i where "i < length (procs s)"
    "procs s ! i = \<lparr>task_of = worker_of msg, self = reporter s, at_point = Loop\<rparr>"
proof -
  from assms(1) obtain i where i: "i < length (procs s)" "task_of (procs s ! i) = worker_of msg"
      "at_point (procs s ! i) = Loop"
    by (auto simp: idle_worker_def in_set_conv_nth)
  have "self (procs s ! i) = reporter s"
    using proc_copy [OF assms(2) i(1)] i(2) by (cases msg) (auto simp: copy_ok_def)
  with i have "procs s ! i = \<lparr>task_of = worker_of msg, self = reporter s, at_point = Loop\<rparr>" by simp
  with i(1) show thesis by (rule that)
qed

lemma interleaving_runs:
  assumes "launched X c s0" "io_ok X" "conRaw (reporter s) OUT \<noteq> None"
  shows "reachable X s0 s \<Longrightarrow> dead s = None \<Longrightarrow>
    idle_worker s ReportsToNetwork \<Longrightarrow> idle_worker s LeavesToNetwork \<Longrightarrow>
    h \<in> shuffles (map ReportMsg (to_report (shared s))) (map LeaveMsg (to_leave (shared s))) \<Longrightarrow>
    \<forall>msg \<in> set h. \<exists>ds. says X (reporter s) msg ds \<Longrightarrow>
    \<exists>w' dss. (own_step X)\<^sup>*\<^sup>* s (s\<lparr>shared := w'\<rparr>) \<and> to_report w' = [] \<and> to_leave w' = [] \<and>
      wire w' = wire (shared s) @ concat dss \<and> list_all2 (says X (reporter s)) h dss"
  using assms(3)
proof (induction h arbitrary: s)
  case Nil
  then have "to_report (shared s) = []" "to_leave (shared s) = []" by simp_all
  moreover have "s\<lparr>shared := shared s\<rparr> = s" by (cases s) simp
  ultimately show ?case by (intro exI [of _ "shared s"] exI [of _ "[]"]) simp
next
  case (Cons msg h)
  let ?r = "reporter s"
  from assms(1) Cons.prems(1) obtain r where "copies_ok s" by (rule launched_facts)
  moreover have "idle_worker s (worker_of msg)" using Cons.prems(3,4) by (cases msg) simp_all
  ultimately obtain i where i: "i < length (procs s)"
      "procs s ! i = \<lparr>task_of = worker_of msg, self = ?r, at_point = Loop\<rparr>"
    by (metis idle_workerE)
  from Cons.prems(6) obtain ds where ds: "says X ?r msg ds" by auto
  have up: "next_up msg (shared s)" using Cons.prems(5)
    by (cases msg) (auto simp: Cons_in_shuffles_iff neq_Nil_conv)
  from worker_turn [OF assms(1) Cons.prems(1,2) i assms(2) Cons.prems(7) ds up] obtain w1 where
    w1: "(own_step X)\<^sup>*\<^sup>* s (s\<lparr>shared := w1\<rparr>)" "said X ?r msg (shared s) w1" by blast
  let ?t = "s\<lparr>shared := w1\<rparr>"
  have "h \<in> shuffles (map ReportMsg (to_report w1)) (map LeaveMsg (to_leave w1))"
    using Cons.prems(5) w1(2) by (cases msg) (auto simp: Cons_in_shuffles_iff hd_map)
  then obtain w' dss where w': "(own_step X)\<^sup>*\<^sup>* ?t (?t\<lparr>shared := w'\<rparr>)" "to_report w' = []" "to_leave w' = []"
      "wire w' = wire w1 @ concat dss" "list_all2 (says X ?r) h dss"
    using Cons.IH [of ?t] own_steps_reach [OF w1(1) Cons.prems(1)] Cons.prems
    by (auto simp: idle_worker_def)
  from w1(2) obtain ds' where "wire w1 = wire (shared s) @ ds'" "says X ?r msg ds'" by (cases msg) auto
  with w' rtranclp_trans [OF w1(1), of "s\<lparr>shared := w'\<rparr>"] show ?case
    by (intro exI [of _ w'] exI [of _ "ds' # dss"]) simp
qed

text \<open>
  C5: Nothing orders reports and leaves. Whenever both workers are at the head of their loops, every
  interleaving of the batches waiting in the two channels can be what goes out: for each there is a
  run of the two workers, with no step of anyone else, that empties both channels and puts exactly
  these batches on the wire in this order. (A batch must be sayable, and the system calls work.)
\<close>
theorem every_order_can_be_heard:
  assumes "launched X c s0" and "reachable X s0 s" and "dead s = None" and "io_ok X"
    and "conRaw (reporter s) OUT \<noteq> None"
    and "idle_worker s ReportsToNetwork" and "idle_worker s LeavesToNetwork"
    and "h \<in> shuffles (map ReportMsg (to_report (shared s))) (map LeaveMsg (to_leave (shared s)))"
    and "\<forall>msg \<in> set h. \<exists>ds. says X (reporter s) msg ds"
  shows "\<exists>w' dss. (own_step X)\<^sup>*\<^sup>* s (s\<lparr>shared := w'\<rparr>) \<and> to_report w' = [] \<and> to_leave w' = [] \<and>
     wire w' = wire (shared s) @ concat dss \<and> list_all2 (says X (reporter s)) h dss"
  by (rule interleaving_runs [OF assms(1,4,5,2,3,6-9)])

subsection \<open>The deployment overtaken\<close>

text \<open>Runs of the reporter alone are runs of the deployment; all goroutines started.\<close>

lemma library_runs:
  "(own_step X)\<^sup>*\<^sup>* s s' \<Longrightarrow> d_reach X d0 d \<Longrightarrow> lib d = s \<Longrightarrow> d_reach X d0 (d\<lparr>lib := s'\<rparr>)"
proof (induction rule: rtranclp_induct)
  case base
  have "d\<lparr>lib := lib d\<rparr> = d" by (cases d) simp
  with base show ?case by metis
next
  case (step u v)
  from d_library [of X "d\<lparr>lib := u\<rparr>" v] step have "d_step X (d\<lparr>lib := u\<rparr>) (d\<lparr>lib := v\<rparr>)" by simp
  with step show ?case by (blast intro: d_next)
qed

lemma own_spawns:
  "dead s = None \<Longrightarrow> (own_step X)\<^sup>*\<^sup>* s (s\<lparr>todo := [], wg := wg s + length (todo s),
     procs := procs s @ fresh_procs (reporter s) (todo s)\<rparr>)"
proof (induction "todo s" arbitrary: s)
  case Nil
  then have same: "s\<lparr>todo := []\<rparr> = s" by (cases s) simp
  with Nil show ?case by (simp add: fresh_procs_def same flip: Nil.hyps)
next
  case (Cons t ts)
  let ?s = "s\<lparr>todo := ts, wg := Suc (wg s),
     procs := procs s @ [\<lparr>task_of = t, self = reporter s, at_point = Fresh\<rparr>]\<rparr>"
  have "own_step X s ?s"
    unfolding own_step_def using spawn [OF Cons.prems Cons.hyps(2) [symmetric], of X] by simp
  from converse_rtranclp_into_rtranclp [OF this Cons.hyps(1) [of ?s]] Cons.prems Cons.hyps(2) [symmetric]
  show ?case by (simp add: fresh_procs_def)
qed

lemma own_started: "(own_step X)\<^sup>*\<^sup>* (Run_init r w) (started r w)"
  using own_spawns [of "Run_init r w" X] by (simp add: started_def Run_init_def)

lemma worker_starts:
  assumes "dead s = None" "i < length (procs s)"
    "procs s ! i = \<lparr>task_of = t, self = r, at_point = Fresh\<rparr>" "\<And>sd. t \<noteq> RecvUnicast sd"
  shows "own_step X s (s\<lparr>procs := (procs s)[i := \<lparr>task_of = t, self = r, at_point = Loop\<rparr>]\<rparr>)"
proof -
  have "start_action t r (shared s) = (Inr (), shared s)" using assms(4) by (cases t) auto
  from go_step.start [of "procs s ! i" "shared s" "Inr ()" "shared s" X "cancelled s"] this
    own_goes [OF assms(1,2), of X] assms(3) show ?thesis
    by (fastforce simp: wg_after_def)
qed

subsection \<open>Witness: a leave overtakes the report that joined again\<close>

definition sample_other :: MembershipItem where
  "sample_other = sample_item\<lparr>Group := Addr4 239 1 1 2\<rparr>"

text \<open>Three ticks with room on both channels: one stream, another, the first again.\<close>

lemma three_ticks:
  assumes "d_reach X d0 d" "dead (lib d) = None" "greps (cli d) = [fresh_grep]"
    and "MembershipReportToNetworkCh (shared (lib d)) = Some sample_chan"
      "LeaveToNetworkCh (shared (lib d)) = Some sample_chan"
  obtains d' w where "d_reach X d0 d'" "lib d' = (lib d)\<lparr>shared := w\<rparr>" "wire w = wire (shared (lib d))"
    "greps (cli d') = [\<lparr>g_at = GSelect, previousGroups = [sample_item]\<rparr>]"
    "to_report w = [[sample_item], [sample_other], [sample_item]]"
    "to_leave w = [[], [sample_item], [sample_other]]"
proof -
  have neq: "Group sample_item \<noteq> Group sample_other" by (simp add: sample_other_def sample_item_def)
  let ?tick = "\<lambda>gs. \<lparr>g_at = GSelect, previousGroups = gs\<rparr>"
  obtain d1 where 1: "d_reach X d0 d1" "greps (cli d1) = [?tick [sample_item]]" "dead (lib d1) = None"
    "lib d1 = (lib d)\<lparr>shared := shared (lib d1)\<rparr>" "wire (shared (lib d1)) = wire (shared (lib d))"
    "MembershipReportToNetworkCh (shared (lib d1)) = Some (sample_chan\<lparr>chQueue := [[sample_item]]\<rparr>)"
    "LeaveToNetworkCh (shared (lib d1)) = Some (sample_chan\<lparr>chQueue := [[]]\<rparr>)"
    by (rule deployment_sends [OF assms(1-5), of "[sample_item]"])
      (simp_all add: fresh_grep_def sample_chan_def findGroupsToLeave_filter)
  obtain d2 where 2: "d_reach X d0 d2" "greps (cli d2) = [?tick [sample_other]]" "dead (lib d2) = None"
    "lib d2 = (lib d1)\<lparr>shared := shared (lib d2)\<rparr>" "wire (shared (lib d2)) = wire (shared (lib d1))"
    "MembershipReportToNetworkCh (shared (lib d2)) = Some (sample_chan\<lparr>chQueue := [[sample_item], [sample_other]]\<rparr>)"
    "LeaveToNetworkCh (shared (lib d2)) = Some (sample_chan\<lparr>chQueue := [[], [sample_item]]\<rparr>)"
    by (rule deployment_sends [OF 1(1,3,2,6,7), of "[sample_other]"])
      (use neq in \<open>simp_all add: sample_chan_def findGroupsToLeave_filter\<close>)
  obtain d3 where 3: "d_reach X d0 d3" "greps (cli d3) = [?tick [sample_item]]" "dead (lib d3) = None"
    "lib d3 = (lib d2)\<lparr>shared := shared (lib d3)\<rparr>" "wire (shared (lib d3)) = wire (shared (lib d2))"
    "MembershipReportToNetworkCh (shared (lib d3)) =
       Some (sample_chan\<lparr>chQueue := [[sample_item], [sample_other], [sample_item]]\<rparr>)"
    "LeaveToNetworkCh (shared (lib d3)) = Some (sample_chan\<lparr>chQueue := [[], [sample_item], [sample_other]]\<rparr>)"
    by (rule deployment_sends [OF 2(1,3,2,6,7), of "[sample_item]"])
      (use neq in \<open>simp_all add: sample_chan_def findGroupsToLeave_filter\<close>)
  have "lib d3 = (lib d)\<lparr>shared := shared (lib d3)\<rparr>"
    by (subst 3(4), subst 2(4), subst 1(4)) simp
  with 3 2(5) 1(5) show thesis by (intro that [of d3 "shared (lib d3)"]) simp_all
qed

text \<open>Everything the client can send can be said.\<close>

lemma sayable:
  assumes "built (client_config Second sample_mc) r"
    and "\<forall>m \<in> set (case msg of ReportMsg b \<Rightarrow> b | LeaveMsg b \<Rightarrow> b). \<exists>g. addr2NetIP (Group m) = Inr g"
  shows "\<exists>ds. says sample_externals r msg ds"
proof -
  have "UnicastDst (client_config Second sample_mc) = ''10.99.0.1''"
    by (simp add: client_config_def sample_mc_def)
  with assms(1) have r: "unicastDst r = Addr4 10 99 0 1" "querierSourceIP r = AddrZero"
      "UnicastMembershipReports (conf r)"
    by (auto simp: built_def MustParseAddr_def sample_parse client_config_def)
  then have "destinationNetIP r QueryHost = Inr [10, 99, 0, 1]"
    by (simp add: destinationNetIP_def Addr_IsValid_def reporter_addr2NetIP_def)
  then have hdr: "\<exists>h. ipv4Header sample_externals r n QueryHost = Inr h" for n
    by (simp add: ipv4Header_def)
  have ser: "\<exists>p. serializeV1or2 sample_externals g = Some p" for g
    by (simp add: sample_externals_def sample_serialize_def)
  have one: "\<exists>d. announces sample_externals r OUT k QueryHost m d"
    if "\<exists>g. addr2NetIP (Group m) = Inr g" for k m
    using that hdr ser unfolding announces_def by metis
  have batch: "\<exists>ds. list_all2 (announces sample_externals r OUT k QueryHost) b ds"
    if "\<forall>m \<in> set b. \<exists>g. addr2NetIP (Group m) = Inr g" for k b
    using that
  proof (induction b)
    case (Cons m b)
    with one [of m k] obtain d ds where "announces sample_externals r OUT k QueryHost m d"
      "list_all2 (announces sample_externals r OUT k QueryHost) b ds" by auto
    then show ?case by (intro exI [of _ "d # ds"]) simp
  qed (auto intro: exI [of _ "[]"])
  show ?thesis using batch assms(2) r(3)
    by (cases msg) (simp_all add: says_report_def says_leave_def)
qed

theorem every_order_can_be_heard_witness:
  "\<exists>r w d dss. createGoIGMPReporter sample_externals Second sample_mc sample_world = (Inr r, w) \<and>
     d_reach sample_externals (d_init r w sample_mcast) d \<and>
     greps (cli d) = [\<lparr>g_at = GSelect, previousGroups = [sample_item]\<rparr>] \<and>
     to_report (shared (lib d)) = [] \<and> to_leave (shared (lib d)) = [] \<and> wire (shared (lib d)) = concat dss \<and>
     list_all2 (says sample_externals r) [ReportMsg [sample_item], ReportMsg [sample_other],
       ReportMsg [sample_item], LeaveMsg [], LeaveMsg [sample_item], LeaveMsg [sample_other]] dss \<and>
     joined_groups [ReportMsg [sample_item], ReportMsg [sample_other],
       ReportMsg [sample_item], LeaveMsg [], LeaveMsg [sample_item], LeaveMsg [sample_other]] = {}"
    (is "\<exists>r w d dss. _ \<and> _ \<and> _ \<and> _ \<and> _ \<and> _ \<and> list_all2 _ ?h dss \<and> _")
proof -
  let ?X = sample_externals
  obtain r w where new: "createGoIGMPReporter ?X Second sample_mc sample_world = (Inr r, w)"
    "MembershipReportToNetworkCh w = Some sample_chan" "LeaveToNetworkCh w = Some sample_chan"
    by (rule sample_creates)
  then have l: "launched ?X (client_config Second sample_mc) (Run_init r w)"
    using sample_boot by (auto simp: launched_def createGoIGMPReporter_def)
  have b: "built (client_config Second sample_mc) r" and wire0: "wire w = []"
    by (rule launched_boot [OF l], simp add: Run_init_def)+
  let ?d0 = "d_init r w sample_mcast"
  have tasks: "tasks_of r = [RecvIGMP OUT allHosts, RecvIGMP OUT allRouters, RecvIGMP OUT IGMPHosts,
      ReportsToNetwork, LeavesToNetwork]"
    using b built_groups [OF b] by (simp add: tasks_of_def client_config_def the_multicastGroups_def built_def has_alt_def)
  let ?s0 = "started r w"
  let ?s1 = "?s0\<lparr>procs := (procs ?s0)[3 := \<lparr>task_of = ReportsToNetwork, self = r, at_point = Loop\<rparr>]\<rparr>"
  let ?s2 = "?s1\<lparr>procs := (procs ?s1)[4 := \<lparr>task_of = LeavesToNetwork, self = r, at_point = Loop\<rparr>]\<rparr>"
  have "own_step ?X ?s0 ?s1" by (rule worker_starts) (simp_all add: tasks)
  moreover have "own_step ?X ?s1 ?s2" by (rule worker_starts) (simp_all add: tasks)
  ultimately have s2: "(own_step ?X)\<^sup>*\<^sup>* (Run_init r w) ?s2" using own_started [of ?X r w] by simp
  have "d_reach ?X ?d0 (?d0\<lparr>lib := ?s2\<rparr>)"
    by (rule library_runs [OF s2 d_refl]) (simp add: d_init_def)
  then obtain d1 where d1: "d_reach ?X ?d0 d1" "greps (cli d1) = [fresh_grep]" "lib d1 = ?s2"
    by (rule deployment_notified) (simp_all add: d_init_def)
  obtain d2 w2 where d2: "d_reach ?X ?d0 d2" "lib d2 = ?s2\<lparr>shared := w2\<rparr>" "wire w2 = []"
    "greps (cli d2) = [\<lparr>g_at = GSelect, previousGroups = [sample_item]\<rparr>]"
    "to_report w2 = [[sample_item], [sample_other], [sample_item]]"
    "to_leave w2 = [[], [sample_item], [sample_other]]"
    by (rule three_ticks [OF d1(1) _ d1(2)]) (use d1(3) new wire0 in simp_all)
  let ?s = "lib d2"
  have reach: "reachable ?X (Run_init r w) ?s" using reach_halves [OF d2(1)] by (simp add: halves_ok_def)
  have s: "dead ?s = None" "reporter ?s = r" "shared ?s = w2" using d2(2) by simp_all
  have idle: "idle_worker ?s ReportsToNetwork" "idle_worker ?s LeavesToNetwork"
    using d2(2) tasks by (auto intro: idle_workerI [of 3] idle_workerI [of 4])
  have raw: "conRaw (reporter ?s) OUT \<noteq> None"
    using b s(2) by (auto simp: built_def raws_of_def client_config_def dom_def)
  have h: "?h \<in> shuffles (map ReportMsg (to_report (shared ?s))) (map LeaveMsg (to_leave (shared ?s)))"
    using s(3) d2(5,6) by (simp add: Cons_in_shuffles_iff)
  have "\<forall>msg \<in> set ?h. \<exists>ds. says ?X (reporter ?s) msg ds"
    using sayable [OF b] s(2) by (auto simp: sample_other_def sample_item_def addr2NetIP_def Addr_IsValid_def)
  from every_order_can_be_heard [OF l reach s(1) sample_io raw idle h this]
  obtain w' dss where w': "(own_step ?X)\<^sup>*\<^sup>* ?s (?s\<lparr>shared := w'\<rparr>)" "to_report w' = []" "to_leave w' = []"
    "wire w' = concat dss" "list_all2 (says ?X r) ?h dss"
    using s d2(3) by auto
  have "joined_groups ?h = {}" by auto
  with library_runs [OF w'(1) d2(1) HOL.refl] w' d2(4) new(1) show ?thesis
    by (intro exI [of _ r] exI [of _ w] exI [of _ "d2\<lparr>lib := ?s\<lparr>shared := w'\<rparr>\<rparr>"] exI [of _ dss]) simp
qed

end
