(* ===== verification/Chain.thy ===== *)
theory Chain
  imports Ordering
begin

text \<open>
  Two instances of the library, as in the client mode of the README: the client's reporter sends
  its reports and leaves as unicast IGMP messages, and a proxy (\<open>UnicastProxyInToOut\<close>) translates
  them into multicast on its outside. What one instance says is what the other one hears, so the
  memberships of the client reach the outside network.
\<close>

subsection \<open>The codec\<close>

text \<open>
  What the two ends rely on of gopacket, for reports and leaves of IPv4 groups: the serializer
  writes a message of at most 200 bytes that starts with the type, and the decoder reads the
  type's layer with the same group back from it, whatever bytes follow.
\<close>

definition codec_ok :: "externals \<Rightarrow> bool" where
  "codec_ok X \<longleftrightarrow>
     (\<forall>m p. serializeV1or2 X m = Some p \<longrightarrow>
        ig_Type m \<in> {IGMPMembershipReportV2, IGMPLeaveGroup} \<longrightarrow> length (ig_GroupAddress m) = 4 \<longrightarrow>
        p \<noteq> [] \<and> hd p = ig_Type m \<and> length p \<le> 200 \<and>
        (\<forall>rest. \<exists>ig. decodeIGMP X (p @ rest) = Some (LayerV1or2 ig) \<and>
           ig_GroupAddress ig = ig_GroupAddress m))"

lemma codec_okD:
  assumes "codec_ok X" "serializeV1or2 X m = Some p"
    "ig_Type m \<in> {IGMPMembershipReportV2, IGMPLeaveGroup}" "length (ig_GroupAddress m) = 4"
  obtains ts where "p = ig_Type m # ts" "length p \<le> 200"
    "\<And>rest. \<exists>ig. decodeIGMP X (p @ rest) = Some (LayerV1or2 ig) \<and> ig_GroupAddress ig = ig_GroupAddress m"
proof -
  from assms have "p \<noteq> [] \<and> hd p = ig_Type m \<and> length p \<le> 200 \<and>
      (\<forall>rest. \<exists>ig. decodeIGMP X (p @ rest) = Some (LayerV1or2 ig) \<and> ig_GroupAddress ig = ig_GroupAddress m)"
    unfolding codec_ok_def by blast
  then show thesis by (intro that [of "tl p"]) (auto simp: neq_Nil_conv)
qed

subsection \<open>One datagram\<close>

text \<open>Where a message about an item belongs on the outside.\<close>

fun outside_dest :: "u8 \<Rightarrow> net_ip \<Rightarrow> net_ip" where
  "outside_dest t g = (if t = IGMPLeaveGroup then IPv4allrouter else g)"

lemma ParseAddr_valid: "MustParseAddr s = Inr a \<Longrightarrow> Addr_IsValid a"
  by (auto simp: MustParseAddr_def ParseAddr_def parseIPv4_def parseIPv6_def Addr_IsValid_def Let_def
      split: option.splits if_splits prod.splits list.splits)

lemma unicast_message_crosses:
  assumes X: "io_ok X" "codec_ok X"
    and proxy: "conRaw r OUT \<noteq> None" "IntOutName w = [OUT \<mapsto> IN, IN \<mapsto> OUT]" "Addr_IsValid (unicastDst r)"
      "bufs_ok (b # H) w"
    and msg: "announces X rc OUT t QueryHost m d" "t \<in> {IGMPMembershipReportV2, IGMPLeaveGroup}"
      "addr2NetIP (Group m) = Inr g" "length g = 4"
  shows "\<exists>w' d'. recvUnicast_handle X IN b (ReadOk \<lparr>copied = dg_payload d, behind = rest\<rparr> cm src) r w = (Inr (), w') \<and>
     wire w' = wire w @ [d'] \<and> dg_via d' = OUT \<and> h_Dst (dg_hdr d') = outside_dest t g \<and>
     take (length (dg_payload d)) (dg_payload d') = dg_payload d"
proof -
  let ?m = "\<lparr>ig_Type = t, ig_MaxResponseTime = MaxResponseTimeCst, ig_GroupAddress = g, ig_Version = 2\<rparr>"
  from msg(1,3) obtain p where p: "serializeV1or2 X ?m = Some p" "dg_payload d = p"
    by (auto simp: announces_def dgram_def)
  from codec_okD [OF X(2) p(1)] msg(2,4) obtain ts where ts: "p = t # ts" "length p \<le> 200"
    and dec: "\<And>rest. \<exists>ig. decodeIGMP X (p @ rest) = Some (LayerV1or2 ig) \<and> ig_GroupAddress ig = g"
    by auto
  have len: "length (heap w b) = 200"
    using bufs_ok_length [OF proxy(4)] by (simp add: maxIGMPPacketRecieveBytesCst_def)
  let ?b = "overlay \<lparr>copied = p, behind = rest\<rparr> (heap w b)"
  have b: "?b = p @ map (rest (heap w b)) [length p..<200]" using ts(2) len by (simp add: overlay_def)
  from dec obtain ig where ig: "decodeIGMP X ?b = Some (LayerV1or2 ig)" "ig_GroupAddress ig = g"
    unfolding b by blast
  let ?u = "w\<lparr>heap := (heap w)(b := ?b),
    pC := bump [''recvUnicastIGMP'', ''n'', ''counter''] (min (length p) (length (heap w b))) (pC w)\<rparr>"
  have run: "recvUnicast_handle X IN b (ReadOk \<lparr>copied = dg_payload d, behind = rest\<rparr> cm src) r w = recvUnicast_process X r IN b ?u"
    by (simp add: recvUnicast_handle_def readInto_def addC_def p(2))
  have "ok_at (recvUnicast_process X r IN b) ?u"
    by (rule process_ok_at [OF X(1) proxy(3), of ?u b t "ts @ map (rest (heap w b)) [length p..<200]"])
      (use ig b ts(1) proxy(1,2) in \<open>auto simp: layer_fits_def\<close>)
  then obtain w' where w': "recvUnicast_process X r IN b ?u = (Inr (), w')" by (auto simp: ok_at_def)
  have "unicast_target X r ?u IN ?b = Some (OUT, outside_dest t g)"
    using ig b ts(1) msg(2) proxy(2) by (auto simp: unicast_target_def igmp_type_defs)
  with process_spec [OF w'] have "wire w' = wire w @ [resent X r (OUT, outside_dest t g) ?b]" by simp
  moreover have "take (length p) ?b = p" unfolding b by simp
  ultimately show ?thesis
    unfolding run using w' p(2)
    by (intro exI [of _ w'] exI [of _ "resent X r (OUT, outside_dest t g) ?b"])
      (simp add: resent_def dgram_def ipv4HeaderNetIP_def)
qed

subsection \<open>The unicast receiver of a running proxy\<close>

lemma unicast_reader:
  assumes "launched X c s0" "reachable X s0 s" "dead s = None" "\<not> has_alt c"
    and "i < length (procs s)" "task_of (procs s ! i) = RecvUnicast sd" "at_point (procs s ! i) = Reading b"
  obtains r H where "self (procs s ! i) = r" "sd = IN" "conRaw r OUT \<noteq> None" "Addr_IsValid (unicastDst r)"
    "bufs_ok (b # H) (shared s)" "IntOutName (shared s) = [OUT \<mapsto> IN, IN \<mapsto> OUT]"
proof -
  from assms(1,2) obtain r where r: "reporter s = r" "built c r" "copies_ok s" "accounting s"
    by (rule launched_facts)
  from proc_copy [OF r(3) assms(5)] r(1) assms(6) have me: "self (procs s ! i) = r" by (simp add: copy_ok_def)
  from proc_task [OF r(4) assms(5)] r(1) assms(6) have "RecvUnicast sd \<in> set (tasks_of r)" by simp
  then have sd: "sd = IN" and uni: "UnicastProxyInToOut c"
    using r(2) by (auto simp: tasks_of_def built_def split: if_splits)
  have "OUT \<in> dom (conRaw r)" using r(2) uni by (simp add: built_def raws_of_def)
  then have raw: "conRaw r OUT \<noteq> None" by blast
  have valid: "Addr_IsValid (unicastDst r)" using r(2) by (auto simp: built_def intro: ParseAddr_valid)
  obtain H where buf: "bufs_ok (b # H) (shared s)"
    using held_front [OF buffers_launched [OF assms(1-3)] assms(5,7)] by blast
  show ?thesis by (rule that [OF me sd raw valid buf fixed_table_launched [OF assms(1,2,4)]])
qed

text \<open>
  C19: The unicast receiver stays up. Without an alternative outside interface, in every reachable
  state, whatever else is going on, the unicast receiver handles whatever its read gives to the end,
  be it a packet, a timeout or another error: its output has a socket, its buffer is its own and long
  enough, and the unicast destination of the configuration is an address.
\<close>
theorem unicast_receiver_survives:
  assumes "launched X c s0" and "reachable X s0 s" and "dead s = None"
    and "\<not> has_alt c" and "io_ok X"
    and "\<And>t b l. decodeIGMP X (t # b) = Some l \<Longrightarrow> layer_fits t l"
    and "i < length (procs s)" and "task_of (procs s ! i) = RecvUnicast sd"
    and "at_point (procs s ! i) = Reading b"
  shows "\<exists>w'. recvUnicast_handle X sd b res (self (procs s ! i)) (shared s) = (Inr (), w')"
proof -
  obtain r H where r: "self (procs s ! i) = r" "sd = IN" "conRaw r OUT \<noteq> None" "Addr_IsValid (unicastDst r)"
    "bufs_ok (b # H) (shared s)" "IntOutName (shared s) = [OUT \<mapsto> IN, IN \<mapsto> OUT]"
    by (rule unicast_reader [OF assms(1-4,7-9)])
  show ?thesis
    unfolding r(1,2) by (rule recvUnicast_survives [OF assms(5) r(4,5) assms(6)]) (use r(3,6) in auto)
qed

subsection \<open>The client's messages reach the outside\<close>

fun items_said :: "message \<Rightarrow> MembershipItem list" where
  "items_said (ReportMsg b) = b"
| "items_said (LeaveMsg b) = b"

fun type_said :: "message \<Rightarrow> u8" where
  "type_said (ReportMsg b) = IGMPMembershipReportV2"
| "type_said (LeaveMsg b) = IGMPLeaveGroup"

text \<open>
  C6: The special unicast IGMP works. Take any batch the client's reporter says on its network (reports
  sent as unicast), any datagram of it, and any state of a running proxy without an alternative
  outside interface in which its unicast receiver reads: when that datagram is what it reads, it
  handles it to the end and puts exactly one datagram on the wire, through the outside, whose
  payload starts with the client's message; a report goes to the very group it names, a leave to all
  routers. (The groups are IPv4, the system calls work, the codec reads what it writes.)
\<close>
theorem client_reaches_outside:
  assumes X: "io_ok X" "codec_ok X"
    and client: "says X rc msg ds" "UnicastMembershipReports (conf rc)" "k < length ds"
      "Group (items_said msg ! k) = Addr4 g1 g2 g3 g4"
    and proxy: "launched X c s0" "reachable X s0 s" "dead s = None" "\<not> has_alt c"
      "i < length (procs s)" "task_of (procs s ! i) = RecvUnicast sd" "at_point (procs s ! i) = Reading b"
  shows "\<exists>w' d'. recvUnicast_handle X sd b (ReadOk \<lparr>copied = dg_payload (ds ! k), behind = rest\<rparr> cm src)
       (self (procs s ! i)) (shared s)
       = (Inr (), w') \<and>
     wire w' = wire (shared s) @ [d'] \<and> dg_via d' = OUT \<and>
     h_Dst (dg_hdr d') = outside_dest (type_said msg) [g1, g2, g3, g4] \<and>
     take (length (dg_payload (ds ! k))) (dg_payload d') = dg_payload (ds ! k)"
proof -
  obtain r H where me: "self (procs s ! i) = r" and sd: "sd = IN" and raw: "conRaw r OUT \<noteq> None"
    and valid: "Addr_IsValid (unicastDst r)" and buf: "bufs_ok (b # H) (shared s)"
    and table: "IntOutName (shared s) = [OUT \<mapsto> IN, IN \<mapsto> OUT]"
    by (rule unicast_reader [OF proxy])
  have said: "announces X rc OUT (type_said msg) QueryHost (items_said msg ! k) (ds ! k)"
    using client(1-3) by (cases msg) (auto simp: says_report_def says_leave_def list_all2_conv_all_nth)
  have t: "type_said msg \<in> {IGMPMembershipReportV2, IGMPLeaveGroup}" by (cases msg) simp_all
  have g: "addr2NetIP (Group (items_said msg ! k)) = Inr [g1, g2, g3, g4]"
    by (simp add: client(4) addr2NetIP_4)
  show ?thesis unfolding me sd
    by (rule unicast_message_crosses [OF X raw table valid buf said t g]) simp
qed

subsection \<open>Witness\<close>

lemma sample_codec: "codec_ok sample_externals"
proof -
  have "\<exists>ig. sample_decode ([t, 100, 0, 0] @ g @ rest) = Some (LayerV1or2 ig) \<and> ig_GroupAddress ig = g"
    if "t \<in> {IGMPMembershipReportV2, IGMPLeaveGroup}" "length g = 4" for t g rest
    using that by (auto simp: sample_decode_def igmp_type_defs)
  then show ?thesis
    by (auto simp: codec_ok_def sample_externals_def sample_serialize_def)
qed

text \<open>The unicast receiver of the sample proxy gets to its read.\<close>

lemma sample_unicast_reads:
  obtains s b where "reachable sample_externals (Run_init sample_reporter sample_running) s" "dead s = None"
    "length (procs s) = 5" "task_of (procs s ! 3) = RecvUnicast IN" "at_point (procs s ! 3) = Reading b"
    "wire (shared s) = []"
proof -
  let ?X = sample_externals and ?s = "started sample_reporter sample_running"
  let ?p = "\<lambda>pt. \<lparr>task_of = RecvUnicast IN, self = sample_reporter, at_point = pt\<rparr>"
  have 3: "3 < length (procs ?s)" "procs ?s ! 3 = ?p Fresh" by (simp_all add: sample_tasks)
  let ?t = "?s\<lparr>procs := (procs ?s)[3 := ?p Loop], shared := sample_running\<rparr>"
  have "go_step ?X False (?p Fresh) sample_running (Inr (?p Loop)) sample_running"
    using go_step.start [of "?p Fresh" sample_running "Inr ()" sample_running ?X False]
    by (simp add: recvUnicast_start_def sample_addr_in)
  with reach_go [OF reach_started [of ?X sample_reporter sample_running], of 3 "?p Loop" sample_running] 3
  have 1: "reachable ?X (Run_init sample_reporter sample_running) ?t" by (simp add: wg_after_def)
  have "uCon sample_reporter IN \<noteq> None" by (simp add: sample_reporter_def)
  then have "returns (recvUnicast_begin ?X 0 sample_reporter)"
    unfolding recvUnicast_begin_def by (auto intro!: returns_bind returns_ioOrFatal [OF sample_io])
  then obtain b w where b: "recvUnicast_begin ?X 0 sample_reporter sample_running = (Inr b, w)"
    unfolding returns_def by blast
  then have "wire w = []"
    using begin_same(2) [OF b] by (simp add: sample_running_def sample_world_def)
  moreover have "go_step ?X False (?p Loop) sample_running (Inr (?p (Reading b))) w"
    using go_step.begin_unicast [of "?p Loop" IN ?X 0 sample_running "Inr b" w] b by simp
  with reach_go [OF 1, of 3 "?p (Reading b)" w] 3
  have 2: "reachable ?X (Run_init sample_reporter sample_running)
      (?t\<lparr>procs := (procs ?s)[3 := ?p (Reading b)], shared := w\<rparr>)" by (simp add: wg_after_def)
  have "length (procs ?s) = 5" by (simp add: sample_tasks)
  ultimately show thesis using that [OF 2] 3(1) by simp
qed

theorem unicast_receiver_survives_witness:
  "\<exists>s b w'. reachable sample_externals (Run_init sample_reporter sample_running) s \<and>
     at_point (procs s ! 3) = Reading b \<and>
     recvUnicast_handle sample_externals IN b ReadError (self (procs s ! 3)) (shared s) = (Inr (), w')"
proof -
  obtain s b where s: "reachable sample_externals (Run_init sample_reporter sample_running) s" "dead s = None"
    "length (procs s) = 5" "task_of (procs s ! 3) = RecvUnicast IN" "at_point (procs s ! 3) = Reading b"
    by (rule sample_unicast_reads)
  have "\<not> has_alt sample_config" by (simp add: sample_config_def has_alt_def)
  then obtain w' where "recvUnicast_handle sample_externals IN b ReadError (self (procs s ! 3)) (shared s) = (Inr (), w')"
    using unicast_receiver_survives [where i = 3 and sd = IN and b = b and res = ReadError,
      OF launch_sample s(1,2) _ sample_io sample_layer_fits _ s(4,5)] s(3) by fastforce
  with s(1,5) show ?thesis by blast
qed

theorem client_reaches_outside_witness:
  "\<exists>rc w d s b w' d'. createGoIGMPReporter sample_externals Second sample_mc sample_world = (Inr rc, w) \<and>
     says sample_externals rc (ReportMsg [sample_item]) [d] \<and>
     reachable sample_externals (Run_init sample_reporter sample_running) s \<and>
     recvUnicast_handle sample_externals IN b (ReadOk \<lparr>copied = dg_payload d, behind = (\<lambda>_ _. 0)\<rparr> None GNil)
       (self (procs s ! 3)) (shared s)
       = (Inr (), w') \<and> wire w' = [d'] \<and> h_Dst (dg_hdr d') = [239, 1, 1, 1]"
proof -
  obtain rc w where rc: "createGoIGMPReporter sample_externals Second sample_mc sample_world = (Inr rc, w)"
    by (rule sample_creates)
  then have b: "built (client_config Second sample_mc) rc"
    by (auto simp: createGoIGMPReporter_def intro: NewIGMPReporter_built)
  then have u: "UnicastMembershipReports (conf rc)" by (simp add: built_def client_config_def)
  have "\<exists>ds. says sample_externals rc (ReportMsg [sample_item]) ds"
    by (rule sayable [OF b]) (simp add: sample_item_def addr2NetIP_4)
  then obtain d where d: "says sample_externals rc (ReportMsg [sample_item]) [d]"
    by (auto simp: says_report_def list_all2_Cons1)
  obtain s n where s: "reachable sample_externals (Run_init sample_reporter sample_running) s" "dead s = None"
    "length (procs s) = 5" "task_of (procs s ! 3) = RecvUnicast IN" "at_point (procs s ! 3) = Reading n"
    "wire (shared s) = []"
    by (rule sample_unicast_reads)
  have "Group (items_said (ReportMsg [sample_item]) ! 0) = Addr4 239 1 1 1" by (simp add: sample_item_def)
  from client_reaches_outside [OF sample_io sample_codec d u _ this launch_sample s(1,2) _ _ s(4,5), of "\<lambda>_ _. 0" None GNil]
  obtain w' d' where "recvUnicast_handle sample_externals IN n (ReadOk \<lparr>copied = dg_payload d, behind = (\<lambda>_ _. 0)\<rparr> None GNil)
      (self (procs s ! 3)) (shared s) = (Inr (), w')" "wire w' = [d']" "h_Dst (dg_hdr d') = [239, 1, 1, 1]"
    using s(3,6) by (auto simp: sample_config_def has_alt_def igmp_type_defs)
  with rc d s(1) show ?thesis by blast
qed

end
