(* ===== verification/ExampleMain.thy ===== *)
theory ExampleMain
  imports Shutdown
begin

text \<open>
  The example program (cmd/goIGMPexample/goIGMPexample.go): its flags and their defaults, the
  configuration it builds from them, the search for the default route, and the process: \<open>main\<close>
  from its first line to its last, the signal handler and the metrics endpoint beside it. The value
  \<open>flag.Parse\<close> gives each flag is an argument, as are the routes and links of the host (netlink)
  and the HTTP server.
\<close>

subsection \<open>Flags\<close>

record flags =
  version :: bool
  promListen :: string
  promPath :: string
  inName :: string
  outName :: string
  altName :: string
  unicastDstFlag :: string
  proxyOutIn :: bool
  proxyInOut :: bool
  unicastProxyInToOut :: bool
  queryNotify :: bool
  membershipReportsFromNetwork :: bool
  membershipReportsToNetwork :: bool
  unicastMembershipReports :: bool
  connectQueryToReport :: bool
  membershipReportsReader :: bool
  leaveToNetwork :: bool
  channelSize :: int
  readDeadline :: duration
  gratuitous :: duration
  selfQuery :: duration
  mloopback :: bool
  dl :: int

definition debugLevelCst :: int where "debugLevelCst = 11"
definition promListenCst :: string where "promListenCst = '':7500''"
definition promPathCst :: string where "promPathCst = ''/metrics''"
definition inNameCst :: string where "inNameCst = ''lo''"
definition outNameCst :: string where "outNameCst = ''eth0''"
definition altNameCst :: string where "altNameCst = []"
definition unicastDstCst :: string where "unicastDstCst = ''10.99.0.1''"
definition channelSizeCst :: int where "channelSizeCst = 10"
definition readDeadlineCst :: duration where "readDeadlineCst = 10 * Second"
definition gratuitousCst :: duration where "gratuitousCst = 600 * Second"
definition selfQueryCst :: duration where "selfQueryCst = 5 * Second"
definition loopbackCst :: bool where "loopbackCst = False"
definition cancelSleepTime :: duration where "cancelSleepTime = 5 * Second"

definition default_flags :: flags where
  "default_flags =
     \<lparr>version = False, promListen = promListenCst, promPath = promPathCst, inName = inNameCst,
      outName = outNameCst, altName = altNameCst, unicastDstFlag = unicastDstCst, proxyOutIn = False,
      proxyInOut = False, unicastProxyInToOut = False, queryNotify = False,
      membershipReportsFromNetwork = False, membershipReportsToNetwork = False,
      unicastMembershipReports = False, connectQueryToReport = False,
      membershipReportsReader = False, leaveToNetwork = False, channelSize = channelSizeCst,
      readDeadline = readDeadlineCst, gratuitous = gratuitousCst, selfQuery = selfQueryCst,
      mloopback = loopbackCst, dl = debugLevelCst\<rparr>"

lemmas flag_defs = default_flags_def inNameCst_def outNameCst_def altNameCst_def unicastDstCst_def
  channelSizeCst_def

subsection \<open>The default route\<close>

record route =
  rt_Dst :: "string option"
  rt_LinkIndex :: int

record netlink =
  RouteList :: "string + route list"
  LinkByIndex :: "int \<Rightarrow> string + string"

fun default_route :: "netlink \<Rightarrow> route list \<Rightarrow> string + string" where
  "default_route N [] = Inl ''default route not found''"
| "default_route N (route # routes) =
     (if rt_Dst route = None then
        (case LinkByIndex N (rt_LinkIndex route) of Inl err \<Rightarrow> Inl err | Inr name \<Rightarrow> Inr name)
      else default_route N routes)"

definition getDefaultRouteInterface :: "netlink \<Rightarrow> string + string" where
  "getDefaultRouteInterface N =
     (case RouteList N of Inl err \<Rightarrow> Inl err | Inr routes \<Rightarrow> default_route N routes)"

text \<open>
  The interface of the default route is the link of the first route without a destination;
  the search fails exactly if the routes cannot be listed, none is a default route, or the first
  default route's link cannot be read (a later default route is not tried).
\<close>
theorem getDefaultRouteInterface_spec:
  "getDefaultRouteInterface N = Inr name \<longleftrightarrow>
     (\<exists>routes route. RouteList N = Inr routes \<and>
        find (\<lambda>route. rt_Dst route = None) routes = Some route \<and>
        LinkByIndex N (rt_LinkIndex route) = Inr name)"
proof -
  have "default_route N routes = Inr name \<longleftrightarrow>
     (\<exists>route. find (\<lambda>route. rt_Dst route = None) routes = Some route \<and>
        LinkByIndex N (rt_LinkIndex route) = Inr name)" for routes
    by (induction routes) (auto split: sum.splits)
  then show ?thesis by (auto simp: getDefaultRouteInterface_def split: sum.splits)
qed

subsection \<open>The configuration\<close>

definition main_config :: "flags \<Rightarrow> string \<Rightarrow> Config" where
  "main_config f out =
     \<lparr>InIntName = inName f, OutIntName = out, AltOutIntName = altName f, UnicastDst = unicastDstFlag f,
      ProxyOutToIn = proxyOutIn f, ProxyInToOut = proxyInOut f,
      UnicastProxyInToOut = unicastProxyInToOut f, QueryNotify = queryNotify f,
      MembershipReportsFromNetwork = membershipReportsFromNetwork f,
      MembershipReportsToNetwork = membershipReportsToNetwork f,
      UnicastMembershipReports = unicastMembershipReports f, LeaveToNetwork = leaveToNetwork f,
      SocketReadDeadLine = readDeadline f, ChannelSize = channelSize f, Gratuitous = gratuitous f,
      QueryTime = selfQuery f, DebugLevel = dl f,
      Testing = \<lparr>MulticastLoopback = mloopback f, ConnectQueryToReport = connectQueryToReport f,
        MembershipReportsReader = membershipReportsReader f\<rparr>\<rparr>"

text \<open>What \<open>main\<close> comes to before the reporter: the version and exit, an error, a configuration.\<close>

datatype start = ShowVersion | StartFatal string | StartWith Config

definition main_start :: "netlink \<Rightarrow> flags \<Rightarrow> start" where
  "main_start N f =
     (if version f then ShowVersion
      else if outName f = [] then
        (case getDefaultRouteInterface N of
           Inl err \<Rightarrow> StartFatal ''getDefaultRouteInterface err:''
         | Inr di \<Rightarrow> StartWith (main_config f di))
      else StartWith (main_config f (outName f)))"

subsection \<open>The process\<close>

text \<open>
  The goroutines of the program beside the reporter's: \<open>main\<close>, which starts the signal handler
  and the metrics endpoint, builds the reporter, runs it and ends when \<open>Run\<close> has returned; the
  signal handler, which asks for signals, waits for one, cancels the context, sleeps and exits;
  the endpoint, which registers its path (\<open>http.Handle\<close> panics on a bad pattern) and serves
  (\<open>http.ListenAndServe\<close> returns only with an error, and \<open>log.Fatal\<close> follows). They share the
  context and the process: whoever ends it, with status 0, 1 (\<open>log.Fatal\<close>) or 2 (a panic), ends
  all. Only the handler cancels the context. \<open>memory\<close> is the state the reporter is built in; the
  HTTP server is an argument.
\<close>

datatype main_point = MEntry | MSetup | MConstruct Config | MRun

datatype hpoint = HFresh | HWaiting | HSleeping

datatype ppoint = PNone | PFresh | PServing

record process =
  main_at :: main_point
  memory :: world
  reporters :: "sys option"
  ctx_done :: bool
  handler :: hpoint
  prom :: ppoint
  exited :: "int option"

record http_server =
  Handle_panics :: "string \<Rightarrow> bool"
  ListenAndServe_fails :: "string \<Rightarrow> bool"

fun status :: "fatal \<Rightarrow> int" where
  "status (LogFatal msg) = 1"
| "status (Panic msg) = 2"

definition main_init :: "world \<Rightarrow> process" where
  "main_init w = \<lparr>main_at = MEntry, memory = w, reporters = None, ctx_done = False,
     handler = HFresh, prom = PNone, exited = None\<rparr>"

inductive initSignalHandler :: "process \<Rightarrow> process \<Rightarrow> bool" where
  notify: "handler p = HFresh \<Longrightarrow> initSignalHandler p (p\<lparr>handler := HWaiting\<rparr>)"
| signal: "handler p = HWaiting \<Longrightarrow>
     initSignalHandler p (p\<lparr>handler := HSleeping, ctx_done := True,
       reporters := map_option (\<lambda>s. s\<lparr>cancelled := True\<rparr>) (reporters p)\<rparr>)"
| slept: "handler p = HSleeping \<Longrightarrow> initSignalHandler p (p\<lparr>exited := Some 0\<rparr>)"

inductive initPromHandler :: "http_server \<Rightarrow> flags \<Rightarrow> process \<Rightarrow> process \<Rightarrow> bool" for H f where
  handle: "prom p = PFresh \<Longrightarrow> \<not> Handle_panics H (promPath f) \<Longrightarrow>
     initPromHandler H f p (p\<lparr>prom := PServing\<rparr>)"
| bad_pattern: "prom p = PFresh \<Longrightarrow> Handle_panics H (promPath f) \<Longrightarrow>
     initPromHandler H f p (p\<lparr>exited := Some (status (Panic ''http: invalid pattern''))\<rparr>)"
| serve_fails: "prom p = PServing \<Longrightarrow> ListenAndServe_fails H (promListen f) \<Longrightarrow>
     initPromHandler H f p (p\<lparr>exited := Some (status (LogFatal ''prometheus error''))\<rparr>)"

inductive main_go :: "netlink \<Rightarrow> externals \<Rightarrow> flags \<Rightarrow> process \<Rightarrow> process \<Rightarrow> bool" for N X f where
  show_version: "main_at p = MEntry \<Longrightarrow> version f \<Longrightarrow> main_go N X f p (p\<lparr>exited := Some 0\<rparr>)"
| serve_metrics: "main_at p = MEntry \<Longrightarrow> \<not> version f \<Longrightarrow>
     main_go N X f p (p\<lparr>main_at := MSetup, prom := PFresh\<rparr>)"
| no_route: "main_at p = MSetup \<Longrightarrow> main_start N f = StartFatal msg \<Longrightarrow>
     main_go N X f p (p\<lparr>exited := Some (status (LogFatal msg))\<rparr>)"
| configure: "main_at p = MSetup \<Longrightarrow> main_start N f = StartWith c \<Longrightarrow>
     main_go N X f p (p\<lparr>main_at := MConstruct c\<rparr>)"
| construct: "main_at p = MConstruct c \<Longrightarrow> NewIGMPReporter X c (memory p) = (Inr r, w') \<Longrightarrow>
     main_go N X f p (p\<lparr>main_at := MRun, memory := w',
       reporters := Some ((Run_init r w')\<lparr>cancelled := ctx_done p\<rparr>)\<rparr>)"
| no_reporter: "main_at p = MConstruct c \<Longrightarrow> NewIGMPReporter X c (memory p) = (Inl e, w') \<Longrightarrow>
     main_go N X f p (p\<lparr>exited := Some (status e)\<rparr>)"
| run: "main_at p = MRun \<Longrightarrow> reporters p = Some s \<Longrightarrow> sys_step X s s' \<Longrightarrow> cancelled s' = cancelled s \<Longrightarrow>
     main_go N X f p (p\<lparr>reporters := Some s', exited := map_option status (dead s')\<rparr>)"
| main_ends: "main_at p = MRun \<Longrightarrow> reporters p = Some s \<Longrightarrow> returned s \<Longrightarrow>
     main_go N X f p (p\<lparr>exited := Some 0\<rparr>)"

inductive main_step ::
    "netlink \<Rightarrow> http_server \<Rightarrow> externals \<Rightarrow> flags \<Rightarrow> process \<Rightarrow> process \<Rightarrow> bool" for N H X f where
  by_main: "exited p = None \<Longrightarrow> main_go N X f p p' \<Longrightarrow> main_step N H X f p p'"
| by_handler: "exited p = None \<Longrightarrow> initSignalHandler p p' \<Longrightarrow> main_step N H X f p p'"
| by_prom: "exited p = None \<Longrightarrow> initPromHandler H f p p' \<Longrightarrow> main_step N H X f p p'"

inductive_cases main_goE: "main_go N X f p p'"
inductive_cases initSignalHandlerE: "initSignalHandler p p'"
inductive_cases initPromHandlerE: "initPromHandler H f p p'"

inductive main_reach ::
    "netlink \<Rightarrow> http_server \<Rightarrow> externals \<Rightarrow> flags \<Rightarrow> world \<Rightarrow> process \<Rightarrow> bool" for N H X f w where
  main_begin: "main_reach N H X f w (main_init w)"
| main_next: "main_reach N H X f w p \<Longrightarrow> main_step N H X f p p' \<Longrightarrow> main_reach N H X f w p'"

text \<open>
  What the process keeps: where its reporter comes from, that the endpoint serves what the flags
  say, and how it can have ended.
\<close>

definition stage_ok :: "netlink \<Rightarrow> externals \<Rightarrow> flags \<Rightarrow> world \<Rightarrow> process \<Rightarrow> bool" where
  "stage_ok N X f w p \<longleftrightarrow>
     (main_at p \<noteq> MRun \<longrightarrow> memory p = w \<and> reporters p = None) \<and>
     (\<forall>c. main_at p = MConstruct c \<longrightarrow> main_start N f = StartWith c) \<and>
     (\<forall>s. reporters p = Some s \<longrightarrow>
        (\<exists>c r w'. main_start N f = StartWith c \<and> NewIGMPReporter X c w = (Inr r, w') \<and>
           reachable X (Run_init r w') s) \<and> cancelled s = ctx_done p) \<and>
     (ctx_done p \<longleftrightarrow> handler p = HSleeping)"

definition ended_well :: "flags \<Rightarrow> process \<Rightarrow> bool" where
  "ended_well f p \<longleftrightarrow>
     version f \<or> (\<exists>s. reporters p = Some s \<and> returned s) \<or> handler p = HSleeping"

definition ended_badly ::
    "netlink \<Rightarrow> http_server \<Rightarrow> externals \<Rightarrow> flags \<Rightarrow> world \<Rightarrow> process \<Rightarrow> fatal \<Rightarrow> bool" where
  "ended_badly N H X f w p e \<longleftrightarrow>
     (Handle_panics H (promPath f) \<and> e = Panic ''http: invalid pattern'') \<or>
     (ListenAndServe_fails H (promListen f) \<and> e = LogFatal ''prometheus error'') \<or>
     (\<exists>msg. main_start N f = StartFatal msg \<and> e = LogFatal msg) \<or>
     (\<exists>c w'. main_start N f = StartWith c \<and> NewIGMPReporter X c w = (Inl e, w')) \<or>
     (\<exists>s. reporters p = Some s \<and> dead s = Some e)"

definition ending_ok ::
    "netlink \<Rightarrow> http_server \<Rightarrow> externals \<Rightarrow> flags \<Rightarrow> world \<Rightarrow> process \<Rightarrow> bool" where
  "ending_ok N H X f w p \<longleftrightarrow>
     (case exited p of None \<Rightarrow> True
      | Some n \<Rightarrow> (n = 0 \<and> ended_well f p) \<or> (\<exists>e. ended_badly N H X f w p e \<and> n = status e))"

lemma main_go_stage: "main_go N X f p p' \<Longrightarrow> stage_ok N X f w p \<Longrightarrow> stage_ok N X f w p'"
proof (erule main_goE)
  fix c r w' assume st: "stage_ok N X f w p" and c: "main_at p = MConstruct c"
    and new: "NewIGMPReporter X c (memory p) = (Inr r, w')"
    and p': "p' = p\<lparr>main_at := MRun, memory := w', reporters := Some (Run_init r w'\<lparr>cancelled := ctx_done p\<rparr>)\<rparr>"
  have "reachable X (Run_init r w') ((Run_init r w')\<lparr>cancelled := b\<rparr>)" for b
  proof (cases b)
    case True
    then show ?thesis using reach_cancel [OF reachable.refl, of "Run_init r w'" X] by (simp add: Run_init_def)
  next
    case False
    then have "(Run_init r w')\<lparr>cancelled := b\<rparr> = Run_init r w'" by (simp add: Run_init_def)
    then show ?thesis by (simp add: reachable.refl)
  qed
  moreover from st c have "memory p = w" "main_start N f = StartWith c" by (auto simp: stage_ok_def)
  ultimately show "stage_ok N X f w p'" using st new by (fastforce simp: stage_ok_def p')
next
  fix s s' assume st: "stage_ok N X f w p" and m: "main_at p = MRun" and s: "reporters p = Some s"
    and step: "sys_step X s s'" and c: "cancelled s' = cancelled s"
    and p': "p' = p\<lparr>reporters := Some s', exited := map_option status (dead s')\<rparr>"
  from st s obtain c r w' where "main_start N f = StartWith c" "NewIGMPReporter X c w = (Inr r, w')"
    "reachable X (Run_init r w') s" "cancelled s = ctx_done p" unfolding stage_ok_def by blast
  with step c m st show "stage_ok N X f w p'"
    by (auto simp: stage_ok_def p' intro: reachable.step)
qed (auto simp: stage_ok_def)

lemma main_go_ending:
  "main_go N X f p p' \<Longrightarrow> stage_ok N X f w p \<Longrightarrow> exited p = None \<Longrightarrow> ending_ok N H X f w p'"
  by (erule main_goE)
    (auto simp: ending_ok_def ended_well_def ended_badly_def stage_ok_def split: option.split)

lemma handler_stage: "initSignalHandler p p' \<Longrightarrow> stage_ok N X f w p \<Longrightarrow>
    (\<And>s. reporters p = Some s \<Longrightarrow> dead s = None) \<Longrightarrow> stage_ok N X f w p'"
  by (erule initSignalHandlerE) (fastforce simp: stage_ok_def intro: reach_cancel)+

lemma other_endings:
  "initSignalHandler p p' \<Longrightarrow> exited p = None \<Longrightarrow> ending_ok N H X f w p'"
  "initPromHandler H f p p' \<Longrightarrow> exited p = None \<Longrightarrow> ending_ok N H X f w p'"
  by (auto elim!: initSignalHandlerE initPromHandlerE
      simp: ending_ok_def ended_well_def ended_badly_def split: option.split)

lemma prom_stage: "initPromHandler H f p p' \<Longrightarrow> stage_ok N X f w p \<Longrightarrow> stage_ok N X f w p'"
  by (erule initPromHandlerE) (simp_all add: stage_ok_def)

lemma main_alive:
  "main_reach N H X f w p \<Longrightarrow> exited p = None \<Longrightarrow> reporters p = Some s \<Longrightarrow> dead s = None"
proof (induction arbitrary: s rule: main_reach.induct)
  case (main_next p p')
  from main_next.hyps(2) show ?case
  proof cases
    case by_main
    from by_main(2) show ?thesis
      by cases (use main_next.IH main_next.prems by_main(1) in \<open>auto simp: Run_init_def\<close>)
  next
    case by_handler
    from by_handler(2) show ?thesis
      by cases (use main_next.IH main_next.prems by_handler(1) in auto)
  next
    case by_prom
    from by_prom(2) show ?thesis
      by cases (use main_next.IH main_next.prems by_prom(1) in auto)
  qed
qed (simp add: main_init_def)

lemma main_process_ok:
  "main_reach N H X f w p \<Longrightarrow> stage_ok N X f w p \<and> ending_ok N H X f w p"
proof (induction rule: main_reach.induct)
  case main_begin
  show ?case by (simp add: stage_ok_def ending_ok_def main_init_def)
next
  case (main_next p p')
  then have st: "stage_ok N X f w p" by blast
  from main_next.hyps(2) show ?case
  proof cases
    case by_main
    with st main_go_stage main_go_ending show ?thesis by blast
  next
    case by_handler
    with st handler_stage main_alive [OF main_next.hyps(1)] other_endings(1) show ?thesis by blast
  next
    case by_prom
    with st prom_stage other_endings(2) show ?thesis by blast
  qed
qed

text \<open>
  C34: The exit status tells how the program ended. It is 0 only if the version was asked for, or
  \<open>Run\<close> has returned with every goroutine finished, or after a signal, when the handler has
  cancelled the context and slept; 1 after a \<open>log.Fatal\<close> and 2 after a panic, each of which has one
  of five causes: the metrics path, the metrics address, the default route, the constructor, or
  a goroutine of the reporter.
\<close>
theorem exit_status_meaning:
  assumes "boot w" and "main_reach N H X f w p" and "exited p = Some n"
  shows "(n = 0 \<and> (version f \<or> handler p = HSleeping \<or>
        (\<exists>s. reporters p = Some s \<and> todo s = [] \<and> (\<forall>g \<in> set (procs s). at_point g = Finished)))) \<or>
     (\<exists>e. ended_badly N H X f w p e \<and> n = status e \<and> status e \<in> {1, 2})"
proof -
  have fin: "todo s = [] \<and> (\<forall>g \<in> set (procs s). at_point g = Finished)"
    if s: "reporters p = Some s" "returned s" for s
  proof -
    from main_process_ok [OF assms(2)] s(1) obtain c r w' where
      "NewIGMPReporter X c w = (Inr r, w')" and r: "reachable X (Run_init r w') s"
      unfolding stage_ok_def by blast
    with assms(1) have "launched X c (Run_init r w')" by (auto simp: launched_def)
    then obtain q where "accounting s" using r by (rule launched_facts)
    with s(2) show ?thesis by (auto simp: accounting_def live_def filter_empty_conv)
  qed
  have "status e \<in> {1, 2}" for e by (cases e) simp_all
  moreover have "(n = 0 \<and> ended_well f p) \<or> (\<exists>e. ended_badly N H X f w p e \<and> n = status e)"
    using main_process_ok [OF assms(2)] assms(3) by (auto simp: ending_ok_def)
  ultimately show ?thesis using fin unfolding ended_well_def by blast
qed

lemma main_runs_built:
  assumes "main_reach N H X f w p" "main_at p = MRun"
  shows "\<exists>c r w'. main_start N f = StartWith c \<and> NewIGMPReporter X c w = (Inr r, w')"
proof -
  have "main_at q = MRun \<Longrightarrow> reporters q \<noteq> None" if "main_reach N H X f w q" for q
    using that
  proof (induction rule: main_reach.induct)
    case (main_next p p')
    from main_next.hyps(2) show ?case
    proof cases
      case by_main
      from by_main(2) show ?thesis
        by cases (use main_next.IH main_next.prems in auto)
    next
      case by_handler
      from by_handler(2) show ?thesis
        by cases (use main_next.IH main_next.prems in auto)
    next
      case by_prom
      from by_prom(2) show ?thesis
        by cases (use main_next.IH main_next.prems in auto)
    qed
  qed (simp add: main_init_def)
  with assms obtain s where "reporters p = Some s" by blast
  with main_process_ok [OF assms(1)] show ?thesis unfolding stage_ok_def by blast
qed

text \<open>The way to a running reporter, with the handler waiting and the endpoint serving.\<close>

definition main_running :: "IGMPReporter \<Rightarrow> world \<Rightarrow> process" where
  "main_running r w = \<lparr>main_at = MRun, memory = w, reporters = Some (Run_init r w), ctx_done = False,
     handler = HWaiting, prom = PServing, exited = None\<rparr>"

lemma main_running_simps [simp]:
  "exited (main_running r w) = None" "handler (main_running r w) = HWaiting"
  "reporters (main_running r w) = Some (Run_init r w)" "main_at (main_running r w) = MRun"
  by (simp_all add: main_running_def)

lemma main_reach_run:
  assumes start: "main_start N f = StartWith c" and new: "NewIGMPReporter X c w = (Inr r, w')"
    and path: "\<not> Handle_panics H (promPath f)"
  shows "main_reach N H X f w (main_running r w')"
proof -
  let ?p0 = "main_init w" and ?p1 = "(main_init w)\<lparr>main_at := MSetup, prom := PFresh\<rparr>"
  let ?p2 = "?p1\<lparr>main_at := MConstruct c\<rparr>"
  let ?p3 = "?p2\<lparr>main_at := MRun, memory := w', reporters := Some ((Run_init r w')\<lparr>cancelled := ctx_done ?p2\<rparr>)\<rparr>"
  let ?p4 = "?p3\<lparr>prom := PServing\<rparr>" and ?p5 = "?p3\<lparr>prom := PServing, handler := HWaiting\<rparr>"
  from start have "\<not> version f" by (auto simp: main_start_def)
  then have "main_go N X f ?p0 ?p1" by (intro serve_metrics) (simp_all add: main_init_def)
  moreover have "main_go N X f ?p1 ?p2" by (rule configure) (simp_all add: start main_init_def)
  moreover have "main_go N X f ?p2 ?p3" by (rule construct [of _ c]) (use new in \<open>simp_all add: main_init_def\<close>)
  moreover have "initPromHandler H f ?p3 ?p4" by (rule handle) (simp_all add: path)
  moreover have "initSignalHandler ?p4 ?p5" using notify [of ?p4] by (simp add: main_init_def)
  ultimately have "main_reach N H X f w ?p5"
    by (intro main_next [OF main_next [OF main_next [OF main_next [OF main_next [OF main_begin]]]]]
        by_main by_handler by_prom) (simp_all add: main_init_def)
  then show ?thesis by (simp add: main_running_def main_init_def Run_init_def)
qed

text \<open>
  C18: When the program gets to run. With working system calls, a program whose endpoint registers
  its path can reach the state in which its reporter runs exactly if the version was not asked for, the
  outside interface is given or the default route has one, the metrics are not registered yet, the
  channel size is one the runtime can make channels with, the fallback destination parses, and the inside, the outside and (if
  named) the alternative interface resolve.
\<close>
theorem program_starts_iff:
  assumes "io_ok X" and "\<not> Handle_panics H (promPath f)"
  shows "(\<exists>p. main_reach N H X f w p \<and> main_at p = MRun) \<longleftrightarrow>
     \<not> version f \<and> metrics_fit X w \<and> channels_fit X (main_config f (outName f)) \<and> ParseAddr (unicastDstFlag f) \<noteq> None \<and>
     resolves X (inName f) \<and> (altName f \<noteq> [] \<longrightarrow> resolves X (altName f)) \<and>
     (\<exists>out. resolves X out \<and>
        (if outName f = [] then getDefaultRouteInterface N = Inr out else out = outName f))"
    (is "?starts \<longleftrightarrow> ?ready")
proof -
  have start: "main_start N f = StartWith c \<longleftrightarrow> \<not> version f \<and> (\<exists>out. c = main_config f out \<and>
      (if outName f = [] then getDefaultRouteInterface N = Inr out else out = outName f))" for c
    by (auto simp: main_start_def split: sum.splits)
  have config: "(\<exists>r w'. NewIGMPReporter X (main_config f out) w = (Inr r, w')) \<longleftrightarrow>
      metrics_fit X w \<and> channels_fit X (main_config f (outName f)) \<and> ParseAddr (unicastDstFlag f) \<noteq> None \<and>
      resolves X (inName f) \<and> resolves X out \<and> (altName f \<noteq> [] \<longrightarrow> resolves X (altName f))" for out
    using constructor_succeeds [OF assms(1), of "main_config f out" w]
    by (simp add: main_config_def has_alt_def channels_fit_def)
  have "?starts \<longleftrightarrow> (\<exists>c r w'. main_start N f = StartWith c \<and> NewIGMPReporter X c w = (Inr r, w'))"
    (is "_ \<longleftrightarrow> ?built")
  proof
    assume ?starts
    then obtain p where "main_reach N H X f w p" "main_at p = MRun" by blast
    then show ?built using main_runs_built by blast
  next
    assume ?built
    then obtain c r w' where b: "main_start N f = StartWith c" "NewIGMPReporter X c w = (Inr r, w')" by blast
    from main_reach_run [OF b assms(2)] show ?starts by auto
  qed
  also have "\<dots> \<longleftrightarrow> (\<exists>out. \<not> version f \<and>
      (if outName f = [] then getDefaultRouteInterface N = Inr out else out = outName f) \<and>
      (\<exists>r w'. NewIGMPReporter X (main_config f out) w = (Inr r, w')))"
    unfolding start by blast
  also have "\<dots> \<longleftrightarrow> ?ready" unfolding config by blast
  finally show ?thesis .
qed

text \<open>
  The program does nothing by default. Without flags every feature is off (the constants
  \<open>ProxyOutToInCst\<close>, \<open>UnicastProxyInToOutCst\<close> and \<open>LeaveToNetworkCst\<close> that say otherwise are not
  used): the constructor opens no socket, \<open>Run\<close> starts no goroutine and can return at once.
\<close>
theorem default_program_idles:
  assumes "main_start N default_flags = StartWith c" and "NewIGMPReporter X c w0 = (Inr r, w1)"
  shows "tasks_of r = [] \<and> raws_of c = {} \<and> joins_of c = {} \<and> unis_of c = {} \<and>
     sys_step X (Run_init r w1) ((Run_init r w1)\<lparr>returned := True\<rparr>)"
proof -
  from assms(1) have c: "c = main_config default_flags ''eth0''"
    by (simp add: main_start_def flag_defs)
  have "conf r = c" using NewIGMPReporter_built [OF assms(2)] by (simp add: built_def)
  then have t: "tasks_of r = []" by (simp add: tasks_of_def c main_config_def flag_defs)
  moreover have "raws_of c = {}" "joins_of c = {}" "unis_of c = {}"
    by (simp_all add: raws_of_def joins_of_def unis_of_def c main_config_def flag_defs)
  moreover have "sys_step X (Run_init r w1) ((Run_init r w1)\<lparr>returned := True\<rparr>)"
    by (rule wait_done) (simp_all add: Run_init_def t)
  ultimately show ?thesis by blast
qed

subsection \<open>Witnesses\<close>

text \<open>A host with one default route, a server that works, the proxy flags of the README.\<close>

definition sample_net :: netlink where
  "sample_net = \<lparr>RouteList = Inr [\<lparr>rt_Dst = Some ''10.0.0.0/24'', rt_LinkIndex = 3\<rparr>,
       \<lparr>rt_Dst = None, rt_LinkIndex = 4\<rparr>], LinkByIndex = (\<lambda>i. Inr ''eth0'')\<rparr>"

definition sample_http :: http_server where
  "sample_http = \<lparr>Handle_panics = (\<lambda>_. False), ListenAndServe_fails = (\<lambda>_. False)\<rparr>"

definition sample_flags :: flags where
  "sample_flags = default_flags\<lparr>proxyOutIn := True, proxyInOut := True\<rparr>"

lemma sample_starts: "main_start N sample_flags = StartWith (main_config sample_flags ''eth0'')"
  by (simp add: main_start_def sample_flags_def flag_defs)

lemma sample_main_builds:
  obtains r w' where "NewIGMPReporter sample_externals (main_config sample_flags ''eth0'') sample_world = (Inr r, w')"
  by (rule sample_builds [of "main_config sample_flags ''eth0''"])
    (simp_all add: main_config_def sample_flags_def flag_defs)

lemma main_signalled:
  assumes "main_reach N H X f w p" "exited p = None" "handler p = HWaiting" "reporters p = Some s"
  shows "main_reach N H X f w (p\<lparr>handler := HSleeping, ctx_done := True,
     reporters := Some (s\<lparr>cancelled := True\<rparr>), exited := Some 0\<rparr>)"
proof -
  let ?q = "p\<lparr>handler := HSleeping, ctx_done := True, reporters := Some (s\<lparr>cancelled := True\<rparr>)\<rparr>"
  have "initSignalHandler p ?q" using signal [OF assms(3)] assms(4) by simp
  then have "main_reach N H X f w ?q" by (rule main_next [OF assms(1) by_handler [OF assms(2)]])
  then have "main_reach N H X f w (?q\<lparr>exited := Some 0\<rparr>)"
    by (rule main_next [OF _ by_handler]) (use assms(2) slept [of ?q] in simp_all)
  then show ?thesis by simp
qed

theorem exit_status_meaning_witness:
  "\<exists>p. main_reach sample_net sample_http sample_externals sample_flags sample_world p \<and>
     exited p = Some 0 \<and> handler p = HSleeping \<and> \<not> version sample_flags \<and>
     (\<forall>s. reporters p = Some s \<longrightarrow> \<not> returned s)"
proof -
  let ?reach = "main_reach sample_net sample_http sample_externals sample_flags sample_world"
  obtain r w' where "NewIGMPReporter sample_externals (main_config sample_flags ''eth0'') sample_world = (Inr r, w')"
    by (rule sample_main_builds)
  from main_reach_run [OF sample_starts this, of sample_http]
  have "?reach (main_running r w')" by (simp add: sample_http_def)
  from main_signalled [OF this main_running_simps(1-3)]
  obtain p where p: "?reach p" "exited p = Some 0" "handler p = HSleeping"
    "reporters p = Some ((Run_init r w')\<lparr>cancelled := True\<rparr>)"
    by simp
  have "\<not> version sample_flags" by (simp add: sample_flags_def flag_defs)
  with exit_status_meaning [OF sample_boot p(1,2)] p show ?thesis
    by (intro exI [of _ p]) (simp add: Run_init_def)
qed

theorem program_starts_iff_witness:
  "\<exists>p. main_reach sample_net sample_http sample_externals (sample_flags\<lparr>outName := []\<rparr>) sample_world p \<and>
     main_at p = MRun"
proof -
  let ?f = "sample_flags\<lparr>outName := []\<rparr>"
  have path: "\<not> Handle_panics sample_http (promPath ?f)" by (simp add: sample_http_def)
  have "channels_fit sample_externals (main_config ?f (outName ?f))"
    by (simp add: channels_fit_def main_config_def sample_flags_def flag_defs sample_externals_def)
  then show ?thesis
    unfolding program_starts_iff [OF sample_io path]
    by (simp add: sample_fit sample_parse sample_resolves sample_flags_def flag_defs sample_net_def getDefaultRouteInterface_def)
qed

theorem default_program_idles_witness:
  "\<exists>r w1. NewIGMPReporter sample_externals (main_config default_flags ''eth0'') sample_world = (Inr r, w1) \<and>
     tasks_of r = [] \<and>
     sys_step sample_externals (Run_init r w1) ((Run_init r w1)\<lparr>returned := True\<rparr>)"
proof -
  let ?c = "main_config default_flags ''eth0''"
  obtain r w1 where r: "NewIGMPReporter sample_externals ?c sample_world = (Inr r, w1)"
    by (rule sample_builds [of ?c]) (simp_all add: main_config_def flag_defs)
  have "main_start N default_flags = StartWith ?c" for N
    by (simp add: main_start_def flag_defs)
  from default_program_idles [OF this r] r show ?thesis by blast
qed

end
