(* ===== verification/Spec2Isabelle.thy ===== *)
theory Spec2Isabelle
  imports Contract Tables SelfQuery Telemetry Notify SocketUse Chain ExampleMain
begin

text \<open>
  goIGMP, a library that proxies and generates IGMP messages between an outside and an inside
  network, its example client and its example program.

  \<^bold>\<open>The program.\<close> \<open>NewIGMPReporter\<close> turns a \<open>Config\<close> into an \<open>IGMPReporter\<close>: address tables,
  interfaces, the sockets the enabled features need, channels to the importing program. \<open>Run\<close>
  starts one goroutine per feature: multicast receivers (three groups per side), the unicast
  receiver, the report worker, the leave worker, the output selector and two testing workers;
  then it waits for all of them. Receivers read a packet into a pooled buffer, filter it, tell the
  client about queries and reports, and relay it to the other side; workers turn the client's
  reports and leaves into datagrams. Which outside interface is in use is a table shared by all.
  \<open>RunSelfQuery\<close> is a separate entry point. The goroutines share the metrics, the channels, the
  selector table, the buffer pool and the sockets; each works on its own copy of the reporter
  (value receivers).

  \<^bold>\<open>Theories and code.\<close>
  \<^item> Prelude: an effect (state and a fatal error) with its combinators, preservation rules,
    triples, fallible maps, decimal and hexadecimal printing.
  \<^item> NetAddr, IPMaps: \<open>net.IP\<close>, \<open>netip.Addr\<close>, their parsing, printing and conversion
    (\<open>netip2Addr\<close> and \<open>addr2NetIP\<close> of goIGMP.go and goIGMP_send_membership_report.go), and
    \<open>makeIPMaps\<close>. The locale \<open>addr_codec\<close> is the contract of a pair of inverse conversions.
  \<^item> Channel: Go channels with capacity and blocked receivers, \<open>select\<close> with a default; the locale
    \<open>lossy_queue\<close> is what the receivers rely on when they notify the client.
  \<^item> Types, Effects: the constants, \<open>Config\<close> and \<open>IGMPReporter\<close> of goIGMP.go (a record with the
    fields of the struct), the environment \<open>externals\<close>, and \<open>world\<close>, the part of a reporter that all
    its copies share by reference, with the wire, the heap of buffers, the pool and what is
    registered with the metrics registry.
  \<^item> Metrics: the five collectors of a reporter and their registration (the first part of
    \<open>NewIGMPReporter\<close>).
  \<^item> Sending: goIGMP_ipv4Header.go, goIGMP_proxy.go, goIGMP_send_membership_report.go,
    \<open>sendLeave\<close> of goIGMP_leave.go and goIGMP_send_self_query.go. The locale \<open>item_emitter\<close> is what
    the two batch loops share.
  \<^item> Sockets, Construct, Tables: goIGMP_socket.go and \<open>NewIGMPReporter\<close> with its invariants.
  \<^item> Recv, Relay, RecvUnicast: goIGMP_recv.go and goIGMP_recv_unicast.go, one turn of each loop
    in all its branches, split at the read into \<open>begin\<close> and \<open>handle\<close>.
  \<^item> Workers, SelfQuery: the bodies of the channel workers (goIGMP_membership.go, goIGMP_leave.go,
    goIGMP_out_selector.go) and the goroutines of \<open>RunSelfQuery\<close>.
  \<^item> Run: \<open>Run\<close> as a step relation. A state holds the tasks still to be started, the goroutines
    (task, own reporter, program point), the world, the context, the wait group, whether \<open>Run\<close> has
    returned, whether the process is dead, and how many goroutines of the client are blocked in a
    receive of queries or of reports. The client is any program: it sends and receives when it
    can, blocks, is woken and gives up at any moment.
  \<^item> Closed, System, Reach, Ownership, Wire, Telemetry, Notify, Survival, SocketUse, Shutdown,
    Contract, Delivery: what holds in every reachable state of that system.
  \<^item> ExampleClient: example/membership_reporter.go as a step relation of its own.
  \<^item> ExampleMain: cmd/goIGMPexample/goIGMPexample.go, \<open>main\<close> with the signal handler and the metrics
    endpoint as one process, from the flags to the exit status; the reporter's system of theory Run
    is the part of its state \<open>main\<close> runs.
  \<^item> Deployment, Ordering: the example client and the reporter it creates side by side, their four
    channels shared.
  \<^item> Chain: two instances, the client's reporter and a proxy that reads its unicast messages.
  \<^item> Sample: a concrete host and start states, on which the witnesses evaluate the model.

  \<^bold>\<open>What the lemmas show.\<close> Recv, Relay and RecvUnicast say for every packet what a turn sends,
  tells the client and does with its buffer. Sending says the same of a batch. Construct gives
  the configurations that start and the sockets they open. Closed, System and Wire lift the turns
  to every interleaving: the locale \<open>world_base\<close> turns a property of the shared world that every
  primitive effect and the receivers' switch keep into one that every turn keeps and, as a
  sublocale of \<open>sys_invariant\<close>, into one of every reachable state; \<open>world_closed\<close> is its special case
  for properties that survive every channel operation and every count, \<open>world_inv\<close> that for
  properties that do not look at the metrics. Ownership, Wire, Telemetry, Notify, Survival,
  SocketUse and Shutdown build on them: no metric call panics, a process has at most one reporter,
  buffers have one owner, everything sent is well formed, the counters account for every
  notification of the client, receivers survive or, in the configurations named there, do not, a
  configuration with the sockets it needs never dies of a missing one, and a cancelled system
  stops. Contract states what the
  library promises as an abstract service (what was sent, which output is in use) and shows that
  every step of the system is one of the service's steps or invisible to it. Delivery shows that
  the workers take the client's batches off their channels oldest first and say each on the wire;
  Deployment puts the example client at the other end of the channels, and Ordering shows that the
  order between reports and leaves is free: every interleaving of the two queues is a run.
  Chain composes two instances: what the client's reporter says in unicast, a proxy's unicast
  receiver, which stays up whatever it reads, re-sends on the outside.
  ExampleMain says when the program gets to run and what its exit status means.

  \<^bold>\<open>Bounds and termination.\<close> The receive buffers have \<open>maxIGMPPacketRecieveBytesCst\<close> = 200 bytes, as
  in the code. No fuel is used: loops over lists are structural, endless loops are step relations.
  Shutdown is bounded by \<open>effort\<close>, a measure of the state that every step of the program itself
  decreases: four for a goroutine still to be started, at most six for its program point, three
  for each value waiting in a channel; the client's own steps are not counted.

  \<^bold>\<open>Atomicity.\<close> A goroutine's turn between two blocking points is one step. Turns of different
  goroutines interleave in every order; shared accesses inside one turn do not. Every access to
  shared mutable state is to a channel, a \<open>sync.Map\<close>, a \<open>sync.Pool\<close>, a metric or a socket, all of
  which synchronise themselves.

  \<^bold>\<open>Parameters.\<close> \<open>externals\<close> holds what is not in the repository: which system calls fail, the
  interfaces and addresses of the host, gopacket's decoder and serializer, the constants of the
  ipv4 package, which collectors the Prometheus registry accepts, and how many elements of a given
  size a Go channel can have at most. What a read copies to the front of a buffer and what it
  leaves behind that is part of the read, and arbitrary. The example program's \<open>netlink\<close>
  holds the routes and links, its \<open>http_server\<close> which paths and addresses the HTTP server refuses. Theorems that need
  something of them say so (\<open>io_ok\<close>, \<open>resolves\<close>, \<open>refuses_registered\<close>, \<open>codec_ok\<close>, a layer of the right kind for a type), and their
  witnesses instantiate them with the functions of theory Sample.

  \<^bold>\<open>Not modelled.\<close> What the HTTP server answers and the quantiles of a summary (library code; a
  counter is counted in \<open>world\<close> under its label values, a summary by the number of its
  observations); the debug log; time (a deadline passes or a tick comes at any moment, a
  duration is compared but never waits); the parsing of the command line; a signal before the
  handler has asked for it; \<open>Mcast2HLS\<close> beyond the fields the example uses, since it is declared
  elsewhere; the Makefiles, containers and captures.

  \<^bold>\<open>Possible extensions.\<close> Steps finer than a turn would cover interleavings inside one; time would
  tell which of the runs the deadlines and tickers allow.
\<close>

end
